(* ===== verification/Prelude.thy ===== *)
theory Prelude
  imports Main "HOL-Library.Word" "HOL-Library.List_Lexorder" "HOL-Library.Char_ord"
    "HOL-Library.Product_Lexorder"
begin

text \<open>
  The vocabulary every component shares.

  \<^item> Rust's unsigned integers as words of their width. \<open>+\<close>, \<open>-\<close> and \<open>*\<close> wrap, as the
    compiled program does in the release profile of the workspace (\<open>[profile.release]\<close> of
    src/Cargo.toml leaves \<open>overflow-checks\<close> off). \<open>checked_add\<close>, \<open>saturating_add\<close>,
    \<open>saturating_sub\<close> and \<open>saturating_mul\<close> are the standard library's.
  \<^item> \<open>Result<T, E>\<close> as the sum \<open>'e + 'a\<close> with \<open>Inl\<close> for \<open>Err\<close>, and a function that takes
    \<open>&mut self\<close> and returns a \<open>Result\<close> as an action \<open>'s \<Rightarrow> ('e + 'a) \<times> 's\<close>. The state
    component is what the mutable reference holds when the call returns, also when it returns
    an error: nothing is rolled back unless the code does so.
  \<^item> The collections \<open>word_arith\<close> (readings of word operations as natural numbers) and
    \<open>act_simps\<close> (evaluation of actions) that carry the component proofs.
\<close>

named_theorems word_arith
named_theorems act_simps

section \<open>Machine integers\<close>

type_synonym u8 = "8 word"
type_synonym u16 = "16 word"
type_synonym u32 = "32 word"
type_synonym u64 = "64 word"
type_synonym u128 = "128 word"
type_synonym bytes = "u8 list"

definition checked_add :: "'a::len word \<Rightarrow> 'a word \<Rightarrow> 'a word option" where
  "checked_add a b = (if unat a + unat b < 2 ^ LENGTH('a) then Some (a + b) else None)"

definition saturating_add :: "'a::len word \<Rightarrow> 'a word \<Rightarrow> 'a word" where
  "saturating_add a b = (if unat a + unat b < 2 ^ LENGTH('a) then a + b else - 1)"

definition saturating_sub :: "'a::len word \<Rightarrow> 'a word \<Rightarrow> 'a word" where
  "saturating_sub a b = (if a < b then 0 else a - b)"

definition saturating_mul :: "'a::len word \<Rightarrow> 'a word \<Rightarrow> 'a word" where
  "saturating_mul a b = (if unat a * unat b < 2 ^ LENGTH('a) then a * b else - 1)"

lemma unat_max_word: "unat (- 1 :: 'a::len word) = 2 ^ LENGTH('a) - 1"
  by (simp add: unsigned_minus_1_eq_mask mask_eq_exp_minus_1)

lemma unat_add_exact [word_arith]:
  fixes a b :: "'a::len word"
  assumes "unat a + unat b < 2 ^ LENGTH('a)"
  shows "unat (a + b) = unat a + unat b"
  using assms by (simp add: unat_word_ariths)

lemma unat_mult_exact [word_arith]:
  fixes a b :: "'a::len word"
  assumes "unat a * unat b < 2 ^ LENGTH('a)"
  shows "unat (a * b) = unat a * unat b"
  using assms by (simp add: unat_word_ariths)

lemma unat_sub_exact [word_arith]:
  fixes a b :: "'a::len word"
  assumes "b \<le> a"
  shows "unat (a - b) = unat a - unat b"
  using assms by (simp add: unat_sub)

lemma checked_add_eq_Some:
  fixes a b c :: "'a::len word"
  shows "checked_add a b = Some c \<longleftrightarrow> unat a + unat b < 2 ^ LENGTH('a) \<and> c = a + b"
  by (auto simp: checked_add_def)

lemma checked_add_Some_unat:
  "checked_add a b = Some c \<Longrightarrow> unat c = unat a + unat b"
  by (auto simp: checked_add_eq_Some unat_add_exact)

lemma checked_add_eq_None:
  fixes a b :: "'a::len word"
  shows "checked_add a b = None \<longleftrightarrow> 2 ^ LENGTH('a) \<le> unat a + unat b"
  by (auto simp: checked_add_def)

lemma unat_saturating_add [word_arith]:
  fixes a b :: "'a::len word"
  shows "unat (saturating_add a b) = min (unat a + unat b) (2 ^ LENGTH('a) - 1)"
  by (auto simp: saturating_add_def unat_max_word unat_add_exact)

lemma unat_saturating_sub [word_arith]:
  "unat (saturating_sub a b) = unat a - unat b"
  by (auto simp: saturating_sub_def unat_sub_exact word_less_nat_alt word_le_nat_alt)

lemma unat_saturating_mul [word_arith]:
  fixes a b :: "'a::len word"
  shows "unat (saturating_mul a b) = min (unat a * unat b) (2 ^ LENGTH('a) - 1)"
  by (auto simp: saturating_mul_def unat_max_word unat_mult_exact)

lemma unat_div_word [word_arith]: "unat (a div b :: 'a::len word) = unat a div unat b"
  by (rule unat_div)

lemma word_eq_by_unat: "unat a = unat b \<Longrightarrow> a = (b :: 'a::len word)"
  by (rule word_unat_eq_iff [THEN iffD2])

lemma unat_less_bound: "unat (a :: 'a::len word) < 2 ^ LENGTH('a)"
  by (rule unsigned_less)

lemma unat_ucast_up:
  assumes "LENGTH('a) \<le> LENGTH('b)"
  shows "unat (ucast (x :: 'a::len word) :: 'b::len word) = unat x"
proof -
  have "unat x < 2 ^ LENGTH('b)"
    using unat_less_bound [of x] power_increasing [OF assms, of "2::nat"] by linarith
  then show ?thesis
    by (simp add: unsigned_ucast_eq take_bit_nat_eq_self)
qed

lemma word_not_pos [simp]: "\<not> 0 < (x :: 'a::len word) \<longleftrightarrow> x = 0"
  by (simp add: word_gt_0)

section \<open>Panics\<close>

datatype panic = DivisionByZero | AssertionFailed string | ExpectFailed string | IndexOutOfBounds | UnwrapFailed

definition div_or_panic :: "'a::len word \<Rightarrow> 'a word \<Rightarrow> panic + 'a word" where
  "div_or_panic a b = (if b = 0 then Inl DivisionByZero else Inr (a div b))"

section \<open>Results and actions\<close>

type_synonym ('e, 'a) result = "'e + 'a"
type_synonym ('s, 'e, 'a) action = "'s \<Rightarrow> ('e + 'a) \<times> 's"

fun bind_result :: "'e + 'a \<Rightarrow> ('a \<Rightarrow> 'e + 'b) \<Rightarrow> 'e + 'b" where
  "bind_result (Inl e) f = Inl e"
| "bind_result (Inr x) f = f x"

definition ok_or :: "'e \<Rightarrow> 'a option \<Rightarrow> 'e + 'a" where
  "ok_or e x = (case x of None \<Rightarrow> Inl e | Some y \<Rightarrow> Inr y)"

definition map_err :: "('e \<Rightarrow> 'f) \<Rightarrow> 'e + 'a \<Rightarrow> 'f + 'a" where
  "map_err f r = map_sum f id r"

definition act_return :: "'a \<Rightarrow> ('s, 'e, 'a) action" where
  "act_return x = (\<lambda>s. (Inr x, s))"

definition act_throw :: "'e \<Rightarrow> ('s, 'e, 'a) action" where
  "act_throw e = (\<lambda>s. (Inl e, s))"

definition act_bind :: "('s, 'e, 'a) action \<Rightarrow> ('a \<Rightarrow> ('s, 'e, 'b) action) \<Rightarrow> ('s, 'e, 'b) action" where
  "act_bind m f = (\<lambda>s. case m s of (Inl e, s') \<Rightarrow> (Inl e, s') | (Inr x, s') \<Rightarrow> f x s')"

definition act_map_err :: "('e \<Rightarrow> 'f) \<Rightarrow> ('s, 'e, 'a) action \<Rightarrow> ('s, 'f, 'a) action" where
  "act_map_err f m = (\<lambda>s. case m s of (r, s') \<Rightarrow> (map_err f r, s'))"

definition act_query :: "('s \<Rightarrow> 'e + 'a) \<Rightarrow> ('s, 'e, 'a) action" where
  "act_query q = (\<lambda>s. (q s, s))"

definition act_lift :: "'e + 'a \<Rightarrow> ('s, 'e, 'a) action" where
  "act_lift r = (\<lambda>s. (r, s))"

lemma ok_or_simps [simp]: "ok_or e None = Inl e" "ok_or e (Some x) = Inr x"
  by (simp_all add: ok_or_def)

lemma ok_or_eq_Inr [simp]: "ok_or e x = Inr y \<longleftrightarrow> x = Some y"
  by (cases x) simp_all

lemma map_err_simps [simp]: "map_err f (Inl e) = Inl (f e)" "map_err f (Inr x) = Inr x"
  by (simp_all add: map_err_def)

lemma map_err_eq_Inl: "map_err f r = Inl e \<longleftrightarrow> (\<exists>x. r = Inl x \<and> e = f x)"
  by (cases r) auto

lemma map_err_eq_Inr [simp]: "map_err f r = Inr x \<longleftrightarrow> r = Inr x"
  by (cases r) auto

lemma act_return_apply [simp, act_simps]: "act_return x s = (Inr x, s)"
  by (simp add: act_return_def)

lemma act_throw_apply [simp, act_simps]: "act_throw e s = (Inl e, s)"
  by (simp add: act_throw_def)

lemma act_lift_apply [simp, act_simps]: "act_lift r s = (r, s)"
  by (simp add: act_lift_def)

lemma act_query_apply [simp, act_simps]: "act_query q s = (q s, s)"
  by (simp add: act_query_def)

lemma act_bind_Inl [act_simps]: "m s = (Inl e, s') \<Longrightarrow> act_bind m f s = (Inl e, s')"
  by (simp add: act_bind_def)

lemma act_bind_Inr [act_simps]: "m s = (Inr x, s') \<Longrightarrow> act_bind m f s = f x s'"
  by (simp add: act_bind_def)

lemma act_map_err_Inl [act_simps]: "m s = (Inl e, s') \<Longrightarrow> act_map_err f m s = (Inl (f e), s')"
  by (simp add: act_map_err_def)

lemma act_map_err_Inr [act_simps]: "m s = (Inr x, s') \<Longrightarrow> act_map_err f m s = (Inr x, s')"
  by (simp add: act_map_err_def)

lemma act_bind_return [simp]: "act_bind (act_return x) f = f x"
  by (simp add: act_bind_def fun_eq_iff)

lemma act_bind_throw [simp]: "act_bind (act_throw e) f = act_throw e"
  by (simp add: act_bind_def fun_eq_iff)

lemma bind_result_eq_Inr:
  "bind_result r f = Inr y \<longleftrightarrow> (\<exists>x. r = Inr x \<and> f x = Inr y)"
  by (cases r) simp_all

lemma act_bind_eq_Inr:
  "act_bind m f s = (Inr y, s'') \<longleftrightarrow> (\<exists>x s'. m s = (Inr x, s') \<and> f x s' = (Inr y, s''))"
  by (auto simp: act_bind_def split: prod.splits sum.splits)

lemma act_bind_apply:
  "act_bind m f s = (case m s of (r, s') \<Rightarrow> case r of Inl e \<Rightarrow> (Inl e, s') | Inr x \<Rightarrow> f x s')"
  by (auto simp: act_bind_def split: prod.splits sum.splits)

lemma act_map_err_apply: "act_map_err f m s = (case m s of (r, s') \<Rightarrow> (map_err f r, s'))"
  by (simp add: act_map_err_def)

lemmas act_run = act_bind_apply act_map_err_apply

text \<open>The state an action leaves behind: the right-hand sides of the rules that run an action whose
  success a contract promises.\<close>

definition after :: "('s, 'e, 'a) action \<Rightarrow> 's \<Rightarrow> 's" where
  "after m s = snd (m s)"

lemma afterI: "m s = (r, s') \<Longrightarrow> after m s = s'"
  by (simp add: after_def)

text \<open>Running an action on a part of a larger state, as a method call on a field does.\<close>

definition act_on :: "('s \<Rightarrow> 't) \<Rightarrow> ('t \<Rightarrow> 's \<Rightarrow> 's) \<Rightarrow> ('t, 'e, 'a) action \<Rightarrow> ('s, 'e, 'a) action" where
  "act_on get put m = (\<lambda>s. case m (get s) of (r, t) \<Rightarrow> (r, put t s))"

definition act_modify :: "('s \<Rightarrow> 's) \<Rightarrow> ('s, 'e, unit) action" where
  "act_modify f = (\<lambda>s. (Inr (), f s))"

definition act_gets :: "('s \<Rightarrow> 'a) \<Rightarrow> ('s, 'e, 'a) action" where
  "act_gets f = (\<lambda>s. (Inr (f s), s))"

lemma act_on_apply: "act_on get put m s = (case m (get s) of (r, t) \<Rightarrow> (r, put t s))"
  by (simp add: act_on_def)

lemma act_modify_apply [simp, act_simps]: "act_modify f s = (Inr (), f s)"
  by (simp add: act_modify_def)

lemma act_gets_apply [simp, act_simps]: "act_gets f s = (Inr (f s), s)"
  by (simp add: act_gets_def)

section \<open>Decimal numerals\<close>

text \<open>What \<open>to_string\<close> and \<open>format!\<close> print for an unsigned and a signed integer.\<close>

fun nat_to_string :: "nat \<Rightarrow> string" where
  "nat_to_string n = (if n < 10 then [char_of (48 + n)] else nat_to_string (n div 10) @ [char_of (48 + n mod 10)])"

declare nat_to_string.simps [simp del]

definition int_to_string :: "int \<Rightarrow> string" where
  "int_to_string i = (if i < 0 then ''-'' @ nat_to_string (nat (- i)) else nat_to_string (nat i))"

definition word_to_string :: "'a::len word \<Rightarrow> string" where
  "word_to_string w = nat_to_string (unat w)"

section \<open>Sums over lists of natural numbers\<close>

lemma sum_list_upper: "(\<forall>x\<in>set xs. x \<le> k) \<Longrightarrow> sum_list xs \<le> length xs * (k::nat)"
  by (induction xs) auto

lemma sum_list_filter_le: "sum_list (map f (filter P xs)) \<le> (sum_list (map f xs) :: nat)"
  by (induction xs) auto

lemma sum_list_filter_split:
  "sum_list (map f (filter P xs)) + sum_list (map f (filter (\<lambda>x. \<not> P x) xs)) =
     (sum_list (map f xs) :: nat)"
  by (induction xs) auto

lemma sum_list_member_le: "x \<in> set xs \<Longrightarrow> f x \<le> (sum_list (map f xs) :: nat)"
  by (induction xs) auto

text \<open>Changing one summand of a sum over a finite type.\<close>

lemma sum_change_one:
  fixes f g :: "'a::finite \<Rightarrow> nat"
  assumes "\<And>a. a \<noteq> k \<Longrightarrow> f a = g a"
  shows "sum f UNIV + g k = sum g UNIV + f k"
proof -
  have "sum f (UNIV - {k}) = sum g (UNIV - {k})"
    by (rule sum.cong) (auto intro: assms)
  then show ?thesis
    by (simp add: sum.remove [of UNIV k])
qed

lemma member_le_sum_UNIV: "f k \<le> sum f UNIV" for f :: "'a::finite \<Rightarrow> nat"
  by (rule member_le_sum) simp_all

lemma unat_sum_list:
  fixes xs :: "'a::len word list"
  assumes "sum_list (map unat xs) < 2 ^ LENGTH('a)"
  shows "unat (sum_list xs) = sum_list (map unat xs)"
  using assms by (induction xs) (auto simp: unat_add_exact)

end
