(* ===== verification/Tokenomics.thy ===== *)
theory Tokenomics
  imports Prelude
begin

text \<open>
  Model of src/crates/pemrix-primitives/src/tokenomics.rs: the issuance schedule. The \<open>for\<close> loop
  of \<open>block_reward\<close> is a recursion on the number of decay steps; the \<open>while\<close> loop of
  \<open>total_issued_by_height\<close> may not end (a zero decay interval), so it is a
  \<^theory_text>\<open>partial_function\<close> whose value is \<open>None\<close> when it does not return. Division by zero panics.

  Shown here: the cumulative loop returns whenever the interval is positive and never returns when
  it is zero; it computes exactly the saturated sum of the block rewards; rewards stay between
  the floor and the initial reward and never grow; the default schedule passes the value that
  \<open>asymptotic_max_supply\<close> returns within eleven blocks.
\<close>

section \<open>Definitions\<close>

record TokenomicsConfig =
  tk_initial_supply :: u128
  tk_initial_block_reward :: u128
  tk_decay_interval :: u64
  tk_decay_numerator :: u64
  tk_decay_denominator :: u64
  tk_min_block_reward :: u128

definition default_tokenomics :: TokenomicsConfig where
  "default_tokenomics =
     \<lparr>tk_initial_supply = 1000000000000000000, tk_initial_block_reward = 10000000000,
      tk_decay_interval = 2000000, tk_decay_numerator = 9, tk_decay_denominator = 10,
      tk_min_block_reward = 100000000\<rparr>"

definition mainnet :: TokenomicsConfig where
  "mainnet = default_tokenomics"

definition fast_test :: TokenomicsConfig where
  "fast_test =
     \<lparr>tk_initial_supply = 1000000000, tk_initial_block_reward = 1000,
      tk_decay_interval = 10, tk_decay_numerator = 9, tk_decay_denominator = 10,
      tk_min_block_reward = 1\<rparr>"

definition decayed :: "TokenomicsConfig \<Rightarrow> u128 \<Rightarrow> panic + u128" where
  "decayed c r = div_or_panic (saturating_mul r (ucast (tk_decay_numerator c))) (ucast (tk_decay_denominator c))"

fun reward_loop :: "nat \<Rightarrow> TokenomicsConfig \<Rightarrow> u128 \<Rightarrow> panic + u128" where
  "reward_loop 0 c r = Inr r"
| "reward_loop (Suc n) c r =
     bind_result (decayed c r)
       (\<lambda>r'. if r' \<le> tk_min_block_reward c then Inr (tk_min_block_reward c) else reward_loop n c r')"

definition block_reward :: "TokenomicsConfig \<Rightarrow> u64 \<Rightarrow> panic + u128" where
  "block_reward c h =
     (if h = 0 then Inr 0
      else bind_result (div_or_panic (h - 1) (tk_decay_interval c))
             (\<lambda>steps. reward_loop (unat steps) c (tk_initial_block_reward c)))"

partial_function (option) issued_loop ::
    "TokenomicsConfig \<Rightarrow> u128 \<Rightarrow> u128 \<Rightarrow> u64 \<Rightarrow> u64 \<Rightarrow> (panic + u128) option" where
  "issued_loop c so_far current_reward remaining step_height =
     (if remaining > 0 then
        let step_end = step_height + tk_decay_interval c;
            blocks_in_step = min remaining (tk_decay_interval c);
            total' = saturating_add so_far (saturating_mul current_reward (ucast blocks_in_step));
            remaining' = saturating_sub remaining blocks_in_step
        in if current_reward > tk_min_block_reward c then
             (case decayed c current_reward of
                Inl p \<Rightarrow> Some (Inl p)
              | Inr r \<Rightarrow> issued_loop c total'
                  (if r < tk_min_block_reward c then tk_min_block_reward c else r) remaining' step_end)
           else issued_loop c total' current_reward remaining' step_end
      else Some (Inr so_far))"

definition total_issued_by_height :: "TokenomicsConfig \<Rightarrow> u64 \<Rightarrow> (panic + u128) option" where
  "total_issued_by_height c h =
     (if h = 0 then Some (Inr 0) else issued_loop c 0 (tk_initial_block_reward c) h 0)"

definition asymptotic_max_supply :: "TokenomicsConfig \<Rightarrow> u128" where
  "asymptotic_max_supply c =
     (if tk_decay_numerator c \<ge> tk_decay_denominator c then - 1
      else let denom_diff = (ucast (tk_decay_denominator c - tk_decay_numerator c) :: u128);
               infinite_issuance =
                 saturating_mul (tk_initial_block_reward c) (ucast (tk_decay_denominator c)) div denom_diff
           in saturating_add (tk_initial_supply c) infinite_issuance)"

section \<open>The sequence of step rewards\<close>

text \<open>
  The reward of the k-th interval as a sequence: decay, clamped at the floor, constant once the
  floor is reached. Both loops compute it.
\<close>

definition next_reward :: "TokenomicsConfig \<Rightarrow> u128 \<Rightarrow> u128" where
  "next_reward c r =
     (if r > tk_min_block_reward c
      then max (tk_min_block_reward c)
             (saturating_mul r (ucast (tk_decay_numerator c)) div ucast (tk_decay_denominator c))
      else r)"

definition step_reward :: "TokenomicsConfig \<Rightarrow> nat \<Rightarrow> u128" where
  "step_reward c k = (next_reward c ^^ k) (tk_initial_block_reward c)"

text \<open>The schedules the theorems are about: positive interval and denominator, reward above the floor.\<close>

definition valid_schedule :: "TokenomicsConfig \<Rightarrow> bool" where
  "valid_schedule c \<longleftrightarrow> tk_decay_interval c \<noteq> 0 \<and> tk_decay_denominator c \<noteq> 0 \<and>
     tk_min_block_reward c < tk_initial_block_reward c"

lemma ucast_u64_u128_eq_0 [simp]: "(ucast (x :: u64) :: u128) = 0 \<longleftrightarrow> x = 0"
proof
  assume "(ucast x :: u128) = 0"
  then have "unat (ucast x :: u128) = 0" by simp
  then show "x = 0" by (simp add: unat_ucast_up unat_eq_zero)
qed simp

lemma unat_ucast_u64_u128 [simp]: "unat (ucast (x :: u64) :: u128) = unat x"
  by (simp add: unat_ucast_up)

lemma decayed_valid:
  "tk_decay_denominator c \<noteq> 0 \<Longrightarrow>
   decayed c r = Inr (saturating_mul r (ucast (tk_decay_numerator c)) div ucast (tk_decay_denominator c))"
  by (simp add: decayed_def div_or_panic_def)

lemma next_reward_floor [simp]: "next_reward c (tk_min_block_reward c) = tk_min_block_reward c"
  by (simp add: next_reward_def)

lemma funpow_next_reward_floor [simp]:
  "(next_reward c ^^ k) (tk_min_block_reward c) = tk_min_block_reward c"
  by (induction k) simp_all

lemma step_reward_Suc: "step_reward c (Suc k) = next_reward c (step_reward c k)"
  by (simp add: step_reward_def)

lemma reward_loop_step:
  assumes "tk_decay_denominator c \<noteq> 0" "tk_min_block_reward c < r"
  shows "reward_loop n c r = Inr ((next_reward c ^^ n) r)"
  using assms(2)
proof (induction n arbitrary: r)
  case 0
  then show ?case by simp
next
  case (Suc n)
  let ?r' = "saturating_mul r (ucast (tk_decay_numerator c)) div ucast (tk_decay_denominator c)"
  have next_r: "next_reward c r = max (tk_min_block_reward c) ?r'"
    using Suc.prems by (simp add: next_reward_def)
  show ?case
  proof (cases "?r' \<le> tk_min_block_reward c")
    case True
    then have "next_reward c r = tk_min_block_reward c" by (simp add: next_r max_absorb1)
    with True show ?thesis
      by (simp add: decayed_valid assms(1) funpow_Suc_right del: funpow.simps)
  next
    case False
    then have "next_reward c r = ?r'" by (simp add: next_r max_absorb2)
    with False Suc.IH [of ?r'] show ?thesis
      by (simp add: decayed_valid assms(1) funpow_Suc_right del: funpow.simps)
  qed
qed

lemma block_reward_step:
  assumes "valid_schedule c" "h \<noteq> 0"
  shows "block_reward c h = Inr (step_reward c ((unat h - 1) div unat (tk_decay_interval c)))"
proof -
  have "1 \<le> h" using assms(2) by (simp add: word_le_nat_alt unat_gt_0 Suc_leI)
  then have "unat ((h - 1) div tk_decay_interval c) = (unat h - 1) div unat (tk_decay_interval c)"
    by (simp add: unat_div unat_sub_exact)
  then show ?thesis
    using assms by (simp add: block_reward_def div_or_panic_def valid_schedule_def reward_loop_step step_reward_def)
qed

section \<open>The cumulative loop\<close>

lemma sum_interval_split:
  fixes s :: "nat \<Rightarrow> nat"
  assumes "0 < I"
  shows "(\<Sum>j<n. s (k + j div I)) = min n I * s k + (\<Sum>j<n - min n I. s (Suc k + j div I))"
proof (cases "n \<le> I")
  case True
  then have "(\<Sum>j<n. s (k + j div I)) = (\<Sum>j<n. s k)"
    by (intro sum.cong) simp_all
  with True show ?thesis by simp
next
  case False
  have "(\<Sum>j<n. s (k + j div I)) = (\<Sum>j<I. s (k + j div I)) + (\<Sum>j<n - I. s (k + (j + I) div I))"
    using sum.atLeastLessThan_concat [of 0 I n "\<lambda>j. s (k + j div I)", symmetric] False
      sum.shift_bounds_nat_ivl [of "\<lambda>j. s (k + j div I)" 0 I "n - I"]
    by (simp add: lessThan_atLeast0)
  also have "(\<Sum>j<I. s (k + j div I)) = I * s k"
    by simp
  also have "(\<Sum>j<n - I. s (k + (j + I) div I)) = (\<Sum>j<n - I. s (Suc k + j div I))"
    using assms by (intro sum.cong) (simp_all add: div_add_self2)
  finally show ?thesis using False by (simp add: min_def)
qed

lemma issued_loop_sum:
  assumes "tk_decay_interval c \<noteq> 0" "tk_decay_denominator c \<noteq> 0"
  shows "\<exists>t. issued_loop c acc (step_reward c k) remaining sh = Some (Inr t) \<and>
     unat t = min (unat acc + (\<Sum>j<unat remaining. unat (step_reward c (k + j div unat (tk_decay_interval c)))))
                (2 ^ 128 - 1)"
proof (induction "unat remaining" arbitrary: acc k remaining sh rule: less_induct)
  case less
  let ?I = "tk_decay_interval c"
  have I: "0 < unat ?I" and den: "tk_decay_denominator c \<noteq> 0"
    using assms by (auto simp: unat_gt_0)
  show ?case
  proof (cases "remaining > 0")
    case False
    then have "remaining = 0" by simp
    moreover have "unat acc \<le> 2 ^ 128 - 1" using unat_less_bound [of acc] by simp
    ultimately show ?thesis by (simp add: issued_loop.simps)
  next
    case True
    define blocks where "blocks = min remaining ?I"
    define rest where "rest = saturating_sub remaining blocks"
    define acc' where "acc' = saturating_add acc (saturating_mul (step_reward c k) (ucast blocks))"
    have blocks: "unat blocks = min (unat remaining) (unat ?I)"
      by (simp add: blocks_def min_def word_le_nat_alt)
    then have rest: "unat rest = unat remaining - min (unat remaining) (unat ?I)"
      by (simp add: rest_def unat_saturating_sub)
    have rem: "0 < unat remaining"
      using True by (simp add: unat_gt_0 word_gt_0)
    have smaller: "unat rest < unat remaining"
      using rem I rest by simp
    have unfolded: "issued_loop c acc (step_reward c k) remaining sh =
        issued_loop c acc' (step_reward c (Suc k)) rest (sh + ?I)"
      using True den
      by (subst issued_loop.simps)
        (auto simp: Let_def blocks_def [symmetric] rest_def [symmetric] acc'_def [symmetric]
          decayed_valid step_reward_Suc next_reward_def max_def)
    have acc': "unat acc' = min (unat acc + unat (step_reward c k) * min (unat remaining) (unat ?I)) (2 ^ 128 - 1)"
      by (simp add: acc'_def unat_saturating_add unat_saturating_mul blocks)
    from less.hyps [OF smaller, of acc' "Suc k" "sh + ?I"] obtain t where
      t: "issued_loop c acc' (step_reward c (Suc k)) rest (sh + ?I) = Some (Inr t)"
      "unat t = min (unat acc' + (\<Sum>j<unat rest. unat (step_reward c (Suc k + j div unat ?I)))) (2 ^ 128 - 1)"
      by blast
    have "unat t = min (unat acc + (\<Sum>j<unat remaining. unat (step_reward c (k + j div unat ?I)))) (2 ^ 128 - 1)"
      using sum_interval_split [OF I, of "\<lambda>k. unat (step_reward c k)" k "unat remaining"]
      by (simp add: t(2) acc' rest mult.commute) arith
    with t(1) unfolded show ?thesis by simp
  qed
qed

text \<open>
  C19. Equivalence of the cumulative loop with the per-block schedule: for a valid schedule
  \<open>total_issued_by_height h\<close> returns, without a panic, the sum of \<open>block_reward i\<close> for
  \<open>i = 1, ..., h\<close>, saturated at \<open>u128::MAX\<close>.
\<close>

theorem total_issued_is_sum_of_rewards:
  assumes "valid_schedule c"
  shows "\<exists>t. total_issued_by_height c h = Some (Inr t) \<and>
     unat t = min (\<Sum>i\<in>{1..unat h}. unat (projr (block_reward c (word_of_nat i)))) (2 ^ 128 - 1)"
proof (cases "h = 0")
  case True
  then show ?thesis by (simp add: total_issued_by_height_def)
next
  case False
  have reward: "unat (projr (block_reward c (word_of_nat (Suc j)))) =
      unat (step_reward c (j div unat (tk_decay_interval c)))" if "j < unat h" for j
  proof -
    have "Suc j < 2 ^ 64"
      using that unat_less_bound [of h] by simp
    then have u: "unat (word_of_nat (Suc j) :: u64) = Suc j"
      by (simp add: unat_of_nat del: of_nat_Suc)
    then have "(word_of_nat (Suc j) :: u64) \<noteq> 0"
      by (metis nat.distinct(1) unat_0)
    from block_reward_step [OF assms this] u show ?thesis
      by (simp del: of_nat_Suc)
  qed
  have "(\<Sum>i\<in>{1..unat h}. unat (projr (block_reward c (word_of_nat i)))) =
      (\<Sum>j<unat h. unat (projr (block_reward c (word_of_nat (Suc j)))))"
    by (simp only: One_nat_def sum.atLeast_Suc_atMost_Suc_shift [symmetric] sum.atLeast1_atMost_eq)
  also have "\<dots> = (\<Sum>j<unat h. unat (step_reward c (j div unat (tk_decay_interval c))))"
    by (rule sum.cong) (simp_all add: reward del: of_nat_Suc)
  finally show ?thesis
    using issued_loop_sum [of c 0 0 h 0] assms False
    by (simp add: total_issued_by_height_def step_reward_def valid_schedule_def)
qed

theorem total_issued_is_sum_of_rewards_witness:
  "valid_schedule fast_test \<and>
   (\<exists>t. total_issued_by_height fast_test 25 = Some (Inr t) \<and>
     unat t = min (\<Sum>i\<in>{1..unat (25 :: u64)}. unat (projr (block_reward fast_test (word_of_nat i)))) (2 ^ 128 - 1))"
proof -
  have v: "valid_schedule fast_test"
    by (simp add: valid_schedule_def fast_test_def)
  show ?thesis
    using v total_issued_is_sum_of_rewards [OF v, of 25] by blast
qed

lemma issued_loop_returns_interval:
  assumes "issued_loop c acc r remaining sh = Some t"
  shows "tk_decay_denominator c \<noteq> 0 \<longrightarrow> tk_decay_interval c = 0 \<longrightarrow> remaining = 0"
proof (rule issued_loop.raw_induct [where P = "\<lambda>c acc r remaining sh t.
    tk_decay_denominator c \<noteq> 0 \<longrightarrow> tk_decay_interval c = 0 \<longrightarrow> remaining = 0", OF _ assms])
  fix loop and c :: TokenomicsConfig and acc r :: u128 and remaining sh :: u64 and t
  assume IH: "\<And>c acc r remaining sh t. loop c acc r remaining sh = Some t \<Longrightarrow>
      tk_decay_denominator c \<noteq> 0 \<longrightarrow> tk_decay_interval c = 0 \<longrightarrow> remaining = 0"
    and eq: "(if remaining > 0 then
        let step_end = sh + tk_decay_interval c;
            blocks_in_step = min remaining (tk_decay_interval c);
            total' = saturating_add acc (saturating_mul r (ucast blocks_in_step));
            remaining' = saturating_sub remaining blocks_in_step
        in if r > tk_min_block_reward c then
             (case decayed c r of
                Inl p \<Rightarrow> Some (Inl p)
              | Inr r' \<Rightarrow> loop c total'
                  (if r' < tk_min_block_reward c then tk_min_block_reward c else r') remaining' step_end)
           else loop c total' r remaining' step_end
      else Some (Inr acc)) = Some t"
  show "tk_decay_denominator c \<noteq> 0 \<longrightarrow> tk_decay_interval c = 0 \<longrightarrow> remaining = 0"
  proof (intro impI, rule ccontr)
    assume den: "tk_decay_denominator c \<noteq> 0" and I: "tk_decay_interval c = 0" and rem: "remaining \<noteq> 0"
    have zero: "min remaining 0 = 0" "saturating_sub remaining 0 = remaining"
      by (simp_all add: min_def saturating_sub_def)
    obtain a r' s where "loop c a r' remaining s = Some t"
      using eq rem I den by (auto simp: Let_def zero decayed_valid word_gt_0 split: if_splits)
    from IH [OF this] den I rem show False by blast
  qed
qed

text \<open>
  C20. Termination of the cumulative loop: for every schedule with a non-zero denominator, a flat one included, and every height above 0,
  \<open>total_issued_by_height\<close> returns exactly when the decay interval is not zero, and then without a panic; at height 0 it returns
  before the loop.
\<close>

theorem total_issued_returns_iff:
  assumes "tk_decay_denominator c \<noteq> 0" "h \<noteq> 0"
  shows "((\<exists>r. total_issued_by_height c h = Some r) \<longleftrightarrow> tk_decay_interval c \<noteq> 0)
       \<and> ((\<exists>t. total_issued_by_height c h = Some (Inr t)) \<longleftrightarrow> tk_decay_interval c \<noteq> 0)
       \<and> total_issued_by_height c 0 = Some (Inr 0)"
proof -
  have needs: "tk_decay_interval c \<noteq> 0" if "total_issued_by_height c h = Some r" for r
    using that issued_loop_returns_interval assms by (fastforce simp: total_issued_by_height_def)
  have returns: "\<exists>t. total_issued_by_height c h = Some (Inr t)" if "tk_decay_interval c \<noteq> 0"
    using issued_loop_sum [OF that assms(1), of 0 0 h 0] assms(2) by (auto simp: total_issued_by_height_def step_reward_def)
  have "total_issued_by_height c 0 = Some (Inr 0)" by (simp add: total_issued_by_height_def)
  then show ?thesis using needs returns by blast
qed

theorem total_issued_returns_iff_witness:
  "\<not> (\<exists>r. total_issued_by_height (mainnet\<lparr>tk_decay_interval := 0\<rparr>) 1 = Some r) \<and>
   (\<exists>t. total_issued_by_height mainnet 1 = Some (Inr t)) \<and>
   (\<exists>t. total_issued_by_height (mainnet\<lparr>tk_min_block_reward := tk_initial_block_reward mainnet\<rparr>) 500 = Some (Inr t))"
  using total_issued_returns_iff [of "mainnet\<lparr>tk_decay_interval := 0\<rparr>" 1]
    total_issued_returns_iff [of mainnet 1]
    total_issued_returns_iff [of "mainnet\<lparr>tk_min_block_reward := tk_initial_block_reward mainnet\<rparr>" 500]
  by (simp add: mainnet_def default_tokenomics_def)

section \<open>Rewards never grow\<close>

lemma next_reward_bounds:
  assumes "tk_decay_numerator c \<le> tk_decay_denominator c" "tk_decay_denominator c \<noteq> 0"
    "tk_min_block_reward c \<le> r"
  shows "tk_min_block_reward c \<le> next_reward c r \<and> next_reward c r \<le> r"
proof (cases "r > tk_min_block_reward c")
  case False
  then show ?thesis using assms(3) by (simp add: next_reward_def)
next
  case True
  let ?num = "unat (tk_decay_numerator c)" and ?den = "unat (tk_decay_denominator c)"
  have "0 < ?den" "?num \<le> ?den"
    using assms(1,2) by (simp_all add: unat_gt_0 word_le_nat_alt)
  then have "unat r * ?num div ?den \<le> unat r"
    by (metis div_mult_self_is_m div_le_mono mult_le_mono2)
  moreover have "min (unat r * ?num) (2 ^ 128 - 1) div ?den \<le> unat r * ?num div ?den"
    by (rule div_le_mono) simp
  ultimately have "saturating_mul r (ucast (tk_decay_numerator c)) div ucast (tk_decay_denominator c) \<le> r"
    by (simp add: word_le_nat_alt unat_div unat_saturating_mul)
  with True show ?thesis by (simp add: next_reward_def)
qed

lemma step_reward_antimono:
  assumes "tk_decay_numerator c \<le> tk_decay_denominator c" "valid_schedule c"
  shows "tk_min_block_reward c \<le> step_reward c k \<and> step_reward c (k + j) \<le> step_reward c k"
proof -
  have den: "tk_decay_denominator c \<noteq> 0" using assms(2) by (simp add: valid_schedule_def)
  have floor: "tk_min_block_reward c \<le> step_reward c k" for k
  proof (induction k)
    case 0
    then show ?case using assms(2) by (simp add: step_reward_def valid_schedule_def less_imp_le)
  next
    case (Suc k)
    then show ?case using next_reward_bounds [OF assms(1) den] by (simp add: step_reward_Suc)
  qed
  have "step_reward c (k + j) \<le> step_reward c k"
  proof (induction j)
    case (Suc j)
    have "step_reward c (k + Suc j) \<le> step_reward c (k + j)"
      using next_reward_bounds [OF assms(1) den floor] by (simp add: step_reward_Suc)
    with Suc show ?case by (meson order_trans)
  qed simp
  with floor show ?thesis by simp
qed

text \<open>
  C21. Bounds of the schedule: for a decaying valid schedule every block after genesis has a reward
  between the floor and the initial reward, the genesis block has none, and the reward never
  grows with the height.
\<close>

theorem block_reward_bounds:
  assumes "valid_schedule c" "tk_decay_numerator c \<le> tk_decay_denominator c" "0 < h" "h \<le> h'"
  shows "block_reward c 0 = Inr 0 \<and>
     (\<exists>r r'. block_reward c h = Inr r \<and> block_reward c h' = Inr r' \<and>
        tk_min_block_reward c \<le> r' \<and> r' \<le> r \<and> r \<le> tk_initial_block_reward c)"
proof -
  let ?k = "(unat h - 1) div unat (tk_decay_interval c)" and ?k' = "(unat h' - 1) div unat (tk_decay_interval c)"
  have nz: "h \<noteq> 0" "h' \<noteq> 0" using assms(3,4) by auto
  have "?k \<le> ?k'" using assms(4) by (intro div_le_mono) (simp add: word_le_nat_alt diff_le_mono)
  then obtain j where j: "?k' = ?k + j" using le_Suc_ex by blast
  have "step_reward c ?k \<le> tk_initial_block_reward c"
    using step_reward_antimono [OF assms(2,1), of 0 ?k] by (simp add: step_reward_def)
  then show ?thesis
    using step_reward_antimono [OF assms(2,1), of ?k j] step_reward_antimono [OF assms(2,1), of ?k' 0]
      block_reward_step [OF assms(1) nz(1)] block_reward_step [OF assms(1) nz(2)] j
    by (auto simp: block_reward_def)
qed

theorem block_reward_bounds_witness:
  "block_reward fast_test 11 = Inr 900 \<and>
   (\<exists>r r'. block_reward fast_test 1 = Inr r \<and> block_reward fast_test 11 = Inr r' \<and> r' \<le> r)"
proof -
  have v: "valid_schedule fast_test" "tk_decay_numerator fast_test \<le> tk_decay_denominator fast_test"
    by (simp_all add: valid_schedule_def fast_test_def)
  have "block_reward fast_test 11 = Inr 900"
    by (simp add: block_reward_def div_or_panic_def fast_test_def decayed_def saturating_mul_def word_le_nat_alt)
  then show ?thesis
    using block_reward_bounds [OF v, of 1 11] by auto
qed

text \<open>
  The value \<open>asymptotic_max_supply\<close> returns for the default schedule is not an upper bound of
  the supply: its geometric series counts one block per decay step and leaves out the factor
  \<open>decay_interval\<close>, so after eleven blocks initial supply plus issuance exceeds it.
\<close>

theorem asymptotic_max_supply_exceeded:
  "\<exists>t. total_issued_by_height mainnet 11 = Some (Inr t) \<and>
       unat (asymptotic_max_supply mainnet) < unat (tk_initial_supply mainnet) + unat t"
  by (simp add: total_issued_by_height_def issued_loop.simps mainnet_def default_tokenomics_def
      decayed_def div_or_panic_def saturating_mul_def saturating_add_def saturating_sub_def
      asymptotic_max_supply_def Let_def min_def)

end
