(* ===== verification/Containers.thy ===== *)
theory Containers
  imports Prelude
begin

text \<open>
  The two container types of the Rust standard library that the program's state is made of.

  \<^item> \<open>[u8; 32]\<close>, the array under \<open>Hash\<close>, \<open>Address\<close> and \<open>PeerId\<close>: byte lists of length 32 as a
    type of their own, ordered lexicographically as Rust orders arrays.
  \<^item> \<open>BTreeMap<K, V>\<close>: strictly sorted association lists as a type of their own, so that two maps
    with the same lookups are equal and iteration visits the keys in ascending order. A
    \<open>HashMap\<close> whose iteration order the program does not observe is modelled by the same type;
    where the order is observable the order is a parameter of the definition that iterates.
\<close>

section \<open>Arrays of 32 bytes\<close>

typedef bytes32 = "{xs :: u8 list. length xs = 32}"
  morphisms bytes_of Abs_bytes32
  by (rule exI [of _ "replicate 32 0"]) simp

definition array32 :: "bytes \<Rightarrow> bytes32" where
  "array32 xs = Abs_bytes32 (take 32 (xs @ replicate 32 0))"

lemma bytes32_abstype [code abstype]: "Abs_bytes32 (bytes_of a) = a"
  by (rule bytes_of_inverse)

lemma bytes_of_array32_pad [code abstract]: "bytes_of (array32 xs) = take 32 (xs @ replicate 32 0)"
  by (simp add: array32_def Abs_bytes32_inverse)

lemma length_bytes_of [simp]: "length (bytes_of a) = 32"
  using bytes_of [of a] by simp

lemma bytes_of_array32: "length xs = 32 \<Longrightarrow> bytes_of (array32 xs) = xs"
  by (simp add: bytes_of_array32_pad)

lemma array32_bytes_of [simp]: "array32 (bytes_of a) = a"
  by (rule bytes_of_inject [THEN iffD1]) (simp add: bytes_of_array32)

lemma bytes32_eq_iff: "a = b \<longleftrightarrow> bytes_of a = bytes_of b"
  by (simp add: bytes_of_inject)

lemma array32_inject: "length xs = 32 \<Longrightarrow> length ys = 32 \<Longrightarrow> array32 xs = array32 ys \<longleftrightarrow> xs = ys"
  by (simp add: bytes32_eq_iff bytes_of_array32)

definition zero32 :: bytes32 where
  "zero32 = array32 []"

instantiation bytes32 :: linorder
begin

definition less_eq_bytes32 :: "bytes32 \<Rightarrow> bytes32 \<Rightarrow> bool" where
  "less_eq_bytes32 a b \<longleftrightarrow> bytes_of a \<le> bytes_of b"

definition less_bytes32 :: "bytes32 \<Rightarrow> bytes32 \<Rightarrow> bool" where
  "less_bytes32 a b \<longleftrightarrow> bytes_of a < bytes_of b"

instance
  by standard (auto simp: less_eq_bytes32_def less_bytes32_def bytes32_eq_iff)

end

instantiation bytes32 :: equal
begin

definition equal_bytes32 :: "bytes32 \<Rightarrow> bytes32 \<Rightarrow> bool" where
  "equal_bytes32 a b \<longleftrightarrow> bytes_of a = bytes_of b"

instance
  by standard (simp add: equal_bytes32_def bytes32_eq_iff)

end

instantiation bytes32 :: finite
begin

instance
proof
  have "finite {xs :: u8 list. set xs \<subseteq> UNIV \<and> length xs = 32}"
    by (rule finite_lists_length_eq) simp
  then have "finite (bytes_of ` (UNIV :: bytes32 set))"
    by (rule finite_subset [rotated]) auto
  then show "finite (UNIV :: bytes32 set)"
    by (rule finite_imageD) (simp add: inj_on_def bytes_of_inject)
qed

end

section \<open>Sorted maps\<close>

fun al_insert :: "'k::linorder \<Rightarrow> 'v \<Rightarrow> ('k \<times> 'v) list \<Rightarrow> ('k \<times> 'v) list" where
  "al_insert k v [] = [(k, v)]"
| "al_insert k v ((k', v') # m) =
     (if k < k' then (k, v) # (k', v') # m
      else if k = k' then (k, v) # m
      else (k', v') # al_insert k v m)"

definition al_remove :: "'k \<Rightarrow> ('k \<times> 'v) list \<Rightarrow> ('k \<times> 'v) list" where
  "al_remove k m = filter (\<lambda>(k', _). k' \<noteq> k) m"

abbreviation al_sorted :: "('k::linorder \<times> 'v) list \<Rightarrow> bool" where
  "al_sorted m \<equiv> sorted_wrt (<) (map fst m)"

lemma set_al_insert_keys: "fst ` set (al_insert k v m) = insert k (fst ` set m)"
  by (induction k v m rule: al_insert.induct) (simp_all add: insert_commute)

lemma al_sorted_insert: "al_sorted m \<Longrightarrow> al_sorted (al_insert k v m)"
proof (induction m)
  case Nil
  then show ?case by simp
next
  case (Cons p m)
  have keys: "set (map fst (al_insert k v m)) = insert k (set (map fst m))"
    using set_al_insert_keys [of k v m] by simp
  show ?case
    using Cons by (cases p) (auto simp: keys simp del: set_map)
qed

lemma al_sorted_filter: "al_sorted m \<Longrightarrow> al_sorted (filter P m)"
  by (induction m) auto

lemma al_sorted_remove: "al_sorted m \<Longrightarrow> al_sorted (al_remove k m)"
  by (simp add: al_remove_def al_sorted_filter)

lemma map_of_al_insert: "map_of (al_insert k v m) = (map_of m)(k \<mapsto> v)"
  by (induction m) auto

lemma map_of_al_remove: "map_of (al_remove k m) = (map_of m)(k := None)"
  by (induction m) (auto simp: al_remove_def)

lemma al_sorted_distinct: "al_sorted m \<Longrightarrow> distinct (map fst m)"
  by (rule strict_sorted_iff [THEN iffD1, THEN conjunct2])

lemma al_entries_by_keys:
  assumes "distinct (map fst m)"
  shows "m = map (\<lambda>k. (k, the (map_of m k))) (map fst m)"
proof -
  have "(fst p, the (map_of m (fst p))) = p" if "p \<in> set m" for p
    using that assms by (simp add: prod_eq_iff map_of_is_SomeI [of m "fst p" "snd p"])
  then have "map (\<lambda>p. (fst p, the (map_of m (fst p)))) m = map id m"
    by (intro map_cong) simp_all
  then show ?thesis by (simp add: comp_def)
qed

lemma al_sorted_unique:
  assumes "al_sorted m" "al_sorted n" "map_of m = map_of n"
  shows "m = n"
proof -
  have "set (map fst m) = set (map fst n)"
    using assms(3) dom_map_of_conv_image_fst [of m] dom_map_of_conv_image_fst [of n] by simp
  then have "map fst m = map fst n"
    using strict_sorted_equal [OF assms(2,1)] by simp
  then show ?thesis
    using al_entries_by_keys [OF al_sorted_distinct [OF assms(1)]]
      al_entries_by_keys [OF al_sorted_distinct [OF assms(2)]] assms(3) by metis
qed

typedef (overloaded) ('k::linorder, 'v) omap = "{m :: ('k \<times> 'v) list. al_sorted m}"
  morphisms om_entries Abs_omap
  by (rule exI [of _ "[]"]) simp

setup_lifting type_definition_omap

lift_definition om_empty :: "('k::linorder, 'v) omap" is "[]"
  by simp

lift_definition om_insert :: "'k::linorder \<Rightarrow> 'v \<Rightarrow> ('k, 'v) omap \<Rightarrow> ('k, 'v) omap" is al_insert
  by (rule al_sorted_insert)

lift_definition om_remove :: "'k::linorder \<Rightarrow> ('k, 'v) omap \<Rightarrow> ('k, 'v) omap" is al_remove
  by (rule al_sorted_remove)

definition om_get :: "('k::linorder, 'v) omap \<Rightarrow> 'k \<Rightarrow> 'v option" where
  "om_get m = map_of (om_entries m)"

definition om_keys :: "('k::linorder, 'v) omap \<Rightarrow> 'k list" where
  "om_keys m = map fst (om_entries m)"

definition om_values :: "('k::linorder, 'v) omap \<Rightarrow> 'v list" where
  "om_values m = map snd (om_entries m)"

definition om_len :: "('k::linorder, 'v) omap \<Rightarrow> nat" where
  "om_len m = length (om_entries m)"

definition om_is_empty :: "('k::linorder, 'v) omap \<Rightarrow> bool" where
  "om_is_empty m = (om_entries m = [])"

definition om_contains :: "('k::linorder, 'v) omap \<Rightarrow> 'k \<Rightarrow> bool" where
  "om_contains m k = (om_get m k \<noteq> None)"

lift_definition om_retain :: "('k::linorder \<Rightarrow> 'v \<Rightarrow> bool) \<Rightarrow> ('k, 'v) omap \<Rightarrow> ('k, 'v) omap"
  is "\<lambda>P. filter (\<lambda>(k, v). P k v)"
  by (rule al_sorted_filter)

lift_definition om_map_values :: "('v \<Rightarrow> 'w) \<Rightarrow> ('k::linorder, 'v) omap \<Rightarrow> ('k, 'w) omap"
  is "\<lambda>f. map (\<lambda>(k, v). (k, f v))"
  by (simp add: comp_def case_prod_unfold)

lemma om_entries_sorted: "al_sorted (om_entries m)"
  using om_entries [of m] by simp

lemma om_keys_sorted: "sorted_wrt (<) (om_keys m)"
  by (simp add: om_keys_def om_entries_sorted)

lemma om_keys_distinct: "distinct (om_keys m)"
  by (simp add: om_keys_def al_sorted_distinct om_entries_sorted)

lemma om_get_empty [simp]: "om_get om_empty = Map.empty"
  by (simp add: om_get_def om_empty.rep_eq)

lemma om_get_insert [simp]: "om_get (om_insert k v m) = (om_get m)(k \<mapsto> v)"
  by (simp add: om_get_def om_insert.rep_eq map_of_al_insert)

lemma om_get_remove [simp]: "om_get (om_remove k m) = (om_get m)(k := None)"
  by (simp add: om_get_def om_remove.rep_eq map_of_al_remove)

lemma om_get_Some_iff: "om_get m k = Some v \<longleftrightarrow> (k, v) \<in> set (om_entries m)"
  by (simp add: om_get_def om_keys_distinct [unfolded om_keys_def])

lemma om_get_retain:
  "om_get (om_retain P m) k = (case om_get m k of None \<Rightarrow> None | Some v \<Rightarrow> if P k v then Some v else None)"
proof (cases "om_get (om_retain P m) k")
  case None
  then have "(k, v) \<notin> set (om_entries (om_retain P m))" for v
    by (metis om_get_Some_iff option.distinct(1))
  with None show ?thesis
    by (auto simp: om_get_Some_iff om_retain.rep_eq split: option.splits)
next
  case (Some v)
  then have "om_get m k = Some v" "P k v"
    by (auto simp: om_get_Some_iff om_retain.rep_eq)
  with Some show ?thesis by simp
qed

lemma om_get_map_values: "om_get (om_map_values f m) k = map_option f (om_get m k)"
  by (simp add: om_get_def om_map_values.rep_eq map_of_map)

lemma set_om_keys: "set (om_keys m) = dom (om_get m)"
  by (simp add: om_keys_def om_get_def dom_map_of_conv_image_fst)

lemma om_contains_iff: "om_contains m k \<longleftrightarrow> k \<in> set (om_keys m)"
  by (auto simp: om_contains_def set_om_keys)

lemma om_len_keys: "om_len m = length (om_keys m)"
  by (simp add: om_len_def om_keys_def)

lemma om_len_card: "om_len m = card (dom (om_get m))"
  by (simp add: om_len_keys set_om_keys [symmetric] distinct_card om_keys_distinct)

lemma om_is_empty_iff: "om_is_empty m \<longleftrightarrow> om_get m = Map.empty"
  by (simp add: om_is_empty_def om_get_def)

lemma om_eqI: "(\<And>k. om_get m k = om_get n k) \<Longrightarrow> m = n"
  by (rule om_entries_inject [THEN iffD1])
    (auto intro!: al_sorted_unique simp: om_entries_sorted om_get_def fun_eq_iff)

lemma om_eq_iff: "m = n \<longleftrightarrow> om_get m = om_get n"
  by (auto intro: om_eqI)

lemma finite_dom_om_get [simp]: "finite (dom (om_get m))"
  by (simp add: set_om_keys [symmetric])

lemma om_values_keys: "om_values m = map (the \<circ> om_get m) (om_keys m)"
proof -
  have "snd p = the (om_get m (fst p))" if "p \<in> set (om_entries m)" for p
    using that om_get_Some_iff [of m "fst p" "snd p"] by simp
  then show ?thesis
    by (simp add: om_values_def om_keys_def)
qed

lemma om_entries_keys: "om_entries m = map (\<lambda>k. (k, the (om_get m k))) (om_keys m)"
  unfolding om_get_def om_keys_def
  by (rule al_entries_by_keys) (simp add: al_sorted_distinct om_entries_sorted)

text \<open>
  A sum over all addresses of a quantity that is 0 where the map has no entry is the sum over
  the map's entries: the executable form of the totals the ledger theorems speak about.
\<close>

lemma om_sum_entries:
  fixes m :: "('k::{linorder, finite}, 'v) omap" and f :: "'v option \<Rightarrow> nat"
  assumes "f None = 0"
  shows "(\<Sum>k\<in>UNIV. f (om_get m k)) = sum_list (map (f \<circ> Some) (om_values m))"
proof -
  have "f (om_get m k) = 0" if "k \<notin> dom (om_get m)" for k
    using that assms by (simp add: domIff)
  then have "(\<Sum>k\<in>UNIV. f (om_get m k)) = (\<Sum>k\<in>dom (om_get m). f (om_get m k))"
    by (intro sum.mono_neutral_right) simp_all
  also have "\<dots> = (\<Sum>k\<in>set (om_keys m). f (om_get m k))"
    by (simp add: set_om_keys)
  also have "\<dots> = sum_list (map (\<lambda>k. f (om_get m k)) (om_keys m))"
    by (simp add: sum_list_distinct_conv_sum_set om_keys_distinct)
  also have "map (\<lambda>k. f (om_get m k)) (om_keys m) = map (f \<circ> Some) (om_values m)"
    by (auto simp: om_values_keys set_om_keys dom_def)
  finally show ?thesis .
qed

section \<open>Sorted sets\<close>

type_synonym 'k oset = "('k, unit) omap"

definition os_insert :: "'k::linorder \<Rightarrow> 'k oset \<Rightarrow> 'k oset" where
  "os_insert k s = om_insert k () s"

definition os_member :: "'k::linorder oset \<Rightarrow> 'k \<Rightarrow> bool" where
  "os_member s k = om_contains s k"

lemma os_member_insert [simp]: "os_member (os_insert k s) j \<longleftrightarrow> j = k \<or> os_member s j"
  by (simp add: os_member_def os_insert_def om_contains_def)

lemma os_member_empty [simp]: "\<not> os_member om_empty k"
  by (simp add: os_member_def om_contains_def)

lemma os_member_retain [simp]: "os_member (om_retain P s) k \<longleftrightarrow> os_member s k \<and> P k ()"
  by (auto simp: os_member_def om_contains_def om_get_retain split: option.splits)

end
