(* ===== verification/Primitives.thy ===== *)
theory Primitives
  imports Containers
begin

text \<open>
  Model of src/crates/pemrix-primitives (hash, address, account, transaction, block, staking and
  encoding modules), of the key and error types of src/crates/pemrix-crypto and of the staking
  payload type of the virtual machine.

  Third-party code is a parameter: the record \<open>externs\<close> holds the functions of blake3,
  ed25519-dalek, hex and serde_json that the program calls, and the predicates at the end of the
  theory name what the program relies on of them. \<open>Hash\<close> and \<open>Address\<close> are newtypes over
  \<open>[u8; 32]\<close> with derived (lexicographic) order; here both are \<open>bytes32\<close>.
\<close>

section \<open>Identifiers and accounts\<close>

type_synonym hash = bytes32
type_synonym address = bytes32
type_synonym balance = u128
type_synonym nonce = u64

record Account =
  acc_balance :: balance
  acc_nonce :: nonce

definition Account_new :: "balance \<Rightarrow> nonce \<Rightarrow> Account" where
  "Account_new b n = \<lparr>acc_balance = b, acc_nonce = n\<rparr>"

definition default_account :: Account where
  "default_account = \<lparr>acc_balance = 0, acc_nonce = 0\<rparr>"

section \<open>Transactions and blocks\<close>

record Transaction =
  tx_sender :: address
  tx_recipient :: address
  tx_amount :: balance
  tx_nonce :: nonce
  tx_fee :: balance
  tx_public_key :: bytes
  tx_signature :: bytes
  tx_payload :: bytes

record BlockHeader =
  bh_height :: u64
  bh_timestamp :: u64
  bh_previous_hash :: hash
  bh_state_root :: hash
  bh_tx_root :: hash
  bh_proposer :: bytes32

record BlockBody =
  bb_transactions :: "Transaction list"

record Block =
  blk_header :: BlockHeader
  blk_body :: BlockBody

section \<open>Staking records\<close>

record Delegation =
  dlg_amount :: balance
  dlg_unbonding :: bool
  dlg_unbond_end_height :: u64

definition default_delegation :: Delegation where
  "default_delegation = \<lparr>dlg_amount = 0, dlg_unbonding = False, dlg_unbond_end_height = 0\<rparr>"

datatype ValidatorStatus = Active | Jailed | Unbonding

record ValidatorRecord =
  vr_address :: address
  vr_consensus_pubkey :: bytes
  vr_self_stake :: balance
  vr_delegated_stake :: balance
  vr_commission_bps :: u16
  vr_status :: ValidatorStatus
  vr_jailed_until :: u64
  vr_pending_rewards :: balance

definition ValidatorRecord_new :: "address \<Rightarrow> bytes \<Rightarrow> balance \<Rightarrow> u16 \<Rightarrow> ValidatorRecord" where
  "ValidatorRecord_new a pk stake bps =
     \<lparr>vr_address = a, vr_consensus_pubkey = pk, vr_self_stake = stake, vr_delegated_stake = 0,
      vr_commission_bps = bps, vr_status = Active, vr_jailed_until = 0, vr_pending_rewards = 0\<rparr>"

definition total_stake :: "ValidatorRecord \<Rightarrow> balance" where
  "total_stake r = saturating_add (vr_self_stake r) (vr_delegated_stake r)"

datatype StakingOperation =
    RegisterValidator bytes u16 balance
  | Delegate address balance
  | Undelegate address balance

record Vote =
  vote_block_hash :: hash
  vote_height :: u64
  vote_round :: u64
  vote_voter :: bytes32

section \<open>Third-party functions\<close>

text \<open>
  \<open>blake3_hash\<close> is \<open>blake3::hash\<close>; \<open>dalek_public\<close>, \<open>dalek_valid_key\<close>, \<open>dalek_sign\<close> and
  \<open>dalek_verify\<close> are \<open>SigningKey::verifying_key\<close>, the success of \<open>VerifyingKey::from_bytes\<close>,
  \<open>Signer::sign\<close> and the success of \<open>Verifier::verify\<close> on raw bytes; \<open>hex_encode\<close> and
  \<open>hex_decode\<close> are the functions of the hex crate; the remaining fields are
  \<open>serde_json::to_vec\<close> and \<open>serde_json::from_slice\<close> at the types the program serialises
  (\<open>None\<close> where \<open>from_slice\<close> returns an error).
\<close>

record externs =
  blake3_hash :: "bytes \<Rightarrow> bytes32"
  dalek_public :: "bytes \<Rightarrow> bytes"
  dalek_valid_key :: "bytes \<Rightarrow> bool"
  dalek_sign :: "bytes \<Rightarrow> bytes \<Rightarrow> bytes"
  dalek_verify :: "bytes \<Rightarrow> bytes \<Rightarrow> bytes \<Rightarrow> bool"
  hex_encode :: "bytes \<Rightarrow> string"
  hex_decode :: "string \<Rightarrow> bytes option"
  json_account :: "Account \<Rightarrow> bytes"
  unjson_account :: "bytes \<Rightarrow> Account option"
  json_validator :: "ValidatorRecord \<Rightarrow> bytes"
  unjson_validator :: "bytes \<Rightarrow> ValidatorRecord option"
  json_delegation :: "Delegation \<Rightarrow> bytes"
  unjson_delegation :: "bytes \<Rightarrow> Delegation option"
  json_staking_op :: "StakingOperation \<Rightarrow> bytes"
  unjson_staking_op :: "bytes \<Rightarrow> StakingOperation option"
  json_vote :: "Vote \<Rightarrow> bytes"
  unjson_vote :: "bytes \<Rightarrow> Vote option"
  json_transaction :: "Transaction \<Rightarrow> bytes"
  json_transactions :: "Transaction list \<Rightarrow> bytes"
  json_header :: "BlockHeader \<Rightarrow> bytes"
  json_snapshot :: "(string, bytes) omap \<Rightarrow> bytes"

section \<open>Encoding\<close>

definition bincode_placeholder :: "('a \<Rightarrow> bytes) \<Rightarrow> 'a \<Rightarrow> bytes" where
  "bincode_placeholder to_vec v = to_vec v"

definition bincode_decode_placeholder :: "(bytes \<Rightarrow> 'a option) \<Rightarrow> bytes \<Rightarrow> string + 'a" where
  "bincode_decode_placeholder from_slice bs = ok_or ''decode failed'' (from_slice bs)"

definition encode :: "('a \<Rightarrow> bytes) \<Rightarrow> 'a \<Rightarrow> bytes" where
  "encode to_vec v = bincode_placeholder to_vec v"

definition decode :: "(bytes \<Rightarrow> 'a option) \<Rightarrow> bytes \<Rightarrow> string + 'a" where
  "decode from_slice bs = bincode_decode_placeholder from_slice bs"

lemma encode_apply [simp]: "encode f v = f v"
  by (simp add: encode_def bincode_placeholder_def)

lemma decode_apply: "decode g bs = ok_or ''decode failed'' (g bs)"
  by (simp add: decode_def bincode_decode_placeholder_def)

section \<open>Hashes and addresses\<close>

definition hash_bytes :: "externs \<Rightarrow> bytes \<Rightarrow> hash" where
  "hash_bytes E bs = blake3_hash E bs"

definition from_public_key_hash :: "hash \<Rightarrow> address" where
  "from_public_key_hash h = array32 (bytes_of h)"

definition Hash_to_string :: "externs \<Rightarrow> hash \<Rightarrow> string" where
  "Hash_to_string E h = hex_encode E (bytes_of h)"

definition Hash_from_str :: "externs \<Rightarrow> string \<Rightarrow> string + hash" where
  "Hash_from_str E s =
     (case hex_decode E s of
        None \<Rightarrow> Inl ''invalid hex''
      | Some bs \<Rightarrow> if length bs \<noteq> 32 then Inl ''hash must be 32 bytes'' else Inr (array32 bs))"

definition Address_to_string :: "externs \<Rightarrow> address \<Rightarrow> string" where
  "Address_to_string E a = ''px'' @ hex_encode E (bytes_of a)"

definition strip_px :: "string \<Rightarrow> string" where
  "strip_px s = (if take 2 s = ''px'' then drop 2 s else s)"

definition Address_from_str :: "externs \<Rightarrow> string \<Rightarrow> string + address" where
  "Address_from_str E s0 =
     (let s = strip_px s0 in
      case hex_decode E s of
        None \<Rightarrow> Inl ''invalid hex''
      | Some bs \<Rightarrow> if length bs \<noteq> 32 then Inl ''address must be 32 bytes'' else Inr (array32 bs))"

section \<open>Hashing transactions and blocks\<close>

definition Transaction_transfer :: "address \<Rightarrow> address \<Rightarrow> balance \<Rightarrow> nonce \<Rightarrow> balance \<Rightarrow> Transaction" where
  "Transaction_transfer sender recipient amount n fee =
     \<lparr>tx_sender = sender, tx_recipient = recipient, tx_amount = amount, tx_nonce = n, tx_fee = fee,
      tx_public_key = [], tx_signature = [], tx_payload = []\<rparr>"

definition unsigned_tx :: "Transaction \<Rightarrow> Transaction" where
  "unsigned_tx tx = tx\<lparr>tx_signature := []\<rparr>"

definition tx_hash :: "externs \<Rightarrow> Transaction \<Rightarrow> hash" where
  "tx_hash E tx = hash_bytes E (encode (json_transaction E) (unsigned_tx tx))"

definition signing_hash :: "externs \<Rightarrow> Transaction \<Rightarrow> hash" where
  "signing_hash E tx = tx_hash E tx"

definition block_hash :: "externs \<Rightarrow> Block \<Rightarrow> hash" where
  "block_hash E b = hash_bytes E (encode (json_header E) (blk_header b))"

section \<open>What the program relies on\<close>

definition hex_ok :: "externs \<Rightarrow> bool" where
  "hex_ok E \<longleftrightarrow> (\<forall>bs. hex_decode E (hex_encode E bs) = Some bs)"

text \<open>The hex crate writes lower-case hexadecimal digits only.\<close>

definition hex_digits_ok :: "externs \<Rightarrow> bool" where
  "hex_digits_ok E \<longleftrightarrow> (\<forall>bs. set (hex_encode E bs) \<subseteq> set ''0123456789abcdef'')"

definition json_ok :: "externs \<Rightarrow> bool" where
  "json_ok E \<longleftrightarrow>
     (\<forall>a. unjson_account E (json_account E a) = Some a) \<and>
     (\<forall>r. unjson_validator E (json_validator E r) = Some r) \<and>
     (\<forall>d. unjson_delegation E (json_delegation E d) = Some d) \<and>
     (\<forall>x. unjson_staking_op E (json_staking_op E x) = Some x) \<and>
     (\<forall>v. unjson_vote E (json_vote E v) = Some v)"

text \<open>Keys are 32 bytes, signatures 64, and what a secret key signs its public key verifies.\<close>

definition dalek_ok :: "externs \<Rightarrow> bool" where
  "dalek_ok E \<longleftrightarrow>
     (\<forall>sk. length sk = 32 \<longrightarrow> length (dalek_public E sk) = 32 \<and> dalek_valid_key E (dalek_public E sk)) \<and>
     (\<forall>sk msg. length sk = 32 \<longrightarrow> length (dalek_sign E sk msg) = 64 \<and>
        dalek_verify E (dalek_public E sk) msg (dalek_sign E sk msg))"

lemma dalek_okD:
  assumes "dalek_ok E" "length sk = 32"
  shows "length (dalek_public E sk) = 32" "dalek_valid_key E (dalek_public E sk)"
    "length (dalek_sign E sk msg) = 64" "dalek_verify E (dalek_public E sk) msg (dalek_sign E sk msg)"
  using assms by (simp_all add: dalek_ok_def)

lemma json_okD:
  assumes "json_ok E"
  shows "unjson_account E (json_account E a) = Some a"
    and "unjson_validator E (json_validator E r) = Some r"
    and "unjson_delegation E (json_delegation E d) = Some d"
    and "unjson_staking_op E (json_staking_op E x) = Some x"
    and "unjson_vote E (json_vote E v) = Some v"
  using assms by (simp_all add: json_ok_def)

lemma hex_okD: "hex_ok E \<Longrightarrow> hex_decode E (hex_encode E bs) = Some bs"
  by (simp add: hex_ok_def)

lemma hex_encode_inj: "hex_ok E \<Longrightarrow> hex_encode E a = hex_encode E b \<longleftrightarrow> a = b"
  by (metis hex_okD option.inject)

section \<open>Lemmas\<close>

lemma from_public_key_hash_id [simp]: "from_public_key_hash h = h"
  by (simp add: from_public_key_hash_def)

lemma tx_hash_signature [simp]: "tx_hash E (tx\<lparr>tx_signature := s\<rparr>) = tx_hash E tx"
  by (simp add: tx_hash_def unsigned_tx_def)

lemma signing_hash_signature [simp]: "signing_hash E (tx\<lparr>tx_signature := s\<rparr>) = signing_hash E tx"
  by (simp add: signing_hash_def)

lemma strip_px_append [simp]: "strip_px (''px'' @ s) = s"
  by (simp add: strip_px_def)

lemma Address_roundtrip: "hex_ok E \<Longrightarrow> Address_from_str E (Address_to_string E a) = Inr a"
  by (simp add: Address_from_str_def Address_to_string_def strip_px_def hex_ok_def)

lemma Hash_roundtrip: "hex_ok E \<Longrightarrow> Hash_from_str E (Hash_to_string E h) = Inr h"
  by (simp add: Hash_from_str_def Hash_to_string_def hex_ok_def)

text \<open>
  Printing an address and parsing it back returns the address; the parser also accepts the
  form without the \<open>px\<close> prefix, and rejects every string whose decoded length is not 32.
\<close>

theorem address_string_roundtrip:
  assumes "hex_ok E" "hex_digits_ok E"
  shows "Address_from_str E (Address_to_string E a) = Inr a
       \<and> Address_from_str E (hex_encode E (bytes_of a)) = Inr a
       \<and> (\<forall>s b. Address_from_str E s = Inr b \<longrightarrow> hex_decode E (strip_px s) = Some (bytes_of b))"
proof -
  have "set (hex_encode E (bytes_of a)) \<subseteq> set ''0123456789abcdef''"
    using assms(2) by (simp only: hex_digits_ok_def)
  then have "CHR ''p'' \<notin> set (hex_encode E (bytes_of a))"
    by (auto dest: subsetD)
  then have "take 2 (hex_encode E (bytes_of a)) \<noteq> ''px''"
    using set_take_subset [of 2 "hex_encode E (bytes_of a)"] by auto
  then have strip: "strip_px (hex_encode E (bytes_of a)) = hex_encode E (bytes_of a)"
    by (simp add: strip_px_def)
  have parsed: "hex_decode E (strip_px s) = Some (bytes_of b)" if "Address_from_str E s = Inr b" for s b
    using that by (auto simp: Address_from_str_def Let_def bytes_of_array32 split: option.splits if_splits)
  show ?thesis
    using hex_okD [OF assms(1)] strip parsed Address_roundtrip [OF assms(1)]
    by (simp add: Address_from_str_def)
qed

end
