(* ===== verification/Protocol.thy ===== *)
theory Protocol
  imports Primitives Tokenomics
begin

text \<open>
  Model of src/crates/pemrix-protocol/src/lib.rs: the protocol constants, the parameter bundle with
  its validation and the supply ceiling, together with what they say about the issuance schedule
  of the theory Tokenomics. The sum of the two priority fee shares is a \<open>u16\<close> addition and wraps.
\<close>

section \<open>Constants\<close>

definition DECIMALS :: u8 where "DECIMALS = 9"

definition ONE_PMX :: balance where "ONE_PMX = 1000000000"

definition GENESIS_SUPPLY :: balance where "GENESIS_SUPPLY = 1000000000 * ONE_PMX"

definition MAX_PROTOCOL_ISSUANCE :: balance where "MAX_PROTOCOL_ISSUANCE = 100000000 * ONE_PMX"

definition MAX_SUPPLY :: balance where "MAX_SUPPLY = GENESIS_SUPPLY + MAX_PROTOCOL_ISSUANCE"

definition PROTOCOL_MIN_SELF_STAKE :: balance where "PROTOCOL_MIN_SELF_STAKE = 10000 * ONE_PMX"

definition MIN_ACTIVE_STAKE :: balance where "MIN_ACTIVE_STAKE = 100000 * ONE_PMX"

definition PROTOCOL_MIN_DELEGATION :: balance where "PROTOCOL_MIN_DELEGATION = ONE_PMX"

definition TRANSFER_GAS :: u64 where "TRANSFER_GAS = 21000"

definition STAKING_GAS :: u64 where "STAKING_GAS = 50000"

definition UNBONDING_PERIOD_BLOCKS :: u64 where "UNBONDING_PERIOD_BLOCKS = 241920"

definition MIN_COMMISSION_BPS :: u16 where "MIN_COMMISSION_BPS = 0"

definition MAX_COMMISSION_BPS :: u16 where "MAX_COMMISSION_BPS = 2000"

definition MAX_ACTIVE_VALIDATORS :: u32 where "MAX_ACTIVE_VALIDATORS = 100"

lemmas protocol_constants =
  ONE_PMX_def GENESIS_SUPPLY_def MAX_PROTOCOL_ISSUANCE_def MAX_SUPPLY_def PROTOCOL_MIN_SELF_STAKE_def
  MIN_ACTIVE_STAKE_def PROTOCOL_MIN_DELEGATION_def MAX_COMMISSION_BPS_def MAX_ACTIVE_VALIDATORS_def

section \<open>Parameters\<close>

record ProtocolParameters =
  pp_block_time_seconds :: u64
  pp_max_active_validators :: u32
  pp_min_active_stake :: balance
  pp_base_fee_per_gas :: balance
  pp_min_base_fee_per_gas :: balance
  pp_max_base_fee_change_bps :: u16
  pp_target_utilization_bps :: u16
  pp_priority_fee_validator_share_bps :: u16
  pp_priority_fee_treasury_share_bps :: u16
  pp_normal_quorum_bps :: u16
  pp_normal_threshold_bps :: u16
  pp_normal_voting_period_blocks :: u64
  pp_normal_timelock_blocks :: u64

datatype ParameterError =
    ZeroBlockTime | ZeroActiveValidators | BaseFeeBelowMinimum
  | PriorityFeeSharesOverflow | InvalidGovernanceThreshold

datatype InvariantError = SupplyCeilingExceeded

definition ProtocolParameters_new :: ProtocolParameters where
  "ProtocolParameters_new =
     \<lparr>pp_block_time_seconds = 8, pp_max_active_validators = MAX_ACTIVE_VALIDATORS,
      pp_min_active_stake = MIN_ACTIVE_STAKE, pp_base_fee_per_gas = 100, pp_min_base_fee_per_gas = 1,
      pp_max_base_fee_change_bps = 125, pp_target_utilization_bps = 5000,
      pp_priority_fee_validator_share_bps = 9000, pp_priority_fee_treasury_share_bps = 1000,
      pp_normal_quorum_bps = 2000, pp_normal_threshold_bps = 5000,
      pp_normal_voting_period_blocks = 75600, pp_normal_timelock_blocks = 32400\<rparr>"

definition default_parameters :: ProtocolParameters where
  "default_parameters =
     \<lparr>pp_block_time_seconds = 8, pp_max_active_validators = MAX_ACTIVE_VALIDATORS,
      pp_min_active_stake = MIN_ACTIVE_STAKE, pp_base_fee_per_gas = 100, pp_min_base_fee_per_gas = 1,
      pp_max_base_fee_change_bps = 125, pp_target_utilization_bps = 5000,
      pp_priority_fee_validator_share_bps = 9000, pp_priority_fee_treasury_share_bps = 1000,
      pp_normal_quorum_bps = 2000, pp_normal_threshold_bps = 5000,
      pp_normal_voting_period_blocks = 75600, pp_normal_timelock_blocks = 32400\<rparr>"

definition validate_parameters :: "ProtocolParameters \<Rightarrow> ParameterError + unit" where
  "validate_parameters p =
     (if pp_block_time_seconds p = 0 then Inl ZeroBlockTime
      else if pp_max_active_validators p = 0 then Inl ZeroActiveValidators
      else if pp_base_fee_per_gas p < pp_min_base_fee_per_gas p then Inl BaseFeeBelowMinimum
      else if pp_priority_fee_validator_share_bps p + pp_priority_fee_treasury_share_bps p > 10000
        then Inl PriorityFeeSharesOverflow
      else if pp_normal_quorum_bps p > 10000 \<or> pp_normal_threshold_bps p > 10000
        then Inl InvalidGovernanceThreshold
      else Inr ())"

definition check_supply_invariant :: "balance \<Rightarrow> InvariantError + unit" where
  "check_supply_invariant total_supply =
     (if total_supply > MAX_SUPPLY then Inl SupplyCeilingExceeded else Inr ())"

section \<open>Properties\<close>

lemma default_parameters_valid: "validate_parameters default_parameters = Inr ()"
  by (simp add: validate_parameters_def default_parameters_def protocol_constants
      word_less_nat_alt not_less)

text \<open>
  Parameter validation: accepted parameters have a positive block time and validator limit, a
  base fee at or above its minimum and governance thresholds of at most 100%; and the two
  priority fee shares add up to at most 100% as numbers whenever their 16-bit sum does not wrap.
  Parameters whose shares wrap are accepted: shares of 40000 and 30000 basis points pass.
\<close>

theorem validate_parameters_sound:
  "(validate_parameters p = Inr () \<longrightarrow>
      pp_block_time_seconds p \<noteq> 0 \<and> pp_max_active_validators p \<noteq> 0 \<and>
      pp_min_base_fee_per_gas p \<le> pp_base_fee_per_gas p \<and>
      pp_normal_quorum_bps p \<le> 10000 \<and> pp_normal_threshold_bps p \<le> 10000 \<and>
      (unat (pp_priority_fee_validator_share_bps p) + unat (pp_priority_fee_treasury_share_bps p) < 2 ^ 16 \<longrightarrow>
       unat (pp_priority_fee_validator_share_bps p) + unat (pp_priority_fee_treasury_share_bps p) \<le> 10000))
   \<and> validate_parameters (default_parameters\<lparr>pp_priority_fee_validator_share_bps := 40000,
        pp_priority_fee_treasury_share_bps := 30000\<rparr>) = Inr ()"
proof -
  have "unat a + unat b \<le> 10000" if "\<not> 10000 < a + b" "unat a + unat b < 2 ^ 16" for a b :: u16
    using that by (simp add: word_less_nat_alt unat_add_exact)
  then have "validate_parameters p = Inr () \<longrightarrow>
      pp_block_time_seconds p \<noteq> 0 \<and> pp_max_active_validators p \<noteq> 0 \<and>
      pp_min_base_fee_per_gas p \<le> pp_base_fee_per_gas p \<and>
      pp_normal_quorum_bps p \<le> 10000 \<and> pp_normal_threshold_bps p \<le> 10000 \<and>
      (unat (pp_priority_fee_validator_share_bps p) + unat (pp_priority_fee_treasury_share_bps p) < 2 ^ 16 \<longrightarrow>
       unat (pp_priority_fee_validator_share_bps p) + unat (pp_priority_fee_treasury_share_bps p) \<le> 10000)"
    by (auto simp: validate_parameters_def not_less split: if_splits)
  moreover have "validate_parameters (default_parameters\<lparr>pp_priority_fee_validator_share_bps := 40000,
        pp_priority_fee_treasury_share_bps := 30000\<rparr>) = Inr ()"
    by (simp add: validate_parameters_def default_parameters_def protocol_constants word_less_nat_alt)
  ultimately show ?thesis by blast
qed

theorem validate_parameters_sound_witness:
  "validate_parameters default_parameters = Inr () \<and> pp_normal_quorum_bps default_parameters \<le> 10000"
  using validate_parameters_sound [of default_parameters] default_parameters_valid by simp

text \<open>
  The supply ceiling and the issuance schedule disagree: following the default schedule for
  fourteen million blocks (seven decay intervals) brings genesis supply plus issuance above the
  hard ceiling, so \<open>check_supply_invariant\<close> rejects the supply the schedule produces, while it
  accepts the genesis supply.
\<close>

theorem default_issuance_breaks_ceiling:
  "tk_initial_supply mainnet = GENESIS_SUPPLY \<and>
   check_supply_invariant GENESIS_SUPPLY = Inr () \<and>
   (\<exists>t. total_issued_by_height mainnet 14000000 = Some (Inr t) \<and>
        check_supply_invariant (tk_initial_supply mainnet + t) = Inl SupplyCeilingExceeded)"
  by (simp add: check_supply_invariant_def protocol_constants total_issued_by_height_def
      issued_loop.simps mainnet_def default_tokenomics_def decayed_def div_or_panic_def
      saturating_mul_def saturating_add_def saturating_sub_def Let_def min_def word_less_nat_alt)

end
