(* ===== verification/Storage.thy ===== *)
theory Storage
  imports Primitives "HOL-Library.Sublist"
begin

text \<open>
  Model of src/crates/pemrix-storage: the trait \<open>StateBackend\<close>, the in-memory backend and the state
  store. A Rust trait is a record of its methods (the dictionary a generic function is compiled
  with), so \<open>StateStore<B>\<close> is a value of the backend's type together with such a record and
  every store operation takes the record as its first argument.

  The locale \<open>state_backend\<close> states what a backend promises: its contents read as an account map
  and a raw key map, and every operation acts on those maps. The store lemmas are proved once in
  the locale; the in-memory backend interprets it here, and the RocksDB backend satisfies it in
  the theory RocksDb.
\<close>

section \<open>Errors and the backend trait\<close>

datatype StorageError = NotFound | Backend string | Serialization | StateRootMismatch

type_synonym RawEntry = "bytes \<times> bytes"

record 'b StateBackend =
  be_get_account :: "'b \<Rightarrow> address \<Rightarrow> StorageError + Account option"
  be_put_account :: "address \<Rightarrow> Account \<Rightarrow> ('b, StorageError, unit) action"
  be_delete_account :: "address \<Rightarrow> ('b, StorageError, unit) action"
  be_get_raw :: "'b \<Rightarrow> bytes \<Rightarrow> StorageError + bytes option"
  be_put_raw :: "bytes \<Rightarrow> bytes \<Rightarrow> ('b, StorageError, unit) action"
  be_delete_raw :: "bytes \<Rightarrow> ('b, StorageError, unit) action"
  be_iter_raw_prefix :: "'b \<Rightarrow> bytes \<Rightarrow> StorageError + RawEntry list"
  be_state_root :: "'b \<Rightarrow> StorageError + hash"

section \<open>In-memory backend\<close>

record InMemoryBackend =
  im_accounts :: "(address, Account) omap"
  im_raw :: "(bytes, bytes) omap"

definition InMemoryBackend_new :: InMemoryBackend where
  "InMemoryBackend_new = \<lparr>im_accounts = om_empty, im_raw = om_empty\<rparr>"

definition im_get_account :: "InMemoryBackend \<Rightarrow> address \<Rightarrow> StorageError + Account option" where
  "im_get_account s a = Inr (om_get (im_accounts s) a)"

definition im_put_account :: "address \<Rightarrow> Account \<Rightarrow> (InMemoryBackend, StorageError, unit) action" where
  "im_put_account a x = (\<lambda>s. (Inr (), s\<lparr>im_accounts := om_insert a x (im_accounts s)\<rparr>))"

definition im_delete_account :: "address \<Rightarrow> (InMemoryBackend, StorageError, unit) action" where
  "im_delete_account a = (\<lambda>s. (Inr (), s\<lparr>im_accounts := om_remove a (im_accounts s)\<rparr>))"

definition im_get_raw :: "InMemoryBackend \<Rightarrow> bytes \<Rightarrow> StorageError + bytes option" where
  "im_get_raw s k = Inr (om_get (im_raw s) k)"

definition im_put_raw :: "bytes \<Rightarrow> bytes \<Rightarrow> (InMemoryBackend, StorageError, unit) action" where
  "im_put_raw k v = (\<lambda>s. (Inr (), s\<lparr>im_raw := om_insert k v (im_raw s)\<rparr>))"

definition im_delete_raw :: "bytes \<Rightarrow> (InMemoryBackend, StorageError, unit) action" where
  "im_delete_raw k = (\<lambda>s. (Inr (), s\<lparr>im_raw := om_remove k (im_raw s)\<rparr>))"

text \<open>\<open>range(prefix..)\<close> is the tail of the sorted entries from the first key at or above the prefix.\<close>

definition im_iter_raw_prefix :: "InMemoryBackend \<Rightarrow> bytes \<Rightarrow> StorageError + RawEntry list" where
  "im_iter_raw_prefix s p =
     Inr (takeWhile (\<lambda>(k, _). prefix p k) (filter (\<lambda>(k, _). p \<le> k) (om_entries (im_raw s))))"

definition acc_prefix :: bytes where "acc_prefix = [97, 99, 99, 58]"

definition account_key :: "address \<Rightarrow> bytes" where
  "account_key a = acc_prefix @ bytes_of a"

definition im_snapshot :: "externs \<Rightarrow> InMemoryBackend \<Rightarrow> (string, bytes) omap" where
  "im_snapshot E s =
     fold (\<lambda>(k, v) m. om_insert (hex_encode E k) v m) (om_entries (im_raw s))
       (fold (\<lambda>(a, x) m. om_insert (hex_encode E (account_key a)) (encode (json_account E) x) m)
          (om_entries (im_accounts s)) om_empty)"

definition im_state_root :: "externs \<Rightarrow> InMemoryBackend \<Rightarrow> StorageError + hash" where
  "im_state_root E s = Inr (hash_bytes E (encode (json_snapshot E) (im_snapshot E s)))"

definition im_backend :: "externs \<Rightarrow> InMemoryBackend StateBackend" where
  "im_backend E =
     \<lparr>be_get_account = im_get_account, be_put_account = im_put_account,
      be_delete_account = im_delete_account, be_get_raw = im_get_raw, be_put_raw = im_put_raw,
      be_delete_raw = im_delete_raw, be_iter_raw_prefix = im_iter_raw_prefix,
      be_state_root = im_state_root E\<rparr>"

section \<open>State store\<close>

definition store_balance :: "'b StateBackend \<Rightarrow> 'b \<Rightarrow> address \<Rightarrow> StorageError + balance" where
  "store_balance B s a =
     map_sum id (\<lambda>x. case x of None \<Rightarrow> 0 | Some acc \<Rightarrow> acc_balance acc) (be_get_account B s a)"

definition store_nonce :: "'b StateBackend \<Rightarrow> 'b \<Rightarrow> address \<Rightarrow> StorageError + nonce" where
  "store_nonce B s a =
     map_sum id (\<lambda>x. case x of None \<Rightarrow> 0 | Some acc \<Rightarrow> acc_nonce acc) (be_get_account B s a)"

definition set_account :: "'b StateBackend \<Rightarrow> address \<Rightarrow> Account \<Rightarrow> ('b, StorageError, unit) action" where
  "set_account B a x = be_put_account B a x"

definition store_state_root :: "'b StateBackend \<Rightarrow> 'b \<Rightarrow> StorageError + hash" where
  "store_state_root B s = be_state_root B s"

definition get_account :: "'b StateBackend \<Rightarrow> 'b \<Rightarrow> address \<Rightarrow> StorageError + Account option" where
  "get_account B s a = be_get_account B s a"

definition unwrap_account :: "Account option \<Rightarrow> Account" where
  "unwrap_account x = (case x of None \<Rightarrow> default_account | Some a \<Rightarrow> a)"

definition transfer_amount_only :: "'b StateBackend \<Rightarrow> address \<Rightarrow> balance \<Rightarrow> ('b, StorageError, unit) action" where
  "transfer_amount_only B to amount =
     act_bind (act_query (\<lambda>s. be_get_account B s to)) (\<lambda>x.
     let recipient = unwrap_account x in
     act_bind (act_lift (ok_or (Backend ''balance overflow'') (checked_add (acc_balance recipient) amount))) (\<lambda>b.
     act_bind (be_put_account B to (recipient\<lparr>acc_balance := b\<rparr>)) (\<lambda>_.
     act_return ())))"

definition store_transfer ::
    "'b StateBackend \<Rightarrow> address \<Rightarrow> address \<Rightarrow> balance \<Rightarrow> balance \<Rightarrow> ('b, StorageError, unit) action" where
  "store_transfer B from to amount fee =
     act_bind (act_query (\<lambda>s. be_get_account B s from)) (\<lambda>x.
     act_bind (act_lift (ok_or NotFound x)) (\<lambda>sender.
     act_bind (act_lift (ok_or (Backend ''balance overflow'') (checked_add amount fee))) (\<lambda>tot.
     if acc_balance sender < tot then act_throw (Backend ''insufficient balance'')
     else
       act_bind (be_put_account B from
         (sender\<lparr>acc_balance := acc_balance sender - tot, acc_nonce := acc_nonce sender + 1\<rparr>)) (\<lambda>_.
       transfer_amount_only B to amount))))"

definition val_prefix :: bytes where "val_prefix = [118, 97, 108, 58]"

definition dlg_prefix :: bytes where "dlg_prefix = [100, 108, 103, 58]"

definition validator_key :: "address \<Rightarrow> bytes" where
  "validator_key a = val_prefix @ bytes_of a"

definition delegation_key :: "address \<Rightarrow> address \<Rightarrow> bytes" where
  "delegation_key d v = dlg_prefix @ bytes_of d @ bytes_of v"

definition decode_optional :: "(bytes \<Rightarrow> 'a option) \<Rightarrow> bytes option \<Rightarrow> StorageError + 'a option" where
  "decode_optional g x =
     (case x of
        None \<Rightarrow> Inr None
      | Some bs \<Rightarrow> bind_result (map_err (\<lambda>_. Serialization) (decode g bs)) (\<lambda>r. Inr (Some r)))"

definition validator_record :: "externs \<Rightarrow> 'b StateBackend \<Rightarrow> 'b \<Rightarrow> address \<Rightarrow> StorageError + ValidatorRecord option" where
  "validator_record E B s a =
     bind_result (be_get_raw B s (validator_key a)) (decode_optional (unjson_validator E))"

definition set_validator_record :: "externs \<Rightarrow> 'b StateBackend \<Rightarrow> address \<Rightarrow> ValidatorRecord \<Rightarrow> ('b, StorageError, unit) action" where
  "set_validator_record E B a r = be_put_raw B (validator_key a) (encode (json_validator E) r)"

definition delegation :: "externs \<Rightarrow> 'b StateBackend \<Rightarrow> 'b \<Rightarrow> address \<Rightarrow> address \<Rightarrow> StorageError + Delegation option" where
  "delegation E B s d v =
     bind_result (be_get_raw B s (delegation_key d v)) (decode_optional (unjson_delegation E))"

definition set_delegation :: "externs \<Rightarrow> 'b StateBackend \<Rightarrow> address \<Rightarrow> address \<Rightarrow> Delegation \<Rightarrow> ('b, StorageError, unit) action" where
  "set_delegation E B d v x = be_put_raw B (delegation_key d v) (encode (json_delegation E) x)"

definition delete_delegation :: "'b StateBackend \<Rightarrow> address \<Rightarrow> address \<Rightarrow> ('b, StorageError, unit) action" where
  "delete_delegation B d v = be_delete_raw B (delegation_key d v)"

fun collect_records :: "externs \<Rightarrow> RawEntry list \<Rightarrow> StorageError + (address \<times> ValidatorRecord) list" where
  "collect_records E [] = Inr []"
| "collect_records E ((k, v) # es) =
     (if length k \<noteq> length val_prefix + 32 then collect_records E es
      else bind_result (map_err (\<lambda>_. Serialization) (decode (unjson_validator E) v)) (\<lambda>r.
           bind_result (collect_records E es) (\<lambda>rs.
           Inr ((array32 (drop (length val_prefix) k), r) # rs))))"

definition validator_records :: "externs \<Rightarrow> 'b StateBackend \<Rightarrow> 'b \<Rightarrow> StorageError + (address \<times> ValidatorRecord) list" where
  "validator_records E B s =
     bind_result (be_iter_raw_prefix B s val_prefix) (collect_records E)"

definition validator_count :: "externs \<Rightarrow> 'b StateBackend \<Rightarrow> 'b \<Rightarrow> StorageError + nat" where
  "validator_count E B s = bind_result (validator_records E B s) (\<lambda>rs. Inr (length rs))"

section \<open>Keys\<close>

text \<open>The keys the protocol writes through the raw interface: validator records and delegations.\<close>

definition protocol_key :: "bytes \<Rightarrow> bool" where
  "protocol_key k \<longleftrightarrow> prefix val_prefix k \<or> prefix dlg_prefix k"

lemma protocol_key_validator [simp]: "protocol_key (validator_key a)"
  by (simp add: protocol_key_def validator_key_def)

lemma protocol_key_delegation [simp]: "protocol_key (delegation_key d v)"
  by (simp add: protocol_key_def delegation_key_def)

lemma validator_key_inject [simp]: "validator_key a = validator_key b \<longleftrightarrow> a = b"
  by (simp add: validator_key_def bytes32_eq_iff)

lemma delegation_key_inject [simp]: "delegation_key d v = delegation_key d' v' \<longleftrightarrow> d = d' \<and> v = v'"
  by (simp add: delegation_key_def bytes32_eq_iff)

lemma account_key_inject [simp]: "account_key a = account_key b \<longleftrightarrow> a = b"
  by (simp add: account_key_def bytes32_eq_iff)

lemma validator_delegation_key [simp]:
  "validator_key a \<noteq> delegation_key d v" "delegation_key d v \<noteq> validator_key a"
  by (simp_all add: validator_key_def delegation_key_def val_prefix_def dlg_prefix_def)

lemma account_key_not_protocol [simp]: "\<not> protocol_key (account_key a)"
  by (simp add: protocol_key_def account_key_def acc_prefix_def val_prefix_def dlg_prefix_def)

lemma validator_key_of_raw:
  assumes "prefix val_prefix k" "length k = length val_prefix + 32"
  shows "k = validator_key (array32 (drop (length val_prefix) k))"
proof -
  obtain z where "k = val_prefix @ z" using assms(1) by (auto simp: prefix_def)
  with assms(2) show ?thesis by (simp add: validator_key_def bytes_of_array32)
qed

lemma prefix_validator_key [simp]: "prefix val_prefix (validator_key a)"
  by (simp add: validator_key_def)

lemma length_validator_key [simp]: "length (validator_key a) = length val_prefix + 32"
  by (simp add: validator_key_def)

lemma drop_validator_key [simp]: "array32 (drop (length val_prefix) (validator_key a)) = a"
  by (simp add: validator_key_def)

section \<open>The ledger a store represents\<close>

text \<open>
  The abstract state: three finite maps. A store represents a ledger when its raw values decode.
\<close>

record ledger =
  lg_acct :: "address \<Rightarrow> Account option"
  lg_val :: "address \<Rightarrow> ValidatorRecord option"
  lg_dlg :: "address \<Rightarrow> address \<Rightarrow> Delegation option"

definition ledger_view :: "externs \<Rightarrow> (address \<Rightarrow> Account option) \<Rightarrow> (bytes \<Rightarrow> bytes option) \<Rightarrow> ledger" where
  "ledger_view E accts raws =
     \<lparr>lg_acct = accts,
      lg_val = (\<lambda>a. Option.bind (raws (validator_key a)) (unjson_validator E)),
      lg_dlg = (\<lambda>d v. Option.bind (raws (delegation_key d v)) (unjson_delegation E))\<rparr>"

definition decodable :: "externs \<Rightarrow> (bytes \<Rightarrow> bytes option) \<Rightarrow> bool" where
  "decodable E raws \<longleftrightarrow>
     (\<forall>a bs. raws (validator_key a) = Some bs \<longrightarrow> unjson_validator E bs \<noteq> None) \<and>
     (\<forall>d v bs. raws (delegation_key d v) = Some bs \<longrightarrow> unjson_delegation E bs \<noteq> None)"

lemma ledger_view_simps [simp]:
  "lg_acct (ledger_view E f g) = f"
  "lg_val (ledger_view E f g) a = Option.bind (g (validator_key a)) (unjson_validator E)"
  "lg_dlg (ledger_view E f g) d v = Option.bind (g (delegation_key d v)) (unjson_delegation E)"
  by (simp_all add: ledger_view_def)

lemma ledger_view_account:
  "ledger_view E (f(a \<mapsto> x)) g = (ledger_view E f g)\<lparr>lg_acct := f(a \<mapsto> x)\<rparr>"
  by (simp add: ledger_view_def)

lemma ledger_view_validator:
  assumes "json_ok E"
  shows "ledger_view E f (g(validator_key a \<mapsto> json_validator E r)) =
     (ledger_view E f g)\<lparr>lg_val := (lg_val (ledger_view E f g))(a \<mapsto> r)\<rparr>"
  by (simp add: ledger_view_def fun_eq_iff json_okD [OF assms])

lemma ledger_view_delegation:
  assumes "json_ok E"
  shows "ledger_view E f (g(delegation_key d v \<mapsto> json_delegation E x)) =
     (ledger_view E f g)\<lparr>lg_dlg := (lg_dlg (ledger_view E f g))(d := (lg_dlg (ledger_view E f g) d)(v \<mapsto> x))\<rparr>"
  by (simp add: ledger_view_def fun_eq_iff json_okD [OF assms])

lemma ledger_view_delegation_delete:
  "ledger_view E f (g(delegation_key d v := None)) =
     (ledger_view E f g)\<lparr>lg_dlg := (lg_dlg (ledger_view E f g))(d := (lg_dlg (ledger_view E f g) d)(v := None))\<rparr>"
  by (simp add: ledger_view_def fun_eq_iff)

lemma decodable_validator [simp]:
  "json_ok E \<Longrightarrow> decodable E g \<Longrightarrow> decodable E (g(validator_key a \<mapsto> json_validator E r))"
  by (simp add: decodable_def json_okD)

lemma decodable_delegation [simp]:
  "json_ok E \<Longrightarrow> decodable E g \<Longrightarrow> decodable E (g(delegation_key d v \<mapsto> json_delegation E x))"
  by (simp add: decodable_def json_okD)

lemma decodable_delete [simp]:
  "decodable E g \<Longrightarrow> decodable E (g(delegation_key d v := None))"
  by (simp add: decodable_def)

text \<open>A raw map is canonical when it holds nothing but encoded validator records and delegations
  under their keys, which is what the store's own operations write.\<close>

definition canonical :: "externs \<Rightarrow> (bytes \<Rightarrow> bytes option) \<Rightarrow> bool" where
  "canonical E raws \<longleftrightarrow>
     (\<forall>k bs. raws k = Some bs \<longrightarrow>
        (\<exists>a r. k = validator_key a \<and> bs = json_validator E r) \<or>
        (\<exists>d v x. k = delegation_key d v \<and> bs = json_delegation E x))"

lemma canonical_decodable [simp]: "json_ok E \<Longrightarrow> canonical E g \<Longrightarrow> decodable E g"
  by (fastforce simp: decodable_def canonical_def json_okD)

lemma canonical_validator [simp]:
  "canonical E g \<Longrightarrow> canonical E (g(validator_key a \<mapsto> json_validator E r))"
  by (auto simp: canonical_def)

lemma canonical_delegation [simp]:
  "canonical E g \<Longrightarrow> canonical E (g(delegation_key d v \<mapsto> json_delegation E x))"
  by (auto simp: canonical_def)

lemma canonical_delete [simp]: "canonical E g \<Longrightarrow> canonical E (g(k := None))"
  by (auto simp: canonical_def)

lemma canonical_empty [simp]: "canonical E Map.empty"
  by (simp add: canonical_def)

lemma canonical_entries:
  assumes "canonical E g"
  shows "g (validator_key a) = Some bs \<Longrightarrow> \<exists>r. bs = json_validator E r"
    and "g (delegation_key d v) = Some bs \<Longrightarrow> \<exists>x. bs = json_delegation E x"
  using assms unfolding canonical_def
  by (metis validator_delegation_key(1)) (metis assms canonical_def validator_delegation_key(1))

lemma canonical_other:
  assumes "canonical E g" "\<forall>a. k \<noteq> validator_key a" "\<forall>d v. k \<noteq> delegation_key d v"
  shows "g k = None"
proof (cases "g k")
  case (Some bs)
  with assms show ?thesis unfolding canonical_def by blast
qed

lemma canonical_view_eq:
  assumes "json_ok E" "canonical E g" "canonical E h" "ledger_view E f g = ledger_view E f' h"
  shows "f = f' \<and> g = h"
proof -
  have val: "g (validator_key a) = h (validator_key a)" for a
  proof -
    have "Option.bind (g (validator_key a)) (unjson_validator E) = Option.bind (h (validator_key a)) (unjson_validator E)"
      using arg_cong [OF assms(4), of "\<lambda>L. lg_val L a"] by simp
    then show ?thesis
      by (cases "g (validator_key a)"; cases "h (validator_key a)")
        (auto simp: json_okD [OF assms(1)] dest!: canonical_entries(1) [OF assms(2)] canonical_entries(1) [OF assms(3)])
  qed
  have dlg: "g (delegation_key d v) = h (delegation_key d v)" for d v
  proof -
    have "Option.bind (g (delegation_key d v)) (unjson_delegation E) = Option.bind (h (delegation_key d v)) (unjson_delegation E)"
      using arg_cong [OF assms(4), of "\<lambda>L. lg_dlg L d v"] by simp
    then show ?thesis
      by (cases "g (delegation_key d v)"; cases "h (delegation_key d v)")
        (auto simp: json_okD [OF assms(1)] dest!: canonical_entries(2) [OF assms(2)] canonical_entries(2) [OF assms(3)])
  qed
  have "g k = h k" for k
  proof (cases "(\<exists>a. k = validator_key a) \<or> (\<exists>d v. k = delegation_key d v)")
    case True
    then show ?thesis using val dlg by auto
  next
    case False
    then show ?thesis using canonical_other [OF assms(2)] canonical_other [OF assms(3)] by auto
  qed
  then show ?thesis
    using arg_cong [OF assms(4), of lg_acct] by auto
qed

lemma decode_optional_decodable:
  assumes "\<forall>bs. x = Some bs \<longrightarrow> g bs \<noteq> None"
  shows "decode_optional g x = Inr (Option.bind x g)"
  using assms by (auto simp: decode_optional_def decode_apply split: option.splits)

section \<open>The backend contract\<close>

locale state_backend =
  fixes B :: "'b StateBackend"
    and acct :: "'b \<Rightarrow> address \<Rightarrow> Account option"
    and raw :: "'b \<Rightarrow> bytes \<Rightarrow> bytes option"
    and inv :: "'b \<Rightarrow> bool"
  assumes get_account_law: "inv s \<Longrightarrow> be_get_account B s a = Inr (acct s a)"
    and put_account_law: "inv s \<Longrightarrow> \<exists>s'. be_put_account B a x s = (Inr (), s') \<and> inv s' \<and>
          acct s' = (acct s)(a \<mapsto> x) \<and> raw s' = raw s"
    and delete_account_law: "inv s \<Longrightarrow> \<exists>s'. be_delete_account B a s = (Inr (), s') \<and> inv s' \<and>
          acct s' = (acct s)(a := None) \<and> raw s' = raw s"
    and get_raw_law: "inv s \<Longrightarrow> protocol_key k \<Longrightarrow> be_get_raw B s k = Inr (raw s k)"
    and put_raw_law: "inv s \<Longrightarrow> protocol_key k \<Longrightarrow> \<exists>s'. be_put_raw B k v s = (Inr (), s') \<and> inv s' \<and>
          acct s' = acct s \<and> raw s' = (raw s)(k \<mapsto> v)"
    and delete_raw_law: "inv s \<Longrightarrow> protocol_key k \<Longrightarrow> \<exists>s'. be_delete_raw B k s = (Inr (), s') \<and> inv s' \<and>
          acct s' = acct s \<and> raw s' = (raw s)(k := None)"
    and iter_val_law: "inv s \<Longrightarrow> \<exists>es. be_iter_raw_prefix B s val_prefix = Inr es \<and>
          sorted_wrt (<) (map fst es) \<and>
          (\<forall>k v. (k, v) \<in> set es \<longleftrightarrow> prefix val_prefix k \<and> raw s k = Some v)"
    and state_root_law: "inv s \<Longrightarrow> inv t \<Longrightarrow> acct s = acct t \<Longrightarrow> raw s = raw t \<Longrightarrow>
          be_state_root B s = be_state_root B t"
    and state_root_total: "inv s \<Longrightarrow> \<exists>h. be_state_root B s = Inr h"
begin

text \<open>The laws as rules that run the operations.\<close>

lemma run_put_account:
  assumes "inv s"
  shows "be_put_account B a x s = (Inr (), after (be_put_account B a x) s)"
    and "inv (after (be_put_account B a x) s)"
    and "acct (after (be_put_account B a x) s) = (acct s)(a \<mapsto> x)"
    and "raw (after (be_put_account B a x) s) = raw s"
  using put_account_law [OF assms, of a x] by (auto simp: after_def)

lemma run_put_raw:
  assumes "inv s" "protocol_key k"
  shows "be_put_raw B k v s = (Inr (), after (be_put_raw B k v) s)"
    and "inv (after (be_put_raw B k v) s)"
    and "acct (after (be_put_raw B k v) s) = acct s"
    and "raw (after (be_put_raw B k v) s) = (raw s)(k \<mapsto> v)"
  using put_raw_law [OF assms, of v] by (auto simp: after_def)

lemma run_delete_raw:
  assumes "inv s" "protocol_key k"
  shows "be_delete_raw B k s = (Inr (), after (be_delete_raw B k) s)"
    and "inv (after (be_delete_raw B k) s)"
    and "acct (after (be_delete_raw B k) s) = acct s"
    and "raw (after (be_delete_raw B k) s) = (raw s)(k := None)"
  using delete_raw_law [OF assms] by (auto simp: after_def)

lemma store_balance_law:
  "inv s \<Longrightarrow> store_balance B s a = Inr (acc_balance (unwrap_account (acct s a)))"
  by (auto simp: store_balance_def get_account_law unwrap_account_def default_account_def split: option.splits)

lemma store_nonce_law:
  "inv s \<Longrightarrow> store_nonce B s a = Inr (acc_nonce (unwrap_account (acct s a)))"
  by (auto simp: store_nonce_def get_account_law unwrap_account_def default_account_def split: option.splits)

lemma store_get_account_law: "inv s \<Longrightarrow> get_account B s a = Inr (acct s a)"
  by (simp add: get_account_def get_account_law)

lemma validator_record_law:
  "inv s \<Longrightarrow> decodable E (raw s) \<Longrightarrow>
   validator_record E B s a = Inr (lg_val (ledger_view E (acct s) (raw s)) a)"
  by (simp add: validator_record_def get_raw_law decode_optional_decodable decodable_def)

lemma delegation_law:
  "inv s \<Longrightarrow> decodable E (raw s) \<Longrightarrow>
   delegation E B s d v = Inr (lg_dlg (ledger_view E (acct s) (raw s)) d v)"
  by (simp add: delegation_def get_raw_law decode_optional_decodable decodable_def)

lemmas backend_run = run_put_account run_put_raw run_delete_raw store_balance_law store_nonce_law
  store_get_account_law validator_record_law delegation_law get_account_law

lemma collect_records_law:
  assumes "\<forall>(k, v)\<in>set es. prefix val_prefix k \<and> g k = Some v" "decodable E g" "sorted_wrt (<) (map fst es)"
  shows "\<exists>rs. collect_records E es = Inr rs \<and> sorted_wrt (<) (map (\<lambda>p. validator_key (fst p)) rs) \<and>
     (\<forall>a r. (a, r) \<in> set rs \<longleftrightarrow> (\<exists>v. (validator_key a, v) \<in> set es \<and> unjson_validator E v = Some r))"
  using assms
proof (induction es)
  case Nil
  then show ?case by simp
next
  case (Cons e es)
  obtain k v where e: "e = (k, v)" by (cases e)
  have k: "prefix val_prefix k" "g k = Some v"
    using Cons.prems(1) e by auto
  have sorted: "sorted_wrt (<) (map fst es)" "\<forall>k'\<in>fst ` set es. k < k'"
    using Cons.prems(3) e by auto
  obtain rs where rs: "collect_records E es = Inr rs" "sorted_wrt (<) (map (\<lambda>p. validator_key (fst p)) rs)"
    "\<forall>a r. (a, r) \<in> set rs \<longleftrightarrow> (\<exists>v. (validator_key a, v) \<in> set es \<and> unjson_validator E v = Some r)"
  proof -
    have tl: "\<forall>(k, v)\<in>set es. prefix val_prefix k \<and> g k = Some v"
      using Cons.prems(1) by simp
    show ?thesis
      using that Cons.IH [OF tl Cons.prems(2) sorted(1)] by blast
  qed
  show ?case
  proof (cases "length k = length val_prefix + 32")
    case False
    then have "validator_key a \<noteq> k" for a by (metis length_validator_key)
    with False rs show ?thesis by (auto simp: e)
  next
    case True
    define b where "b = array32 (drop (length val_prefix) k)"
    have kb: "k = validator_key b"
      using validator_key_of_raw [OF k(1) True] by (simp add: b_def)
    obtain r where r: "unjson_validator E v = Some r"
      using k(2) Cons.prems(2) unfolding kb decodable_def by blast
    have above: "\<forall>(a, r)\<in>set rs. k < validator_key a"
    proof (clarify)
      fix a r assume "(a, r) \<in> set rs"
      then obtain v where "(validator_key a, v) \<in> set es" using rs(3) by blast
      then show "k < validator_key a" using sorted(2) by (force simp: image_iff)
    qed
    have members: "(a, x) \<in> set ((b, r) # rs) \<longleftrightarrow>
        (\<exists>w. (validator_key a, w) \<in> set (e # es) \<and> unjson_validator E w = Some x)" for a x
      using rs(3) r by (auto simp: e kb)
    have "collect_records E (e # es) = Inr ((b, r) # rs)"
      using True rs(1) r by (simp add: e decode_apply b_def)
    moreover have "sorted_wrt (<) (map (\<lambda>p. validator_key (fst p)) ((b, r) # rs))"
      using rs(2) above by (auto simp: kb)
    ultimately show ?thesis using members by blast
  qed
qed

lemma validator_records_law:
  assumes "inv s" "decodable E (raw s)"
  shows "\<exists>rs. validator_records E B s = Inr rs \<and> sorted_wrt (<) (map (\<lambda>p. validator_key (fst p)) rs) \<and>
     (\<forall>a r. (a, r) \<in> set rs \<longleftrightarrow> lg_val (ledger_view E (acct s) (raw s)) a = Some r)"
proof -
  obtain es where es: "be_iter_raw_prefix B s val_prefix = Inr es" "sorted_wrt (<) (map fst es)"
    "\<forall>k v. (k, v) \<in> set es \<longleftrightarrow> prefix val_prefix k \<and> raw s k = Some v"
    using iter_val_law [OF assms(1)] by blast
  obtain rs where "collect_records E es = Inr rs" "sorted_wrt (<) (map (\<lambda>p. validator_key (fst p)) rs)"
    "\<forall>a r. (a, r) \<in> set rs \<longleftrightarrow> (\<exists>v. (validator_key a, v) \<in> set es \<and> unjson_validator E v = Some r)"
    using collect_records_law [OF _ assms(2) es(2)] es(3) by auto
  then show ?thesis
    using es(1,3) by (auto simp: validator_records_def bind_eq_Some_conv)
qed

end

section \<open>The in-memory backend fulfils the contract\<close>

lemma append_le_self: "p \<le> p @ (q :: 'a::linorder list)"
  by (induction p) simp_all

lemma prefix_imp_le: "prefix p k \<Longrightarrow> p \<le> (k :: 'a::linorder list)"
  by (auto simp: prefix_def intro: append_le_self)

lemma prefix_convex: "p \<le> k \<Longrightarrow> k \<le> k' \<Longrightarrow> prefix p k' \<Longrightarrow> prefix p (k :: 'a::linorder list)"
proof (induction p arbitrary: k k')
  case Nil
  then show ?case by simp
next
  case (Cons x p)
  then obtain z where k': "k' = x # z" "prefix p z" by (cases k') auto
  obtain y w where k: "k = y # w" using Cons.prems(1) by (cases k) auto
  have "y = x" "p \<le> w" "w \<le> z" using Cons.prems(1,2) k k'(1) by auto
  then show ?case using Cons.IH [OF _ _ k'(2)] k by simp
qed

lemma range_takeWhile_filter:
  assumes "al_sorted es"
  shows "takeWhile (\<lambda>(k, _). prefix p k) (filter (\<lambda>(k, _). p \<le> k) es) =
     filter (\<lambda>(k, _). prefix p k) (es :: ('a::linorder list \<times> 'v) list)"
  using assms
proof (induction es)
  case Nil
  then show ?case by simp
next
  case (Cons e es)
  obtain k v where e: "e = (k, v)" by (cases e)
  have IH: "takeWhile (\<lambda>(k, _). prefix p k) (filter (\<lambda>(k, _). p \<le> k) es) =
      filter (\<lambda>(k, _). prefix p k) es"
    using Cons by simp
  have "filter (\<lambda>(k, _). prefix p k) es = []" if "p \<le> k" "\<not> prefix p k"
  proof -
    have "\<not> prefix p k'" if "(k', v') \<in> set es" for k' v'
    proof
      assume "prefix p k'"
      moreover have "k \<le> k'" using Cons.prems \<open>(k', v') \<in> set es\<close> e by force
      ultimately show False using prefix_convex \<open>p \<le> k\<close> \<open>\<not> prefix p k\<close> by blast
    qed
    then show ?thesis by (auto simp: filter_empty_conv)
  qed
  with IH show ?case using prefix_imp_le [of p k] by (auto simp: e)
qed

lemma im_iter_raw_prefix_filter:
  "im_iter_raw_prefix s p = Inr (filter (\<lambda>(k, _). prefix p k) (om_entries (im_raw s)))"
  by (simp add: im_iter_raw_prefix_def range_takeWhile_filter om_entries_sorted)

text \<open>The raw map of a store that only the protocol writes to holds protocol keys only.\<close>

definition im_inv :: "InMemoryBackend \<Rightarrow> bool" where
  "im_inv s \<longleftrightarrow> (\<forall>k. protocol_key k \<or> om_get (im_raw s) k = None)"

lemma im_state_eqI:
  fixes s t :: InMemoryBackend
  shows "om_get (im_accounts s) = om_get (im_accounts t) \<Longrightarrow> om_get (im_raw s) = om_get (im_raw t) \<Longrightarrow> s = t"
  by (cases s, cases t) (simp add: om_eq_iff)

lemma im_state_backend:
  "state_backend (im_backend E) (\<lambda>s. om_get (im_accounts s)) (\<lambda>s. om_get (im_raw s)) im_inv"
proof (unfold_locales, goal_cases)
  case (7 s)
  show ?case
    by (auto simp: im_backend_def im_iter_raw_prefix_filter om_get_Some_iff
        intro: al_sorted_filter om_entries_sorted)
next
  case (8 s t)
  then have "s = t" by (intro im_state_eqI)
  then show ?case by simp
qed (auto simp: im_backend_def im_get_account_def im_put_account_def im_delete_account_def im_get_raw_def
       im_put_raw_def im_delete_raw_def im_inv_def im_state_root_def)

interpretation im: state_backend "im_backend E" "\<lambda>s. om_get (im_accounts s)" "\<lambda>s. om_get (im_raw s)" im_inv
  for E
  by (rule im_state_backend)

end
