(* ===== verification/Demo_Externs.thy ===== *)
theory Demo_Externs
  imports Primitives
begin

text \<open>
  A concrete instance of the third-party functions, used by the witnesses to show that the named
  hypotheses (\<open>hex_ok\<close>, \<open>hex_digits_ok\<close>, \<open>json_ok\<close>, \<open>dalek_ok\<close>) can hold
  together. Words are written bit by bit, strings are real hexadecimal, hashing pads or cuts to
  32 bytes, and a signature is the first 64 bytes of key and message. None of this models
  the third-party crates; theorems about the program are stated for every instance.
\<close>

section \<open>Words as bit lists\<close>

definition demo_word :: "'a::len word \<Rightarrow> bytes" where
  "demo_word w = map (\<lambda>i. if bit w i then 1 else 0) [0..<LENGTH('a)]"

definition demo_unword :: "bytes \<Rightarrow> 'a::len word" where
  "demo_unword bs = horner_sum of_bool 2 (map (\<lambda>b. b = 1) bs)"

lemma length_demo_word [simp]: "length (demo_word (w :: 'a::len word)) = LENGTH('a)"
  by (simp add: demo_word_def)

lemma demo_unword_word [simp]: "demo_unword (demo_word w) = (w :: 'a::len word)"
proof -
  have "demo_unword (demo_word w) = (horner_sum of_bool 2 (map (bit w) [0..<LENGTH('a)]) :: 'a word)"
    by (simp add: demo_unword_def demo_word_def comp_def if_distrib [of "\<lambda>b. b = 1"] cong: if_cong)
  also have "\<dots> = w"
    by (simp add: horner_sum_bit_eq_take_bit)
  finally show ?thesis .
qed

section \<open>Byte lists with an end mark\<close>

fun demo_list :: "bytes \<Rightarrow> bytes" where
  "demo_list [] = [0]"
| "demo_list (b # bs) = 1 # b # demo_list bs"

fun demo_unlist :: "bytes \<Rightarrow> bytes \<times> bytes" where
  "demo_unlist (t # b # bs) =
     (if t = 1 then case demo_unlist bs of (xs, rest) \<Rightarrow> (b # xs, rest) else ([], b # bs))"
| "demo_unlist bs = ([], tl bs)"

lemma demo_unlist_list [simp]: "demo_unlist (demo_list xs @ rest) = (xs, rest)"
  by (induction xs) (cases rest, simp_all)

lemma demo_unlist_list_Nil [simp]: "demo_unlist (demo_list xs) = (xs, [])"
  using demo_unlist_list [of xs "[]"] by simp

section \<open>Hexadecimal\<close>

definition demo_digit :: "nat \<Rightarrow> char" where
  "demo_digit n = ''0123456789abcdef'' ! n"

definition demo_undigit :: "char \<Rightarrow> nat option" where
  "demo_undigit c = List.find (\<lambda>n. demo_digit n = c) [0..<16]"

fun demo_hex :: "bytes \<Rightarrow> string" where
  "demo_hex [] = []"
| "demo_hex (b # bs) = demo_digit (unat b div 16) # demo_digit (unat b mod 16) # demo_hex bs"

fun demo_unhex :: "string \<Rightarrow> bytes option" where
  "demo_unhex [] = Some []"
| "demo_unhex [c] = None"
| "demo_unhex (c # d # cs) =
     (case (demo_undigit c, demo_undigit d, demo_unhex cs) of
        (Some h, Some l, Some bs) \<Rightarrow> Some (word_of_nat (16 * h + l) # bs)
      | _ \<Rightarrow> None)"

lemma demo_undigit_digit: "n < 16 \<Longrightarrow> demo_undigit (demo_digit n) = Some n"
proof -
  have "\<forall>n\<in>set [0..<16]. demo_undigit (demo_digit n) = Some n"
    by code_simp
  then show "n < 16 \<Longrightarrow> demo_undigit (demo_digit n) = Some n" by simp
qed

lemma demo_digit_hex: "n < 16 \<Longrightarrow> demo_digit n \<in> set ''0123456789abcdef''"
  unfolding demo_digit_def by (rule nth_mem) simp

lemma u8_nibbles: "unat (b :: u8) div 16 < 16"
  using unat_less_bound [of b] by (simp add: less_mult_imp_div_less)

lemma demo_unhex_hex: "demo_unhex (demo_hex bs) = Some bs"
  by (induction bs) (simp_all add: demo_undigit_digit u8_nibbles)

lemma demo_hex_digits: "set (demo_hex bs) \<subseteq> set ''0123456789abcdef''"
proof (induction bs)
  case Nil
  then show ?case by simp
next
  case (Cons b bs)
  then show ?case
    using demo_digit_hex [of "unat b div 16"] demo_digit_hex [of "unat b mod 16"] u8_nibbles [of b]
    by simp
qed

section \<open>Serialisation\<close>

definition demo_account :: "Account \<Rightarrow> bytes" where
  "demo_account a = demo_word (acc_balance a) @ demo_word (acc_nonce a)"

definition demo_unaccount :: "bytes \<Rightarrow> Account option" where
  "demo_unaccount bs = Some \<lparr>acc_balance = demo_unword (take 128 bs), acc_nonce = demo_unword (drop 128 bs)\<rparr>"

definition demo_delegation :: "Delegation \<Rightarrow> bytes" where
  "demo_delegation d =
     (if dlg_unbonding d then 1 else 0) # demo_word (dlg_amount d) @ demo_word (dlg_unbond_end_height d)"

definition demo_undelegation :: "bytes \<Rightarrow> Delegation option" where
  "demo_undelegation bs =
     Some \<lparr>dlg_amount = demo_unword (take 128 (tl bs)), dlg_unbonding = (hd bs = 1),
           dlg_unbond_end_height = demo_unword (drop 128 (tl bs))\<rparr>"

definition demo_status :: "ValidatorStatus \<Rightarrow> u8" where
  "demo_status s = (case s of Active \<Rightarrow> 0 | Jailed \<Rightarrow> 1 | Unbonding \<Rightarrow> 2)"

definition demo_unstatus :: "u8 \<Rightarrow> ValidatorStatus" where
  "demo_unstatus b = (if b = 0 then Active else if b = 1 then Jailed else Unbonding)"

lemma demo_unstatus_status [simp]: "demo_unstatus (demo_status s) = s"
  by (cases s) (simp_all add: demo_status_def demo_unstatus_def)

definition demo_validator :: "ValidatorRecord \<Rightarrow> bytes" where
  "demo_validator r = demo_status (vr_status r) # bytes_of (vr_address r) @
     demo_word (vr_self_stake r) @ demo_word (vr_delegated_stake r) @ demo_word (vr_commission_bps r) @
     demo_word (vr_jailed_until r) @ demo_word (vr_pending_rewards r) @ vr_consensus_pubkey r"

definition demo_unvalidator :: "bytes \<Rightarrow> ValidatorRecord option" where
  "demo_unvalidator b = (let bs = tl b in
     Some \<lparr>vr_address = array32 (take 32 bs), vr_consensus_pubkey = drop 496 bs,
           vr_self_stake = demo_unword (take 128 (drop 32 bs)),
           vr_delegated_stake = demo_unword (take 128 (drop 160 bs)),
           vr_commission_bps = demo_unword (take 16 (drop 288 bs)),
           vr_status = demo_unstatus (hd b),
           vr_jailed_until = demo_unword (take 64 (drop 304 bs)),
           vr_pending_rewards = demo_unword (take 128 (drop 368 bs))\<rparr>)"

fun demo_staking_op :: "StakingOperation \<Rightarrow> bytes" where
  "demo_staking_op (RegisterValidator pk bps stake) = 0 # demo_word bps @ demo_word stake @ pk"
| "demo_staking_op (Delegate v amount) = 1 # bytes_of v @ demo_word amount"
| "demo_staking_op (Undelegate v amount) = 2 # bytes_of v @ demo_word amount"

definition demo_unstaking_op :: "bytes \<Rightarrow> StakingOperation option" where
  "demo_unstaking_op b = (let bs = tl b in
     if b = [] then None
     else if hd b = 0 then Some (RegisterValidator (drop 144 bs) (demo_unword (take 16 bs)) (demo_unword (take 128 (drop 16 bs))))
     else if hd b = 1 then Some (Delegate (array32 (take 32 bs)) (demo_unword (drop 32 bs)))
     else Some (Undelegate (array32 (take 32 bs)) (demo_unword (drop 32 bs))))"

definition demo_vote :: "Vote \<Rightarrow> bytes" where
  "demo_vote v = bytes_of (vote_block_hash v) @ bytes_of (vote_voter v) @
     demo_word (vote_height v) @ demo_word (vote_round v)"

definition demo_unvote :: "bytes \<Rightarrow> Vote option" where
  "demo_unvote bs = Some
     \<lparr>vote_block_hash = array32 (take 32 bs), vote_height = demo_unword (take 64 (drop 64 bs)),
      vote_round = demo_unword (drop 128 bs), vote_voter = array32 (take 32 (drop 32 bs))\<rparr>"

definition demo_transaction :: "Transaction \<Rightarrow> bytes" where
  "demo_transaction tx = ucast (tx_nonce tx) # ucast (tx_amount tx) # ucast (tx_fee tx) # tx_payload tx"

definition demo_header :: "BlockHeader \<Rightarrow> bytes" where
  "demo_header h = ucast (bh_height h) # ucast (bh_timestamp h) # bytes_of (bh_state_root h)"

definition demo_snapshot :: "(string, bytes) omap \<Rightarrow> bytes" where
  "demo_snapshot m = concat (om_values m)"

definition demo_externs :: externs where
  "demo_externs =
     \<lparr>blake3_hash = array32,
      dalek_public = (\<lambda>sk. sk),
      dalek_valid_key = (\<lambda>pk. True),
      dalek_sign = (\<lambda>sk msg. take 64 (sk @ msg @ replicate 64 0)),
      dalek_verify = (\<lambda>pk msg sig. sig = take 64 (pk @ msg @ replicate 64 0)),
      hex_encode = demo_hex, hex_decode = demo_unhex,
      json_account = demo_account, unjson_account = demo_unaccount,
      json_validator = demo_validator, unjson_validator = demo_unvalidator,
      json_delegation = demo_delegation, unjson_delegation = demo_undelegation,
      json_staking_op = demo_staking_op, unjson_staking_op = demo_unstaking_op,
      json_vote = demo_vote, unjson_vote = demo_unvote,
      json_transaction = demo_transaction,
      json_transactions = (\<lambda>txs. concat (map demo_transaction txs)),
      json_header = demo_header, json_snapshot = demo_snapshot\<rparr>"

lemma demo_hex_ok: "hex_ok demo_externs"
  by (simp add: hex_ok_def demo_externs_def demo_unhex_hex)

lemma demo_hex_digits_ok: "hex_digits_ok demo_externs"
  using demo_hex_digits by (simp only: hex_digits_ok_def demo_externs_def externs.simps) blast

lemma demo_json_ok: "json_ok demo_externs"
proof -
  have "demo_unstaking_op (demo_staking_op x) = Some x" for x
    by (cases x) (simp_all add: demo_unstaking_op_def)
  then show ?thesis
    by (simp add: json_ok_def demo_externs_def demo_account_def demo_unaccount_def
        demo_delegation_def demo_undelegation_def demo_validator_def demo_unvalidator_def
        demo_vote_def demo_unvote_def)
qed

lemma demo_dalek_ok: "dalek_ok demo_externs"
  by (auto simp: dalek_ok_def demo_externs_def min_def)

theorem address_string_roundtrip_witness:
  "hex_ok demo_externs \<and> hex_digits_ok demo_externs \<and>
   Address_from_str demo_externs (Address_to_string demo_externs (array32 [7, 255])) = Inr (array32 [7, 255])"
  using address_string_roundtrip [OF demo_hex_ok demo_hex_digits_ok, of "array32 [7, 255]"]
    demo_hex_ok demo_hex_digits_ok by simp

end
