(* ===== verification/Crypto.thy ===== *)
theory Crypto
  imports Demo_Externs
begin

text \<open>
  Model of src/crates/pemrix-crypto: the trait \<open>SignatureScheme\<close> as a record of its methods, the
  Ed25519 scheme and the hybrid scheme built from a classical and an optional post-quantum one.
  Randomness is an argument: \<open>generate_keypair\<close> takes the secret bytes the generator drew.
  \<open>PublicKey\<close>, \<open>SecretKey\<close> and \<open>Signature\<close> are newtypes over byte vectors.
\<close>

section \<open>Keys, errors and the scheme trait\<close>

datatype CryptoError =
  VerificationFailed | InvalidKey | RngFailed | UnsupportedAlgorithm | HybridMismatch

record KeyPair =
  kp_public :: bytes
  kp_secret :: bytes

record SignatureScheme =
  sc_generate_keypair :: "bytes32 \<Rightarrow> CryptoError + KeyPair"
  sc_sign :: "bytes \<Rightarrow> bytes \<Rightarrow> CryptoError + bytes"
  sc_verify :: "bytes \<Rightarrow> bytes \<Rightarrow> bytes \<Rightarrow> CryptoError + unit"
  sc_algorithm_id :: string

section \<open>Ed25519\<close>

definition try_into :: "nat \<Rightarrow> 'e \<Rightarrow> bytes \<Rightarrow> 'e + bytes" where
  "try_into n e bs = (if length bs = n then Inr bs else Inl e)"

definition keypair_of_secret :: "externs \<Rightarrow> bytes32 \<Rightarrow> KeyPair" where
  "keypair_of_secret E sk = \<lparr>kp_public = dalek_public E (bytes_of sk), kp_secret = bytes_of sk\<rparr>"

definition keypair_from_seed :: "externs \<Rightarrow> bytes \<Rightarrow> CryptoError + KeyPair" where
  "keypair_from_seed E seed = Inr (keypair_of_secret E (blake3_hash E seed))"

definition ed25519_generate_keypair :: "externs \<Rightarrow> bytes32 \<Rightarrow> CryptoError + KeyPair" where
  "ed25519_generate_keypair E rng = Inr (keypair_of_secret E rng)"

definition ed25519_sign :: "externs \<Rightarrow> bytes \<Rightarrow> bytes \<Rightarrow> CryptoError + bytes" where
  "ed25519_sign E secret msg =
     bind_result (try_into 32 InvalidKey secret) (\<lambda>sk. Inr (dalek_sign E sk msg))"

definition ed25519_verify :: "externs \<Rightarrow> bytes \<Rightarrow> bytes \<Rightarrow> bytes \<Rightarrow> CryptoError + unit" where
  "ed25519_verify E public msg signature =
     bind_result (try_into 32 InvalidKey public) (\<lambda>pk.
     if \<not> dalek_valid_key E pk then Inl InvalidKey
     else bind_result (try_into 64 InvalidKey signature) (\<lambda>sig.
       if dalek_verify E pk msg sig then Inr () else Inl VerificationFailed))"

definition ed25519_scheme :: "externs \<Rightarrow> SignatureScheme" where
  "ed25519_scheme E =
     \<lparr>sc_generate_keypair = ed25519_generate_keypair E, sc_sign = ed25519_sign E,
      sc_verify = ed25519_verify E, sc_algorithm_id = ''ed25519''\<rparr>"

section \<open>Hybrid signatures\<close>

record HybridSignature =
  hs_classical :: bytes
  hs_post_quantum :: "bytes option"
  hs_classical_algorithm :: string
  hs_post_quantum_algorithm :: "string option"

definition default_hybrid :: HybridSignature where
  "default_hybrid =
     \<lparr>hs_classical = [], hs_post_quantum = None, hs_classical_algorithm = [], hs_post_quantum_algorithm = None\<rparr>"

definition hybrid_classical :: "string \<Rightarrow> bytes \<Rightarrow> HybridSignature" where
  "hybrid_classical alg sig =
     \<lparr>hs_classical = sig, hs_post_quantum = None, hs_classical_algorithm = alg, hs_post_quantum_algorithm = None\<rparr>"

definition hybrid_full :: "string \<Rightarrow> bytes \<Rightarrow> string \<Rightarrow> bytes \<Rightarrow> HybridSignature" where
  "hybrid_full calg csig pqalg pqsig =
     \<lparr>hs_classical = csig, hs_post_quantum = Some pqsig, hs_classical_algorithm = calg,
      hs_post_quantum_algorithm = Some pqalg\<rparr>"

definition is_post_quantum :: "HybridSignature \<Rightarrow> bool" where
  "is_post_quantum h = (hs_post_quantum h \<noteq> None)"

text \<open>\<open>serde_json::to_vec\<close> and \<open>from_slice\<close> at the type \<open>HybridSignature\<close>; both conversions fall
  back to the default value on an error.\<close>

record hybrid_codec =
  json_hybrid :: "HybridSignature \<Rightarrow> bytes option"
  unjson_hybrid :: "bytes \<Rightarrow> HybridSignature option"

definition Signature_from_hybrid :: "hybrid_codec \<Rightarrow> HybridSignature \<Rightarrow> bytes" where
  "Signature_from_hybrid J h = (case json_hybrid J h of None \<Rightarrow> [] | Some bs \<Rightarrow> bs)"

definition Hybrid_from_signature :: "hybrid_codec \<Rightarrow> bytes \<Rightarrow> HybridSignature" where
  "Hybrid_from_signature J s = (case unjson_hybrid J s of None \<Rightarrow> default_hybrid | Some h \<Rightarrow> h)"

record HybridScheme =
  hy_classical :: SignatureScheme
  hy_post_quantum :: "SignatureScheme option"

definition hybrid_generate_keypair :: "HybridScheme \<Rightarrow> bytes32 \<Rightarrow> CryptoError + KeyPair" where
  "hybrid_generate_keypair S rng = sc_generate_keypair (hy_classical S) rng"

definition hybrid_sign :: "hybrid_codec \<Rightarrow> HybridScheme \<Rightarrow> bytes \<Rightarrow> bytes \<Rightarrow> CryptoError + bytes" where
  "hybrid_sign J S secret msg =
     bind_result (sc_sign (hy_classical S) secret msg) (\<lambda>sig.
     Inr (Signature_from_hybrid J (hybrid_classical (sc_algorithm_id (hy_classical S)) sig)))"

definition hybrid_verify :: "hybrid_codec \<Rightarrow> HybridScheme \<Rightarrow> bytes \<Rightarrow> bytes \<Rightarrow> bytes \<Rightarrow> CryptoError + unit" where
  "hybrid_verify J S public msg signature =
     (let h = Hybrid_from_signature J signature in
      bind_result (sc_verify (hy_classical S) public msg (hs_classical h)) (\<lambda>_.
      case (hy_post_quantum S, hs_post_quantum h) of
        (Some pq, Some pqsig) \<Rightarrow> bind_result (sc_verify pq public msg pqsig) (\<lambda>_. Inr ())
      | _ \<Rightarrow> Inr ()))"

definition hybrid_scheme :: "hybrid_codec \<Rightarrow> HybridScheme \<Rightarrow> SignatureScheme" where
  "hybrid_scheme J S =
     \<lparr>sc_generate_keypair = hybrid_generate_keypair S, sc_sign = hybrid_sign J S,
      sc_verify = hybrid_verify J S, sc_algorithm_id = ''hybrid''\<rparr>"

section \<open>Sign and verify\<close>

text \<open>The documented round trip of the encoding the hybrid scheme uses.\<close>

definition hybrid_codec_ok :: "hybrid_codec \<Rightarrow> bool" where
  "hybrid_codec_ok J \<longleftrightarrow> (\<forall>h. \<exists>bs. json_hybrid J h = Some bs \<and> unjson_hybrid J bs = Some h)"

lemma Hybrid_from_signature_roundtrip:
  assumes "hybrid_codec_ok J"
  shows "Hybrid_from_signature J (Signature_from_hybrid J h) = h"
  using assms by (auto simp: hybrid_codec_ok_def Signature_from_hybrid_def Hybrid_from_signature_def
      split: option.splits) (metis option.distinct(1) option.inject)+

lemma ed25519_sign_verify:
  assumes "dalek_ok E"
  shows "\<exists>sig. ed25519_sign E (bytes_of sk) msg = Inr sig \<and> length sig = 64 \<and>
     ed25519_verify E (kp_public (keypair_of_secret E sk)) msg sig = Inr ()"
  using dalek_okD [OF assms, of "bytes_of sk"]
  by (simp add: ed25519_sign_def ed25519_verify_def try_into_def keypair_of_secret_def)

lemma ed25519_verify_Inr:
  "ed25519_verify E pk msg sig = Inr u \<longleftrightarrow>
     length pk = 32 \<and> length sig = 64 \<and> dalek_valid_key E pk \<and> dalek_verify E pk msg sig"
  by (auto simp: ed25519_verify_def try_into_def)

text \<open>
  C36. What a hybrid scheme over Ed25519 requires of a signature. A signature with both components is accepted when both verify, the
  post-quantum one whenever a post-quantum scheme is configured. But the signature \<open>sign\<close> produces has a classical component only, and it is
  accepted whatever post-quantum scheme is configured, even one that rejects everything: with both required, as the hybrid era is documented, this
  signature would have to be refused.
\<close>

theorem hybrid_sign_verify:
  assumes "dalek_ok E" "hybrid_codec_ok J"
    and "hybrid_generate_keypair \<lparr>hy_classical = ed25519_scheme E, hy_post_quantum = pq\<rparr> rng = Inr kp"
  shows "\<exists>sig. hybrid_sign J \<lparr>hy_classical = ed25519_scheme E, hy_post_quantum = pq\<rparr> (kp_secret kp) msg = Inr sig
       \<and> \<not> is_post_quantum (Hybrid_from_signature J sig)
       \<and> hybrid_verify J \<lparr>hy_classical = ed25519_scheme E, hy_post_quantum = pq\<rparr> (kp_public kp) msg sig = Inr ()
       \<and> (\<forall>pk c q ca pa. hybrid_verify J \<lparr>hy_classical = ed25519_scheme E, hy_post_quantum = pq\<rparr> pk msg
              (Signature_from_hybrid J (hybrid_full ca c pa q)) = Inr ()
            \<longleftrightarrow> ed25519_verify E pk msg c = Inr () \<and> (case pq of None \<Rightarrow> True | Some P \<Rightarrow> sc_verify P pk msg q = Inr ()))"
proof -
  have kp: "kp = keypair_of_secret E rng"
    using assms(3) by (simp add: hybrid_generate_keypair_def ed25519_scheme_def ed25519_generate_keypair_def)
  obtain sig where "ed25519_sign E (bytes_of rng) msg = Inr sig"
    "ed25519_verify E (kp_public (keypair_of_secret E rng)) msg sig = Inr ()"
    using ed25519_sign_verify [OF assms(1)] by blast
  moreover have "hybrid_verify J \<lparr>hy_classical = ed25519_scheme E, hy_post_quantum = pq\<rparr> pk msg (Signature_from_hybrid J (hybrid_full ca c pa q)) = Inr ()
      \<longleftrightarrow> ed25519_verify E pk msg c = Inr () \<and> (case pq of None \<Rightarrow> True | Some P \<Rightarrow> sc_verify P pk msg q = Inr ())" for pk c q ca pa
    by (auto simp: hybrid_verify_def ed25519_scheme_def hybrid_full_def Hybrid_from_signature_roundtrip [OF assms(2)] bind_result_eq_Inr
        split: option.splits)
  ultimately show ?thesis
    by (simp add: kp hybrid_sign_def hybrid_verify_def ed25519_scheme_def keypair_of_secret_def
        Hybrid_from_signature_roundtrip [OF assms(2)] hybrid_classical_def is_post_quantum_def split: option.splits)
qed

definition demo_optional :: "bytes option \<Rightarrow> bytes" where
  "demo_optional x = (case x of None \<Rightarrow> [0, 0] | Some s \<Rightarrow> 1 # demo_list s)"

definition demo_unoptional :: "bytes \<Rightarrow> bytes option \<times> bytes" where
  "demo_unoptional bs = (if hd bs = 1 then map_prod Some id (demo_unlist (tl bs)) else (None, drop 2 bs))"

definition demo_string :: "string \<Rightarrow> bytes" where
  "demo_string s = map (\<lambda>c. word_of_nat (of_char c)) s"

definition demo_unstring :: "bytes \<Rightarrow> string" where
  "demo_unstring bs = map (\<lambda>b. char_of (unat b)) bs"

definition demo_hybrid_codec :: hybrid_codec where
  "demo_hybrid_codec =
     \<lparr>json_hybrid = (\<lambda>h. Some (demo_list (hs_classical h) @ demo_optional (hs_post_quantum h) @
        demo_list (demo_string (hs_classical_algorithm h)) @
        demo_optional (map_option demo_string (hs_post_quantum_algorithm h)))),
      unjson_hybrid = (\<lambda>bs.
        let (c, r1) = demo_unlist bs; (pq, r2) = demo_unoptional r1; (ca, r3) = demo_unlist r2;
            (pa, r4) = demo_unoptional r3
        in Some \<lparr>hs_classical = c, hs_post_quantum = pq, hs_classical_algorithm = demo_unstring ca,
              hs_post_quantum_algorithm = map_option demo_unstring pa\<rparr>)\<rparr>"

lemma demo_unoptional_optional [simp]: "demo_unoptional (demo_optional x @ r) = (x, r)"
  by (cases x) (simp_all add: demo_optional_def demo_unoptional_def)

lemma demo_unoptional_optional_Nil [simp]: "demo_unoptional (demo_optional x) = (x, [])"
  using demo_unoptional_optional [of x "[]"] by simp

lemma demo_unstring_string [simp]: "demo_unstring (demo_string s) = s"
proof -
  have "unat (word_of_nat (of_char c) :: u8) = of_char c" for c
  proof -
    have "(of_char c :: nat) < 2 ^ LENGTH(8)" using nat_of_char_less_256 [of c] by simp
    then show ?thesis by (simp add: unsigned_of_nat take_bit_nat_eq_self)
  qed
  then show ?thesis by (simp add: demo_unstring_def demo_string_def comp_def)
qed

lemma demo_hybrid_codec_ok: "hybrid_codec_ok demo_hybrid_codec"
  by (simp add: hybrid_codec_ok_def demo_hybrid_codec_def option.map_comp comp_def option.map_ident)

text \<open>A post-quantum scheme that accepts nothing.\<close>

definition demo_strict :: SignatureScheme where
  "demo_strict =
     \<lparr>sc_generate_keypair = (\<lambda>_. Inl InvalidKey), sc_sign = (\<lambda>_ _. Inl InvalidKey), sc_verify = (\<lambda>_ _ _. Inl VerificationFailed),
      sc_algorithm_id = ''strict''\<rparr>"

theorem hybrid_sign_verify_witness:
  "(\<exists>sig. hybrid_verify demo_hybrid_codec \<lparr>hy_classical = ed25519_scheme demo_externs, hy_post_quantum = Some demo_strict\<rparr>
      (bytes_of (array32 [5])) [1, 2] sig = Inr ())
   \<and> hybrid_verify demo_hybrid_codec \<lparr>hy_classical = ed25519_scheme demo_externs, hy_post_quantum = Some demo_strict\<rparr>
      (bytes_of (array32 [5])) [1, 2] (Signature_from_hybrid demo_hybrid_codec (hybrid_full ''ed25519'' [7] ''strict'' [8])) \<noteq> Inr ()"
proof -
  have "hybrid_generate_keypair \<lparr>hy_classical = ed25519_scheme demo_externs, hy_post_quantum = Some demo_strict\<rparr>
      (array32 [5]) = Inr \<lparr>kp_public = bytes_of (array32 [5]), kp_secret = bytes_of (array32 [5])\<rparr>"
    by (simp add: hybrid_generate_keypair_def ed25519_scheme_def ed25519_generate_keypair_def
        keypair_of_secret_def demo_externs_def)
  from hybrid_sign_verify [OF demo_dalek_ok demo_hybrid_codec_ok this, of "[1, 2]"]
  show ?thesis by (auto simp: demo_strict_def)
qed

end
