(* ===== verification/Vm.thy ===== *)
theory Vm
  imports Storage Crypto
begin

text \<open>
  Model of src/crates/pemrix-vm: gas, the native, staking, WASM and block executors. An executor's
  \<open>execute\<close> is an action on the backend's state, so that what a call wrote before it returned an
  error stays written. The error type's \<open>Storage\<close> variant is \<open>StorageFailure\<close> here.
\<close>

section \<open>Gas, results and errors\<close>

type_synonym Gas = u64

definition Gas_new :: "u64 \<Rightarrow> Gas" where
  "Gas_new amount = amount"

definition consume :: "Gas \<Rightarrow> u64 \<Rightarrow> bool \<times> Gas" where
  "consume g amount = (if g < amount then (False, g) else (True, g - amount))"

definition remaining :: "Gas \<Rightarrow> u64" where
  "remaining g = g"

record ExecutionResult =
  er_success :: bool
  er_gas_used :: Gas
  er_message :: string

datatype VmError =
    InsufficientBalance
  | InvalidNonce
  | OutOfGas
  | InvalidContract
  | InvalidSignature
  | StorageFailure
  | UnknownOperation
  | Execution string

definition failure :: "string \<Rightarrow> ExecutionResult" where
  "failure msg = \<lparr>er_success = False, er_gas_used = Gas_new 0, er_message = msg\<rparr>"

definition success :: "u64 \<Rightarrow> string \<Rightarrow> ExecutionResult" where
  "success gas msg = \<lparr>er_success = True, er_gas_used = Gas_new gas, er_message = msg\<rparr>"

abbreviation query_store :: "('s \<Rightarrow> StorageError + 'a) \<Rightarrow> ('s, VmError, 'a) action" where
  "query_store q \<equiv> act_map_err (\<lambda>_. StorageFailure) (act_query q)"

abbreviation write_store :: "('s, StorageError, 'a) action \<Rightarrow> ('s, VmError, 'a) action" where
  "write_store m \<equiv> act_map_err (\<lambda>_. StorageFailure) m"

section \<open>Signatures\<close>

definition verify_signature :: "externs \<Rightarrow> Transaction \<Rightarrow> VmError + unit" where
  "verify_signature E tx =
     (if length (tx_public_key tx) \<noteq> 32 then Inl InvalidSignature
      else if length (tx_signature tx) \<noteq> 64 then Inl InvalidSignature
      else if bytes_of (hash_bytes E (tx_public_key tx)) \<noteq> bytes_of (tx_sender tx) then Inl InvalidSignature
      else map_err (\<lambda>_. InvalidSignature)
        (ed25519_verify E (tx_public_key tx) (bytes_of (signing_hash E tx)) (tx_signature tx)))"

section \<open>Native executor\<close>

definition native_verify_signature :: "externs \<Rightarrow> Transaction \<Rightarrow> VmError + unit" where
  "native_verify_signature E tx =
     (if length (tx_public_key tx) \<noteq> 32 then Inl InvalidSignature
      else if length (tx_signature tx) \<noteq> 64 then Inl InvalidSignature
      else if bytes_of (hash_bytes E (tx_public_key tx)) \<noteq> bytes_of (tx_sender tx) then Inl InvalidSignature
      else map_err (\<lambda>_. InvalidSignature)
        (ed25519_verify E (tx_public_key tx) (bytes_of (signing_hash E tx)) (tx_signature tx)))"

definition native_execute :: "externs \<Rightarrow> 'b StateBackend \<Rightarrow> Transaction \<Rightarrow> ('b, VmError, ExecutionResult) action" where
  "native_execute E B tx =
     act_bind (act_lift (native_verify_signature E tx)) (\<lambda>_.
     act_bind (query_store (\<lambda>s. store_balance B s (tx_sender tx))) (\<lambda>sender_balance.
     act_bind (query_store (\<lambda>s. store_nonce B s (tx_sender tx))) (\<lambda>sender_nonce.
     if sender_nonce \<noteq> tx_nonce tx then act_return (failure ''invalid nonce'')
     else
       act_bind (act_lift (ok_or InsufficientBalance (checked_add (tx_amount tx) (tx_fee tx)))) (\<lambda>tot.
       if sender_balance < tot then act_return (failure ''insufficient balance'')
       else
         act_bind (write_store (store_transfer B (tx_sender tx) (tx_recipient tx) (tx_amount tx) (tx_fee tx))) (\<lambda>_.
         act_return (success 21000 ''ok''))))))"

section \<open>Staking executor\<close>

definition MIN_SELF_STAKE :: balance where "MIN_SELF_STAKE = 10000"

definition MIN_DELEGATION :: balance where "MIN_DELEGATION = 1"

definition staking_encode :: "externs \<Rightarrow> StakingOperation \<Rightarrow> bytes" where
  "staking_encode E x = 1 # json_staking_op E x"

definition staking_decode :: "externs \<Rightarrow> bytes \<Rightarrow> VmError + StakingOperation" where
  "staking_decode E payload =
     (if length payload < 2 \<or> payload ! 0 \<noteq> 1 then Inl InvalidContract
      else ok_or InvalidContract (unjson_staking_op E (drop 1 payload)))"

definition staking_register ::
    "externs \<Rightarrow> 'b StateBackend \<Rightarrow> address \<Rightarrow> bytes \<Rightarrow> u16 \<Rightarrow> balance \<Rightarrow> ('b, VmError, ExecutionResult) action" where
  "staking_register E B sender pk bps stake =
     (if pk = [] then act_throw InvalidContract
      else if bps > 10000 then act_throw InvalidContract
      else if stake < MIN_SELF_STAKE then act_throw InvalidContract
      else
        act_bind (query_store (\<lambda>s. validator_record E B s sender)) (\<lambda>r.
        if r \<noteq> None then act_throw InvalidContract
        else
          act_bind (query_store (\<lambda>s. store_balance B s sender)) (\<lambda>bal.
          if bal < stake then act_throw InsufficientBalance
          else
            act_bind (query_store (\<lambda>s. get_account B s sender)) (\<lambda>x.
            let account = unwrap_account x in
            act_bind (write_store (set_account B sender (account\<lparr>acc_balance := acc_balance account - stake\<rparr>))) (\<lambda>_.
            act_bind (write_store (set_validator_record E B sender (ValidatorRecord_new sender pk stake bps))) (\<lambda>_.
            act_return (success 50000 ''validator registered'')))))))"

definition staking_delegate ::
    "externs \<Rightarrow> 'b StateBackend \<Rightarrow> address \<Rightarrow> address \<Rightarrow> balance \<Rightarrow> ('b, VmError, ExecutionResult) action" where
  "staking_delegate E B sender validator amount =
     (if amount < MIN_DELEGATION then act_throw InvalidContract
      else
        act_bind (query_store (\<lambda>s. validator_record E B s validator)) (\<lambda>r.
        act_bind (act_lift (ok_or InvalidContract r)) (\<lambda>rec.
        if vr_status rec \<noteq> Active then act_throw InvalidContract
        else
          act_bind (query_store (\<lambda>s. store_balance B s sender)) (\<lambda>bal.
          if bal < amount then act_throw InsufficientBalance
          else
            act_bind (query_store (\<lambda>s. get_account B s sender)) (\<lambda>x.
            let account = unwrap_account x in
            act_bind (write_store (set_account B sender (account\<lparr>acc_balance := acc_balance account - amount\<rparr>))) (\<lambda>_.
            act_bind (write_store (set_validator_record E B validator
              (rec\<lparr>vr_delegated_stake := vr_delegated_stake rec + amount\<rparr>))) (\<lambda>_.
            act_bind (query_store (\<lambda>s. delegation E B s sender validator)) (\<lambda>y.
            let dlg = (case y of None \<Rightarrow> default_delegation | Some d \<Rightarrow> d) in
            act_bind (write_store (set_delegation E B sender validator (dlg\<lparr>dlg_amount := dlg_amount dlg + amount\<rparr>))) (\<lambda>_.
            act_return (success 30000 ''delegated''))))))))))"

definition staking_undelegate ::
    "externs \<Rightarrow> 'b StateBackend \<Rightarrow> address \<Rightarrow> address \<Rightarrow> balance \<Rightarrow> ('b, VmError, ExecutionResult) action" where
  "staking_undelegate E B sender validator amount =
     act_bind (query_store (\<lambda>s. delegation E B s sender validator)) (\<lambda>y.
     act_bind (act_lift (ok_or InvalidContract y)) (\<lambda>dlg.
     if dlg_amount dlg < amount then act_throw InsufficientBalance
     else
       act_bind (query_store (\<lambda>s. validator_record E B s validator)) (\<lambda>r.
       act_bind (act_lift (ok_or InvalidContract r)) (\<lambda>rec.
       act_bind (write_store (set_validator_record E B validator
         (rec\<lparr>vr_delegated_stake := saturating_sub (vr_delegated_stake rec) amount\<rparr>))) (\<lambda>_.
       let rest = dlg\<lparr>dlg_amount := dlg_amount dlg - amount\<rparr> in
       act_bind (if dlg_amount rest = 0 then write_store (delete_delegation B sender validator)
                 else write_store (set_delegation E B sender validator rest)) (\<lambda>_.
       act_bind (query_store (\<lambda>s. get_account B s sender)) (\<lambda>x.
       let account = unwrap_account x in
       act_bind (write_store (set_account B sender (account\<lparr>acc_balance := acc_balance account + amount\<rparr>))) (\<lambda>_.
       act_return (success 30000 ''undelegated'')))))))))"

definition staking_execute :: "externs \<Rightarrow> 'b StateBackend \<Rightarrow> Transaction \<Rightarrow> ('b, VmError, ExecutionResult) action" where
  "staking_execute E B tx =
     act_bind (act_lift (staking_decode E (tx_payload tx))) (\<lambda>x.
     case x of
       RegisterValidator pk bps stake \<Rightarrow> staking_register E B (tx_sender tx) pk bps stake
     | Delegate validator amount \<Rightarrow> staking_delegate E B (tx_sender tx) validator amount
     | Undelegate validator amount \<Rightarrow> staking_undelegate E B (tx_sender tx) validator amount)"

section \<open>Block executor\<close>

text \<open>The two halves of \<open>execute\<close>: \<open>block_dispatch\<close> is what follows the comment
  ``Dispatch by payload prefix'', \<open>block_transfer\<close> its branch for an empty payload.\<close>

definition block_transfer :: "'b StateBackend \<Rightarrow> Transaction \<Rightarrow> ('b, VmError, ExecutionResult) action" where
  "block_transfer B tx =
     (if tx_amount tx > 0 then
        act_bind (query_store (\<lambda>s. get_account B s (tx_sender tx))) (\<lambda>y.
        let sender = unwrap_account y in
        if acc_balance sender < tx_amount tx
        then act_return (failure ''insufficient balance for transfer'')
        else
          act_bind (write_store (set_account B (tx_sender tx)
            (sender\<lparr>acc_balance := acc_balance sender - tx_amount tx\<rparr>))) (\<lambda>_.
          act_bind (write_store (transfer_amount_only B (tx_recipient tx) (tx_amount tx))) (\<lambda>_.
          act_return (success 21000 ''ok''))))
      else act_return (success 21000 ''ok''))"

definition block_dispatch :: "externs \<Rightarrow> 'b StateBackend \<Rightarrow> Transaction \<Rightarrow> ('b, VmError, ExecutionResult) action" where
  "block_dispatch E B tx =
     (if tx_payload tx = [] then block_transfer B tx
      else if tx_payload tx ! 0 = 1 then staking_execute E B tx
      else act_return (failure ''invalid contract''))"

definition block_execute :: "externs \<Rightarrow> 'b StateBackend \<Rightarrow> Transaction \<Rightarrow> ('b, VmError, ExecutionResult) action" where
  "block_execute E B tx =
     act_bind (act_lift (verify_signature E tx)) (\<lambda>_.
     act_bind (query_store (\<lambda>s. store_nonce B s (tx_sender tx))) (\<lambda>sender_nonce.
     if sender_nonce \<noteq> tx_nonce tx then act_return (failure ''invalid nonce'')
     else
       act_bind (query_store (\<lambda>s. store_balance B s (tx_sender tx))) (\<lambda>sender_balance.
       if sender_balance < tx_fee tx then act_return (failure ''insufficient balance for fee'')
       else
         act_bind (query_store (\<lambda>s. get_account B s (tx_sender tx))) (\<lambda>x.
         let sender = unwrap_account x in
         act_bind (write_store (set_account B (tx_sender tx)
           (sender\<lparr>acc_balance := acc_balance sender - tx_fee tx, acc_nonce := acc_nonce sender + 1\<rparr>))) (\<lambda>_.
         block_dispatch E B tx)))))"

section \<open>WASM executor\<close>

text \<open>wasmtime is a parameter: compiling a module, instantiating it, looking up an exported function
  of type \<open>() -> i32\<close> and calling it.\<close>

record ('m, 'i, 'f) wasmtime =
  wt_module :: "bytes \<Rightarrow> 'm option"
  wt_instantiate :: "'m \<Rightarrow> 'i option"
  wt_typed_func :: "'i \<Rightarrow> string \<Rightarrow> 'f option"
  wt_call :: "'f \<Rightarrow> u32 option"

definition run_contract :: "('m, 'i, 'f) wasmtime option \<Rightarrow> bytes \<Rightarrow> VmError + u32" where
  "run_contract W wasm =
     (case W of
        None \<Rightarrow> Inl InvalidContract
      | Some w \<Rightarrow>
          bind_result (ok_or InvalidContract (wt_module w wasm)) (\<lambda>m.
          bind_result (ok_or InvalidContract (wt_instantiate w m)) (\<lambda>i.
          bind_result (ok_or InvalidContract (wt_typed_func w i ''run'')) (\<lambda>run.
          ok_or (Execution ''contract trap'') (wt_call w run)))))"

definition wasm_execute ::
    "('m, 'i, 'f) wasmtime option \<Rightarrow> Transaction \<Rightarrow> ('b, VmError, ExecutionResult) action" where
  "wasm_execute W tx =
     (if tx_payload tx = [] then act_throw InvalidContract
      else
        act_bind (act_lift (run_contract W (tx_payload tx))) (\<lambda>r.
        act_return \<lparr>er_success = (r = 0), er_gas_used = Gas_new 100000,
          er_message = ''wasm contract returned '' @ int_to_string (sint r)\<rparr>))"

end
