(* ===== verification/Sdk.thy ===== *)
theory Sdk
  imports Vm
begin

text \<open>
  Model of \<open>TransactionBuilder\<close> and \<open>Wallet\<close> of src/crates/pemrix-sdk. \<open>sign\<close> panics where the source
  calls \<open>expect\<close> on a signing error. The theorem at the end connects the client side with the
  executor: what a wallet signs, the executor accepts.
\<close>

section \<open>Transaction builder\<close>

record TransactionBuilder =
  tb_sender :: address
  tb_recipient :: address
  tb_amount :: balance
  tb_nonce :: nonce
  tb_fee :: balance
  tb_payload :: bytes

definition TransactionBuilder_new :: TransactionBuilder where
  "TransactionBuilder_new =
     \<lparr>tb_sender = zero32, tb_recipient = zero32, tb_amount = 0, tb_nonce = 0, tb_fee = 0, tb_payload = []\<rparr>"

definition with_sender :: "address \<Rightarrow> TransactionBuilder \<Rightarrow> TransactionBuilder" where
  "with_sender a b = b\<lparr>tb_sender := a\<rparr>"

definition with_recipient :: "address \<Rightarrow> TransactionBuilder \<Rightarrow> TransactionBuilder" where
  "with_recipient a b = b\<lparr>tb_recipient := a\<rparr>"

definition with_amount :: "balance \<Rightarrow> TransactionBuilder \<Rightarrow> TransactionBuilder" where
  "with_amount x b = b\<lparr>tb_amount := x\<rparr>"

definition with_nonce :: "nonce \<Rightarrow> TransactionBuilder \<Rightarrow> TransactionBuilder" where
  "with_nonce n b = b\<lparr>tb_nonce := n\<rparr>"

definition with_fee :: "balance \<Rightarrow> TransactionBuilder \<Rightarrow> TransactionBuilder" where
  "with_fee x b = b\<lparr>tb_fee := x\<rparr>"

definition with_payload :: "bytes \<Rightarrow> TransactionBuilder \<Rightarrow> TransactionBuilder" where
  "with_payload p b = b\<lparr>tb_payload := p\<rparr>"

definition build :: "TransactionBuilder \<Rightarrow> Transaction" where
  "build b =
     \<lparr>tx_sender = tb_sender b, tx_recipient = tb_recipient b, tx_amount = tb_amount b, tx_nonce = tb_nonce b,
      tx_fee = tb_fee b, tx_public_key = [], tx_signature = [], tx_payload = tb_payload b\<rparr>"

definition sign :: "externs \<Rightarrow> KeyPair \<Rightarrow> TransactionBuilder \<Rightarrow> panic + Transaction" where
  "sign E kp b =
     (let tx = (build b)\<lparr>tx_public_key := kp_public kp\<rparr> in
      case ed25519_sign E (kp_secret kp) (bytes_of (signing_hash E tx)) of
        Inl _ \<Rightarrow> Inl (ExpectFailed ''signing should succeed'')
      | Inr s \<Rightarrow> Inr (tx\<lparr>tx_signature := s\<rparr>))"

section \<open>Wallet\<close>

text \<open>The error type has \<open>Rpc\<close> and \<open>InsufficientBalance\<close> as \<open>SdkRpc\<close> and \<open>SdkInsufficientBalance\<close>.\<close>

datatype SdkError = SdkRpc string | Signing | InvalidAddress | SdkInsufficientBalance

record Wallet =
  w_keypair :: KeyPair
  w_address :: address

definition Wallet_from_keypair :: "externs \<Rightarrow> KeyPair \<Rightarrow> Wallet" where
  "Wallet_from_keypair E kp =
     \<lparr>w_keypair = kp, w_address = from_public_key_hash (hash_bytes E (kp_public kp))\<rparr>"

definition Wallet_generate :: "externs \<Rightarrow> bytes32 \<Rightarrow> SdkError + Wallet" where
  "Wallet_generate E rng =
     bind_result (map_err (\<lambda>_. Signing) (ed25519_generate_keypair E rng)) (\<lambda>kp. Inr (Wallet_from_keypair E kp))"

definition wallet_transfer ::
    "externs \<Rightarrow> Wallet \<Rightarrow> address \<Rightarrow> balance \<Rightarrow> nonce \<Rightarrow> balance \<Rightarrow> panic + Transaction" where
  "wallet_transfer E w recipient amount n fee =
     sign E (w_keypair w) (with_fee fee (with_nonce n (with_amount amount
       (with_recipient recipient (with_sender (w_address w) TransactionBuilder_new)))))"

definition custom_payload :: "externs \<Rightarrow> Wallet \<Rightarrow> bytes \<Rightarrow> nonce \<Rightarrow> balance \<Rightarrow> panic + Transaction" where
  "custom_payload E w payload n fee =
     sign E (w_keypair w) (with_payload payload (with_fee fee (with_nonce n (with_amount 0
       (with_recipient zero32 (with_sender (w_address w) TransactionBuilder_new))))))"

section \<open>What a wallet signs verifies\<close>

lemma sign_verifies:
  assumes "dalek_ok E" "tb_sender b = hash_bytes E (kp_public (keypair_of_secret E sk))"
  shows "\<exists>tx. sign E (keypair_of_secret E sk) b = Inr tx \<and> verify_signature E tx = Inr ()
     \<and> tx_sender tx = tb_sender b \<and> tx_recipient tx = tb_recipient b \<and> tx_amount tx = tb_amount b
     \<and> tx_nonce tx = tb_nonce b \<and> tx_fee tx = tb_fee b \<and> tx_payload tx = tb_payload b"
proof -
  define tx where "tx = (build b)\<lparr>tx_public_key := kp_public (keypair_of_secret E sk)\<rparr>"
  obtain s where s: "ed25519_sign E (bytes_of sk) (bytes_of (signing_hash E tx)) = Inr s" "length s = 64"
    "ed25519_verify E (kp_public (keypair_of_secret E sk)) (bytes_of (signing_hash E tx)) s = Inr ()"
    using ed25519_sign_verify [OF assms(1)] by blast
  have "length (kp_public (keypair_of_secret E sk)) = 32"
    using dalek_okD(1) [OF assms(1), of "bytes_of sk"] by (simp add: keypair_of_secret_def)
  moreover have "sign E (keypair_of_secret E sk) b = Inr (tx\<lparr>tx_signature := s\<rparr>)"
    using s(1) by (simp add: sign_def tx_def Let_def keypair_of_secret_def)
  ultimately show ?thesis
    using s assms(2) by (auto simp: verify_signature_def) (auto simp: tx_def build_def)
qed

text \<open>
  A transfer or a payload transaction built by a wallet over a fresh key pair carries the wallet's
  address as sender and passes the signature check of the executor; signing does not panic.
\<close>

theorem wallet_transactions_verify:
  assumes "dalek_ok E" "Wallet_generate E rng = Inr w"
  shows "(\<exists>tx. wallet_transfer E w recipient amount n fee = Inr tx \<and> verify_signature E tx = Inr ()
           \<and> tx_sender tx = w_address w \<and> tx_recipient tx = recipient \<and> tx_amount tx = amount
           \<and> tx_nonce tx = n \<and> tx_fee tx = fee \<and> tx_payload tx = [])
       \<and> (\<exists>tx. custom_payload E w payload n fee = Inr tx \<and> verify_signature E tx = Inr ()
           \<and> tx_sender tx = w_address w \<and> tx_amount tx = 0 \<and> tx_nonce tx = n \<and> tx_fee tx = fee
           \<and> tx_payload tx = payload)"
proof -
  have w: "w = Wallet_from_keypair E (keypair_of_secret E rng)"
    using assms(2) by (simp add: Wallet_generate_def ed25519_generate_keypair_def)
  note ops = with_sender_def with_recipient_def with_amount_def with_nonce_def with_fee_def with_payload_def
    TransactionBuilder_new_def
  show ?thesis
    using sign_verifies [OF assms(1), of "with_fee fee (with_nonce n (with_amount amount
        (with_recipient recipient (with_sender (w_address w) TransactionBuilder_new))))" rng]
      sign_verifies [OF assms(1), of "with_payload payload (with_fee fee (with_nonce n (with_amount 0
        (with_recipient zero32 (with_sender (w_address w) TransactionBuilder_new)))))" rng]
    by (simp add: w wallet_transfer_def custom_payload_def Wallet_from_keypair_def ops) blast
qed

theorem wallet_transactions_verify_witness:
  "\<exists>w tx. Wallet_generate demo_externs (array32 [5]) = Inr w \<and>
     wallet_transfer demo_externs w zero32 100 0 1 = Inr tx \<and> verify_signature demo_externs tx = Inr ()"
proof -
  obtain w where w: "Wallet_generate demo_externs (array32 [5]) = Inr w"
    by (simp add: Wallet_generate_def ed25519_generate_keypair_def)
  from wallet_transactions_verify [OF demo_dalek_ok w, of zero32 100 0 1 "[]"] w show ?thesis by blast
qed

end
