(* ===== verification/RocksDb.thy ===== *)
theory RocksDb
  imports Storage Demo_Externs
begin

text \<open>
  Model of \<open>RocksDbBackend\<close> (src/crates/pemrix-storage/src/backend.rs, feature \<open>rocksdb\<close>). The
  rocksdb crate is a parameter: a record of the methods the backend calls on a database of an
  arbitrary type. \<open>rocksdb_ok\<close> states what the backend relies on, for databases on which no I/O
  error occurs. Under it the backend satisfies the contract \<open>state_backend\<close>, and its state root is
  the one the in-memory backend computes for the same contents.
\<close>

section \<open>The backend\<close>

record 'd rocksdb =
  rdb_open :: "string \<Rightarrow> string + 'd"
  rdb_get :: "'d \<Rightarrow> bytes \<Rightarrow> string + bytes option"
  rdb_put :: "bytes \<Rightarrow> bytes \<Rightarrow> ('d, string, unit) action"
  rdb_delete :: "bytes \<Rightarrow> ('d, string, unit) action"
  rdb_prefix_iterator :: "'d \<Rightarrow> bytes \<Rightarrow> (string + RawEntry) list"
  rdb_iterator :: "'d \<Rightarrow> (string + RawEntry) list"

definition rocks_open :: "'d rocksdb \<Rightarrow> string \<Rightarrow> StorageError + 'd" where
  "rocks_open R path = map_err (\<lambda>e. Backend (''failed to open rocksdb: '' @ e)) (rdb_open R path)"

definition rocks_get_account :: "externs \<Rightarrow> 'd rocksdb \<Rightarrow> 'd \<Rightarrow> address \<Rightarrow> StorageError + Account option" where
  "rocks_get_account E R d a =
     (case rdb_get R d (account_key a) of
        Inr (Some bs) \<Rightarrow>
          bind_result (map_err (\<lambda>_. Serialization) (decode (unjson_account E) bs)) (\<lambda>x. Inr (Some x))
      | Inr None \<Rightarrow> Inr None
      | Inl e \<Rightarrow> Inl (Backend (''rocksdb get error: '' @ e)))"

definition rocks_put_account :: "externs \<Rightarrow> 'd rocksdb \<Rightarrow> address \<Rightarrow> Account \<Rightarrow> ('d, StorageError, unit) action" where
  "rocks_put_account E R a x =
     act_map_err (\<lambda>e. Backend (''rocksdb put error: '' @ e)) (rdb_put R (account_key a) (encode (json_account E) x))"

definition rocks_delete_account :: "'d rocksdb \<Rightarrow> address \<Rightarrow> ('d, StorageError, unit) action" where
  "rocks_delete_account R a =
     act_map_err (\<lambda>e. Backend (''rocksdb delete error: '' @ e)) (rdb_delete R (account_key a))"

definition rocks_get_raw :: "'d rocksdb \<Rightarrow> 'd \<Rightarrow> bytes \<Rightarrow> StorageError + bytes option" where
  "rocks_get_raw R d k =
     (case rdb_get R d k of
        Inr (Some bs) \<Rightarrow> Inr (Some bs)
      | Inr None \<Rightarrow> Inr None
      | Inl e \<Rightarrow> Inl (Backend (''rocksdb get error: '' @ e)))"

definition rocks_put_raw :: "'d rocksdb \<Rightarrow> bytes \<Rightarrow> bytes \<Rightarrow> ('d, StorageError, unit) action" where
  "rocks_put_raw R k v = act_map_err (\<lambda>e. Backend (''rocksdb put error: '' @ e)) (rdb_put R k v)"

definition rocks_delete_raw :: "'d rocksdb \<Rightarrow> bytes \<Rightarrow> ('d, StorageError, unit) action" where
  "rocks_delete_raw R k = act_map_err (\<lambda>e. Backend (''rocksdb delete error: '' @ e)) (rdb_delete R k)"

fun collect_items :: "(string + RawEntry) list \<Rightarrow> StorageError + RawEntry list" where
  "collect_items [] = Inr []"
| "collect_items (i # is) =
     bind_result (map_err (\<lambda>e. Backend (''rocksdb iterator error: '' @ e)) i) (\<lambda>kv.
     bind_result (collect_items is) (\<lambda>rest. Inr (kv # rest)))"

definition rocks_iter_raw_prefix :: "'d rocksdb \<Rightarrow> 'd \<Rightarrow> bytes \<Rightarrow> StorageError + RawEntry list" where
  "rocks_iter_raw_prefix R d p = collect_items (rdb_prefix_iterator R d p)"

definition rocks_snapshot :: "externs \<Rightarrow> RawEntry list \<Rightarrow> (string, bytes) omap" where
  "rocks_snapshot E es = fold (\<lambda>(k, v) m. om_insert (hex_encode E k) v m) es om_empty"

definition rocks_state_root :: "externs \<Rightarrow> 'd rocksdb \<Rightarrow> 'd \<Rightarrow> StorageError + hash" where
  "rocks_state_root E R d =
     bind_result (collect_items (rdb_iterator R d)) (\<lambda>es.
     Inr (hash_bytes E (encode (json_snapshot E) (rocks_snapshot E es))))"

definition rocks_backend :: "externs \<Rightarrow> 'd rocksdb \<Rightarrow> 'd StateBackend" where
  "rocks_backend E R =
     \<lparr>be_get_account = rocks_get_account E R, be_put_account = rocks_put_account E R,
      be_delete_account = rocks_delete_account R, be_get_raw = rocks_get_raw R,
      be_put_raw = rocks_put_raw R, be_delete_raw = rocks_delete_raw R,
      be_iter_raw_prefix = rocks_iter_raw_prefix R, be_state_root = rocks_state_root E R\<rparr>"

section \<open>What the backend relies on\<close>

text \<open>
  \<open>db\<close> is the key-value map a database holds. Without a prefix extractor, \<open>prefix_iterator\<close> is
  only specified to start at the prefix: it yields, in key order, every entry that has the prefix
  and may go on with larger keys.
\<close>

definition rocksdb_ok :: "'d rocksdb \<Rightarrow> ('d \<Rightarrow> (bytes, bytes) omap) \<Rightarrow> bool" where
  "rocksdb_ok R db \<longleftrightarrow>
     (\<forall>d k. rdb_get R d k = Inr (om_get (db d) k)) \<and>
     (\<forall>d k v. \<exists>d'. rdb_put R k v d = (Inr (), d') \<and> db d' = om_insert k v (db d)) \<and>
     (\<forall>d k. \<exists>d'. rdb_delete R k d = (Inr (), d') \<and> db d' = om_remove k (db d)) \<and>
     (\<forall>d p. \<exists>n. rdb_prefix_iterator R d p =
        map Inr (filter (\<lambda>(k, _). prefix p k \<or> p \<le> k \<and> k \<le> n) (om_entries (db d)))) \<and>
     (\<forall>d. rdb_iterator R d = map Inr (om_entries (db d)))"

text \<open>The keys of the database are account keys with encoded accounts, and protocol keys.\<close>

definition rocks_inv :: "externs \<Rightarrow> ('d \<Rightarrow> (bytes, bytes) omap) \<Rightarrow> 'd \<Rightarrow> bool" where
  "rocks_inv E db d \<longleftrightarrow>
     (\<forall>k bs. om_get (db d) k = Some bs \<longrightarrow>
        protocol_key k \<or> (\<exists>a x. k = account_key a \<and> bs = json_account E x))"

definition rocks_acct :: "externs \<Rightarrow> ('d \<Rightarrow> (bytes, bytes) omap) \<Rightarrow> 'd \<Rightarrow> address \<Rightarrow> Account option" where
  "rocks_acct E db d a = Option.bind (om_get (db d) (account_key a)) (unjson_account E)"

definition rocks_raw :: "('d \<Rightarrow> (bytes, bytes) omap) \<Rightarrow> 'd \<Rightarrow> bytes \<Rightarrow> bytes option" where
  "rocks_raw db d k = (if protocol_key k then om_get (db d) k else None)"

lemma rocks_inv_account:
  "rocks_inv E db d \<Longrightarrow> om_get (db d) (account_key a) = Some bs \<Longrightarrow> \<exists>x. bs = json_account E x"
  using account_key_not_protocol by (fastforce simp: rocks_inv_def)

lemma collect_items_ok [simp]: "collect_items (map Inr es) = Inr es"
  by (induction es) simp_all

lemma val_range_is_namespace:
  assumes "protocol_key k \<or> (\<exists>a. k = account_key a)" "val_prefix \<le> k"
  shows "prefix val_prefix k"
proof (rule ccontr)
  assume "\<not> prefix val_prefix k"
  with assms(1) have "prefix dlg_prefix k \<or> (\<exists>a. k = account_key a)"
    by (auto simp: protocol_key_def)
  then have "k < val_prefix"
    by (auto simp: prefix_def dlg_prefix_def val_prefix_def account_key_def acc_prefix_def)
  with assms(2) show False by simp
qed

lemma rocks_contents_determined:
  assumes "json_ok E" "rocks_inv E db s" "rocks_inv E db t"
    and "rocks_acct E db s = rocks_acct E db t" "rocks_raw db s = rocks_raw db t"
  shows "db s = db t"
proof (rule om_eqI)
  have acct: "om_get (db s) (account_key a) = om_get (db t) (account_key a)" for a
    using rocks_inv_account [OF assms(2), of a] rocks_inv_account [OF assms(3), of a]
      fun_cong [OF assms(4), of a]
    by (cases "om_get (db s) (account_key a)"; cases "om_get (db t) (account_key a)")
      (auto simp: rocks_acct_def json_okD [OF assms(1)])
  fix k
  show "om_get (db s) k = om_get (db t) k"
  proof (cases "protocol_key k \<or> (\<exists>a. k = account_key a)")
    case True
    then show ?thesis
      using fun_cong [OF assms(5), of k] acct by (auto simp: rocks_raw_def)
  next
    case False
    then have "om_get (db s) k = None" "om_get (db t) k = None"
      using assms(2,3) unfolding rocks_inv_def by (metis not_None_eq)+
    then show ?thesis by simp
  qed
qed

section \<open>The backend satisfies the contract\<close>

lemma rocks_iter_law:
  assumes "rocksdb_ok R db" "rocks_inv E db d"
  shows "rocks_iter_raw_prefix R d val_prefix =
     Inr (filter (\<lambda>(k, _). prefix val_prefix k) (om_entries (db d)))"
proof -
  have inv: "protocol_key k \<or> (\<exists>a. k = account_key a)" if "(k, v) \<in> set (om_entries (db d))" for k v
    using that assms(2) by (auto simp: rocks_inv_def om_get_Some_iff)
  obtain n where n: "rdb_prefix_iterator R d val_prefix =
      map Inr (filter (\<lambda>(k, _). prefix val_prefix k \<or> val_prefix \<le> k \<and> k \<le> n) (om_entries (db d)))"
    using assms(1) unfolding rocksdb_ok_def by blast
  moreover have "filter (\<lambda>(k, _). prefix val_prefix k \<or> val_prefix \<le> k \<and> k \<le> n) (om_entries (db d)) =
      filter (\<lambda>(k, _). prefix val_prefix k) (om_entries (db d))"
    using inv val_range_is_namespace by (intro filter_cong) fastforce+
  ultimately show ?thesis by (simp add: rocks_iter_raw_prefix_def)
qed

lemma rocks_acct_insert:
  "json_ok E \<Longrightarrow> om_get (db d') = (om_get (db d))(account_key a \<mapsto> json_account E x) \<Longrightarrow>
     rocks_acct E db d' = (rocks_acct E db d)(a \<mapsto> x)"
  by (simp add: rocks_acct_def fun_eq_iff json_okD)

lemma rocks_acct_protocol:
  "protocol_key k \<Longrightarrow> om_get (db d') = (om_get (db d))(k := v) \<Longrightarrow> rocks_acct E db d' = rocks_acct E db d"
  using account_key_not_protocol by (auto simp: rocks_acct_def fun_eq_iff)

lemma rocks_inv_update:
  assumes "rocks_inv E db d" "om_get (db d') = (om_get (db d))(k := v)"
    and "protocol_key k \<or> v = None \<or> (\<exists>a x. k = account_key a \<and> v = Some (json_account E x))"
  shows "rocks_inv E db d'"
  using assms by (auto simp: rocks_inv_def)

lemma rocks_put_cases:
  assumes "rocksdb_ok R db"
  obtains d' where "rdb_put R k v d = (Inr (), d')" "db d' = om_insert k v (db d)"
  using assms unfolding rocksdb_ok_def by blast

lemma rocks_delete_cases:
  assumes "rocksdb_ok R db"
  obtains d' where "rdb_delete R k d = (Inr (), d')" "db d' = om_remove k (db d)"
  using assms unfolding rocksdb_ok_def by blast

lemmas rocks_ops = rocks_backend_def rocks_get_account_def rocks_put_account_def rocks_delete_account_def
  rocks_get_raw_def rocks_put_raw_def rocks_delete_raw_def rocks_state_root_def act_map_err_def

lemma rocks_state_backend:
  assumes json: "json_ok E" and rdb: "rocksdb_ok R db"
  shows "state_backend (rocks_backend E R) (rocks_acct E db) (rocks_raw db) (rocks_inv E db)"
proof (unfold_locales, goal_cases)
  case (1 d a)
  have "rdb_get R d (account_key a) = Inr (om_get (db d) (account_key a))"
    using rdb by (simp add: rocksdb_ok_def)
  moreover have "\<exists>x. bs = json_account E x" if "om_get (db d) (account_key a) = Some bs" for bs
    using rocks_inv_account [OF 1 that] .
  ultimately show ?case
    by (fastforce simp: rocks_ops rocks_acct_def decode_apply json_okD [OF json] split: option.splits)
next
  case (2 d a x)
  obtain d' where d': "rdb_put R (account_key a) (json_account E x) d = (Inr (), d')"
    "db d' = om_insert (account_key a) (json_account E x) (db d)"
    by (rule rocks_put_cases [OF rdb])
  then have upd: "om_get (db d') = (om_get (db d))(account_key a \<mapsto> json_account E x)" by simp
  have "rocks_inv E db d'" by (rule rocks_inv_update [OF 2 upd]) blast
  moreover have "rocks_raw db d' = rocks_raw db d" by (simp add: rocks_raw_def fun_eq_iff upd)
  moreover note rocks_acct_insert [where db = db, OF json upd]
  ultimately show ?case using d' by (simp add: rocks_ops)
next
  case (3 d a)
  obtain d' where d': "rdb_delete R (account_key a) d = (Inr (), d')" "db d' = om_remove (account_key a) (db d)"
    by (rule rocks_delete_cases [OF rdb])
  then have "rocks_inv E db d'" "rocks_acct E db d' = (rocks_acct E db d)(a := None)" "rocks_raw db d' = rocks_raw db d"
    using 3 by (auto intro: rocks_inv_update simp: rocks_raw_def rocks_acct_def fun_eq_iff)
  with d' show ?case by (simp add: rocks_ops)
next
  case (4 d k)
  have "rdb_get R d k = Inr (om_get (db d) k)"
    using rdb by (simp add: rocksdb_ok_def)
  with 4 show ?case by (simp add: rocks_ops rocks_raw_def split: option.splits)
next
  case (5 d k v)
  obtain d' where d': "rdb_put R k v d = (Inr (), d')" "db d' = om_insert k v (db d)"
    by (rule rocks_put_cases [OF rdb])
  then have upd: "om_get (db d') = (om_get (db d))(k \<mapsto> v)" by simp
  have "rocks_raw db d' = (rocks_raw db d)(k \<mapsto> v)" using 5(2) by (simp add: rocks_raw_def fun_eq_iff upd)
  with d' rocks_inv_update [OF 5(1) upd] rocks_acct_protocol [where db = db, OF 5(2) upd] 5(2)
  show ?case by (simp add: rocks_ops)
next
  case (6 d k)
  obtain d' where d': "rdb_delete R k d = (Inr (), d')" "db d' = om_remove k (db d)"
    by (rule rocks_delete_cases [OF rdb])
  then have upd: "om_get (db d') = (om_get (db d))(k := None)" by simp
  have "rocks_raw db d' = (rocks_raw db d)(k := None)" using 6(2) by (simp add: rocks_raw_def fun_eq_iff upd)
  with d' rocks_inv_update [OF 6(1) upd] rocks_acct_protocol [where db = db, OF 6(2) upd] 6(2)
  show ?case by (simp add: rocks_ops)
next
  case (7 d)
  have "prefix val_prefix k \<Longrightarrow> protocol_key k" for k by (simp add: protocol_key_def)
  then show ?case
    using rocks_iter_law [OF rdb 7]
    by (auto simp: rocks_backend_def rocks_raw_def om_get_Some_iff intro: al_sorted_filter om_entries_sorted)
next
  case (8 s t)
  then have "db s = db t" by (intro rocks_contents_determined [OF json])
  then show ?case using rdb by (simp add: rocks_ops rocksdb_ok_def)
next
  case (9 d)
  then show ?case using rdb by (simp add: rocks_ops rocksdb_ok_def)
qed

section \<open>Both backends compute the same state root\<close>

lemma om_get_fold_insert:
  assumes "distinct (map fst es)" "inj f"
  shows "om_get (fold (\<lambda>(k, v) m. om_insert (f k) (g v) m) es m0) =
     om_get m0 ++ map_of (map (\<lambda>(k, v). (f k, g v)) es)"
  using assms
proof (induction es arbitrary: m0)
  case Nil
  then show ?case by simp
next
  case (Cons e es)
  obtain k v where e: "e = (k, v)" by (cases e)
  have "f k \<notin> dom (map_of (map (\<lambda>(k, v). (f k, g v)) es))"
    using Cons.prems e unfolding dom_map_of_conv_image_fst by (force dest: injD)
  then show ?case
    using Cons by (auto simp: e fun_eq_iff map_add_def split: option.splits)
qed

lemma om_get_fold_entries:
  "inj f \<Longrightarrow> om_get (fold (\<lambda>(k, v) m. om_insert (f k) (g v) m) (om_entries n) m0) =
     om_get m0 ++ map_of (map (\<lambda>(k, v). (f k, g v)) (om_entries n))"
  by (rule om_get_fold_insert) (simp_all add: al_sorted_distinct om_entries_sorted)

lemma map_of_map_inj:
  assumes "inj f"
  shows "map_of (map (\<lambda>(k, v). (f k, g v)) es) (f k) = map_option g (map_of es k)"
  using assms by (induction es) (auto dest: injD)

lemma map_of_entries_inj:
  "inj f \<Longrightarrow> map_of (map (\<lambda>(k, v). (f k, g v)) (om_entries m)) (f k) = map_option g (om_get m k)"
  by (simp add: map_of_map_inj om_get_def)

lemma map_of_map_range:
  assumes "x \<notin> range f"
  shows "map_of (map (\<lambda>(k, v). (f k, g v)) es) x = None"
  using assms by (induction es) auto

lemma rocks_snapshot_get:
  assumes "hex_ok E"
  shows "om_get (rocks_snapshot E (om_entries m)) (hex_encode E k) = om_get m k"
    and "x \<notin> range (hex_encode E) \<Longrightarrow> om_get (rocks_snapshot E (om_entries m)) x = None"
proof -
  have inj: "inj (hex_encode E)" using assms by (simp add: inj_def hex_encode_inj)
  note eq = om_get_fold_entries [OF inj, of "\<lambda>v. v" m om_empty]
  show "om_get (rocks_snapshot E (om_entries m)) (hex_encode E k) = om_get m k"
    using map_of_entries_inj [OF inj, of "\<lambda>v. v" m k]
    by (simp add: rocks_snapshot_def eq option.map_ident)
  show "om_get (rocks_snapshot E (om_entries m)) x = None" if "x \<notin> range (hex_encode E)"
    using map_of_map_range [OF that, of "\<lambda>v. v"] by (simp add: rocks_snapshot_def eq)
qed

lemma im_snapshot_get:
  assumes "hex_ok E"
  shows "om_get (im_snapshot E s) (hex_encode E (account_key a)) =
       (case om_get (im_raw s) (account_key a) of None \<Rightarrow> map_option (json_account E) (om_get (im_accounts s) a) | Some v \<Rightarrow> Some v)"
    and "\<forall>a. k \<noteq> account_key a \<Longrightarrow> om_get (im_snapshot E s) (hex_encode E k) = om_get (im_raw s) k"
    and "x \<notin> range (hex_encode E) \<Longrightarrow> om_get (im_snapshot E s) x = None"
proof -
  have inj: "inj (hex_encode E)" using assms by (simp add: inj_def hex_encode_inj)
  have inja: "inj (\<lambda>a. hex_encode E (account_key a))"
    using assms by (simp add: inj_def hex_encode_inj)
  have eq: "om_get (im_snapshot E s) =
      map_of (map (\<lambda>(a, x). (hex_encode E (account_key a), json_account E x)) (om_entries (im_accounts s))) ++
      map_of (map (\<lambda>(k, v). (hex_encode E k, v)) (om_entries (im_raw s)))"
    using om_get_fold_entries [OF inj, of "\<lambda>v. v" "im_raw s"]
      om_get_fold_entries [OF inja, of "json_account E" "im_accounts s" om_empty]
    by (simp add: im_snapshot_def)
  note raw = map_of_entries_inj [OF inj, of "\<lambda>v. v" "im_raw s"]
  show "om_get (im_snapshot E s) (hex_encode E (account_key a)) =
      (case om_get (im_raw s) (account_key a) of None \<Rightarrow> map_option (json_account E) (om_get (im_accounts s) a) | Some v \<Rightarrow> Some v)"
    using map_of_entries_inj [OF inja, of "json_account E" "im_accounts s" a] raw
    by (simp add: eq map_add_def option.map_ident split: option.splits)
  show "om_get (im_snapshot E s) (hex_encode E k) = om_get (im_raw s) k" if "\<forall>a. k \<noteq> account_key a"
  proof -
    have "hex_encode E k \<notin> range (\<lambda>a. hex_encode E (account_key a))"
      using that hex_encode_inj [OF assms] by blast
    from map_of_map_range [OF this, of "json_account E" "om_entries (im_accounts s)"] raw show ?thesis
      by (simp add: eq map_add_def option.map_ident split: option.splits)
  qed
  show "om_get (im_snapshot E s) x = None" if "x \<notin> range (hex_encode E)"
  proof -
    have "x \<notin> range (\<lambda>a. hex_encode E (account_key a))" using that by blast
    from map_of_map_range [OF this, of "json_account E" "om_entries (im_accounts s)"] show ?thesis
      using map_of_map_range [OF that, of "\<lambda>v. v" "om_entries (im_raw s)"]
      by (simp add: eq map_add_def)
  qed
qed

lemma same_state_root:
  assumes "json_ok E" "hex_ok E" "rocksdb_ok R db"
    and "rocks_inv E db d" "im_inv s"
    and "\<forall>a. get_account (rocks_backend E R) d a = get_account (im_backend E) s a"
    and "\<forall>k. protocol_key k \<longrightarrow> be_get_raw (rocks_backend E R) d k = be_get_raw (im_backend E) s k"
  shows "store_state_root (rocks_backend E R) d = store_state_root (im_backend E) s"
proof -
  note law = rocks_state_backend [OF assms(1,3)]
  have acct: "rocks_acct E db d a = om_get (im_accounts s) a" for a
    using assms(6) state_backend.store_get_account_law [OF law assms(4)]
      im.store_get_account_law [OF assms(5), of E] by simp
  have raw: "om_get (db d) k = om_get (im_raw s) k" if "protocol_key k" for k
    using assms(7) that state_backend.get_raw_law [OF law assms(4) that] im.get_raw_law [OF assms(5) that, of E]
    by (simp add: rocks_raw_def)
  have im_none: "om_get (im_raw s) k = None" if "\<not> protocol_key k" for k
    using assms(5) that by (auto simp: im_inv_def)
  have acct_bytes: "om_get (db d) (account_key a) = map_option (json_account E) (om_get (im_accounts s) a)" for a
    using acct [of a] rocks_inv_account [OF assms(4), of a] json_okD(1) [OF assms(1)]
    by (cases "om_get (db d) (account_key a)") (auto simp: rocks_acct_def dest!: sym [of "Some _"])
  have other: "om_get (db d) k = om_get (im_raw s) k" if "\<forall>a. k \<noteq> account_key a" for k
  proof (cases "protocol_key k")
    case False
    then have "om_get (db d) k = None"
      using that assms(4) unfolding rocks_inv_def by (metis not_None_eq)
    with False show ?thesis by (simp add: im_none)
  qed (rule raw)
  have "rocks_snapshot E (om_entries (db d)) = im_snapshot E s"
  proof (rule om_eqI)
    fix x
    show "om_get (rocks_snapshot E (om_entries (db d))) x = om_get (im_snapshot E s) x"
    proof (cases "x \<in> range (hex_encode E)")
      case True
      then obtain k where x: "x = hex_encode E k" by blast
      show ?thesis
        using acct_bytes other im_none [OF account_key_not_protocol]
        by (cases "\<exists>a. k = account_key a") (auto simp: x rocks_snapshot_get [OF assms(2)] im_snapshot_get [OF assms(2)])
    next
      case False
      then show ?thesis by (simp add: rocks_snapshot_get [OF assms(2)] im_snapshot_get [OF assms(2)])
    qed
  qed
  then show ?thesis
    using assms(3)
    by (simp add: store_state_root_def rocks_backend_def im_backend_def rocks_state_root_def im_state_root_def rocksdb_ok_def)
qed

text \<open>
  A RocksDB store and an in-memory store that hold the same accounts and the same raw entries
  have the same state root, so nodes that run different backends agree on the root of a block.
\<close>

theorem rocks_im_same_state_root:
  assumes "json_ok E" "hex_ok E" "rocksdb_ok R db"
    and "rocks_inv E db d" "im_inv s"
    and "\<forall>a. get_account (rocks_backend E R) d a = get_account (im_backend E) s a"
    and "\<forall>k. protocol_key k \<longrightarrow> be_get_raw (rocks_backend E R) d k = be_get_raw (im_backend E) s k"
  shows "store_state_root (rocks_backend E R) d = store_state_root (im_backend E) s"
  by (rule same_state_root [OF assms])

text \<open>A database that is the sorted map itself, for the witnesses.\<close>

definition demo_rocksdb :: "(bytes, bytes) omap rocksdb" where
  "demo_rocksdb =
     \<lparr>rdb_open = (\<lambda>_. Inr om_empty), rdb_get = (\<lambda>d k. Inr (om_get d k)),
      rdb_put = (\<lambda>k v d. (Inr (), om_insert k v d)), rdb_delete = (\<lambda>k d. (Inr (), om_remove k d)),
      rdb_prefix_iterator = (\<lambda>d p. map Inr (filter (\<lambda>(k, _). prefix p k) (om_entries d))),
      rdb_iterator = (\<lambda>d. map Inr (om_entries d))\<rparr>"

lemma demo_rocksdb_ok: "rocksdb_ok demo_rocksdb (\<lambda>d. d)"
proof -
  have "filter (\<lambda>(k, _). prefix p k) es = filter (\<lambda>(k, _). prefix p k \<or> p \<le> k \<and> k \<le> p) es" for p and es :: "RawEntry list"
    by (rule filter_cong) auto
  then show ?thesis
    unfolding rocksdb_ok_def demo_rocksdb_def by auto
qed

theorem rocks_im_same_state_root_witness:
  "store_state_root (rocks_backend demo_externs demo_rocksdb)
     (om_insert (account_key zero32) (json_account demo_externs (Account_new 7 1)) om_empty) =
   store_state_root (im_backend demo_externs)
     \<lparr>im_accounts = om_insert zero32 (Account_new 7 1) om_empty, im_raw = om_empty\<rparr>"
proof -
  have "k \<noteq> account_key zero32" if "protocol_key k" for k
    using that account_key_not_protocol by blast
  then show ?thesis
    by (intro rocks_im_same_state_root [OF demo_json_ok demo_hex_ok demo_rocksdb_ok])
      (auto simp: rocks_inv_def im_inv_def get_account_def rocks_backend_def im_backend_def
        rocks_get_account_def im_get_account_def rocks_get_raw_def im_get_raw_def demo_rocksdb_def
        decode_apply json_okD [OF demo_json_ok])
qed

end
