(* ===== verification/Ledger.thy ===== *)
theory Ledger
  imports Sdk RocksDb
begin

text \<open>
  What executing a transaction means for the ledger, as pure functions on the abstract state of the
  theory Storage: three maps instead of a backend. \<open>spec_execute\<close> is the specification; the locale
  context proves that the block executor implements it on every backend that fulfils the contract,
  and the theorems below hold for the executor through the two backends.
\<close>

section \<open>Specification\<close>

definition lg_account :: "ledger \<Rightarrow> address \<Rightarrow> Account" where
  "lg_account L a = unwrap_account (lg_acct L a)"

definition lg_put :: "address \<Rightarrow> Account \<Rightarrow> ledger \<Rightarrow> ledger" where
  "lg_put a x L = L\<lparr>lg_acct := (lg_acct L)(a \<mapsto> x)\<rparr>"

definition lg_put_val :: "address \<Rightarrow> ValidatorRecord \<Rightarrow> ledger \<Rightarrow> ledger" where
  "lg_put_val a r L = L\<lparr>lg_val := (lg_val L)(a \<mapsto> r)\<rparr>"

definition lg_put_dlg :: "address \<Rightarrow> address \<Rightarrow> Delegation option \<Rightarrow> ledger \<Rightarrow> ledger" where
  "lg_put_dlg d v x L = L\<lparr>lg_dlg := (lg_dlg L)(d := (lg_dlg L d)(v := x))\<rparr>"

definition debit :: "address \<Rightarrow> balance \<Rightarrow> ledger \<Rightarrow> ledger" where
  "debit a amount L = lg_put a ((lg_account L a)\<lparr>acc_balance := acc_balance (lg_account L a) - amount\<rparr>) L"

definition credit :: "address \<Rightarrow> balance \<Rightarrow> ledger \<Rightarrow> ledger" where
  "credit a amount L = lg_put a ((lg_account L a)\<lparr>acc_balance := acc_balance (lg_account L a) + amount\<rparr>) L"

definition charge :: "Transaction \<Rightarrow> ledger \<Rightarrow> ledger" where
  "charge tx L = (let x = lg_account L (tx_sender tx) in
     lg_put (tx_sender tx) (x\<lparr>acc_balance := acc_balance x - tx_fee tx, acc_nonce := acc_nonce x + 1\<rparr>) L)"

type_synonym outcome = "(VmError + ExecutionResult) \<times> ledger"

definition spec_transfer :: "Transaction \<Rightarrow> ledger \<Rightarrow> outcome" where
  "spec_transfer tx L =
     (if tx_amount tx = 0 then (Inr (success 21000 ''ok''), L)
      else if acc_balance (lg_account L (tx_sender tx)) < tx_amount tx
        then (Inr (failure ''insufficient balance for transfer''), L)
      else let L' = debit (tx_sender tx) (tx_amount tx) L in
        if 2 ^ 128 \<le> unat (acc_balance (lg_account L' (tx_recipient tx))) + unat (tx_amount tx)
        then (Inl StorageFailure, L')
        else (Inr (success 21000 ''ok''), credit (tx_recipient tx) (tx_amount tx) L'))"

definition spec_register :: "address \<Rightarrow> bytes \<Rightarrow> u16 \<Rightarrow> balance \<Rightarrow> ledger \<Rightarrow> outcome" where
  "spec_register a pk bps stake L =
     (if pk = [] \<or> bps > 10000 \<or> stake < MIN_SELF_STAKE \<or> lg_val L a \<noteq> None then (Inl InvalidContract, L)
      else if acc_balance (lg_account L a) < stake then (Inl InsufficientBalance, L)
      else (Inr (success 50000 ''validator registered''),
            lg_put_val a (ValidatorRecord_new a pk stake bps) (debit a stake L)))"

definition lg_delegated :: "ledger \<Rightarrow> address \<Rightarrow> address \<Rightarrow> Delegation" where
  "lg_delegated L d v = (case lg_dlg L d v of None \<Rightarrow> default_delegation | Some x \<Rightarrow> x)"

definition spec_delegate :: "address \<Rightarrow> address \<Rightarrow> balance \<Rightarrow> ledger \<Rightarrow> outcome" where
  "spec_delegate a v amount L =
     (case lg_val L v of
        None \<Rightarrow> (Inl InvalidContract, L)
      | Some r \<Rightarrow>
          if amount < MIN_DELEGATION \<or> vr_status r \<noteq> Active then (Inl InvalidContract, L)
          else if acc_balance (lg_account L a) < amount then (Inl InsufficientBalance, L)
          else (Inr (success 30000 ''delegated''),
                lg_put_dlg a v (Some ((lg_delegated L a v)\<lparr>dlg_amount := dlg_amount (lg_delegated L a v) + amount\<rparr>))
                  (lg_put_val v (r\<lparr>vr_delegated_stake := vr_delegated_stake r + amount\<rparr>) (debit a amount L))))"

definition spec_undelegate :: "address \<Rightarrow> address \<Rightarrow> balance \<Rightarrow> ledger \<Rightarrow> outcome" where
  "spec_undelegate a v amount L =
     (case lg_dlg L a v of
        None \<Rightarrow> (Inl InvalidContract, L)
      | Some d \<Rightarrow>
          if dlg_amount d < amount then (Inl InsufficientBalance, L)
          else case lg_val L v of
            None \<Rightarrow> (Inl InvalidContract, L)
          | Some r \<Rightarrow>
              (Inr (success 30000 ''undelegated''),
               credit a amount
                 (lg_put_dlg a v (if dlg_amount d = amount then None else Some (d\<lparr>dlg_amount := dlg_amount d - amount\<rparr>))
                   (lg_put_val v (r\<lparr>vr_delegated_stake := saturating_sub (vr_delegated_stake r) amount\<rparr>) L))))"

definition spec_staking :: "externs \<Rightarrow> Transaction \<Rightarrow> ledger \<Rightarrow> outcome" where
  "spec_staking E tx L =
     (case staking_decode E (tx_payload tx) of
        Inl e \<Rightarrow> (Inl e, L)
      | Inr (RegisterValidator pk bps stake) \<Rightarrow> spec_register (tx_sender tx) pk bps stake L
      | Inr (Delegate v amount) \<Rightarrow> spec_delegate (tx_sender tx) v amount L
      | Inr (Undelegate v amount) \<Rightarrow> spec_undelegate (tx_sender tx) v amount L)"

definition spec_execute :: "externs \<Rightarrow> Transaction \<Rightarrow> ledger \<Rightarrow> outcome" where
  "spec_execute E tx L =
     (if verify_signature E tx \<noteq> Inr () then (Inl InvalidSignature, L)
      else if acc_nonce (lg_account L (tx_sender tx)) \<noteq> tx_nonce tx then (Inr (failure ''invalid nonce''), L)
      else if acc_balance (lg_account L (tx_sender tx)) < tx_fee tx
        then (Inr (failure ''insufficient balance for fee''), L)
      else if tx_payload tx = [] then spec_transfer tx (charge tx L)
      else if hd (tx_payload tx) = 1 then spec_staking E tx (charge tx L)
      else (Inr (failure ''invalid contract''), charge tx L))"

section \<open>The executor implements the specification\<close>

lemma verify_signature_error: "verify_signature E tx = Inl e \<Longrightarrow> e = InvalidSignature"
  by (auto simp: verify_signature_def map_err_eq_Inl split: if_splits)

lemmas ledger_ops = lg_account_def lg_put_def lg_put_val_def lg_put_dlg_def lg_delegated_def debit_def credit_def
  charge_def

lemmas ledger_view_upd = ledger_view_account ledger_view_validator ledger_view_delegation ledger_view_delegation_delete

text \<open>An action on a backend implements an outcome function when it computes the same result and
  leaves a state that represents the resulting ledger.\<close>

definition implements ::
    "('b \<Rightarrow> ledger) \<Rightarrow> ('b \<Rightarrow> bool) \<Rightarrow> ('b, VmError, ExecutionResult) action \<Rightarrow> (ledger \<Rightarrow> outcome) \<Rightarrow> bool" where
  "implements view ok m f \<longleftrightarrow>
     (\<forall>s. ok s \<longrightarrow> ok (snd (m s)) \<and> f (view s) = (fst (m s), view (snd (m s))))"

context state_backend
begin

abbreviation view :: "externs \<Rightarrow> 'b \<Rightarrow> ledger" where
  "view E s \<equiv> ledger_view E (acct s) (raw s)"

abbreviation represents :: "externs \<Rightarrow> 'b \<Rightarrow> bool" where
  "represents E s \<equiv> inv s \<and> canonical E (raw s)"

lemma register_implements:
  assumes "json_ok E"
  shows "implements (view E) (represents E) (staking_register E B a pk bps stake) (spec_register a pk bps stake)"
  using assms
  by (auto simp: implements_def staking_register_def spec_register_def act_run Let_def backend_run set_account_def
      set_validator_record_def ledger_ops ledger_view_upd split: if_splits)

lemma delegate_implements:
  assumes "json_ok E"
  shows "implements (view E) (represents E) (staking_delegate E B a v amount) (spec_delegate a v amount)"
  using assms
  by (auto simp: implements_def staking_delegate_def spec_delegate_def act_run Let_def backend_run set_account_def
      set_validator_record_def set_delegation_def ledger_ops ledger_view_upd split: if_splits option.splits)

lemma undelegate_implements:
  assumes "json_ok E"
  shows "implements (view E) (represents E) (staking_undelegate E B a v amount) (spec_undelegate a v amount)"
  using assms
  by (auto simp: implements_def staking_undelegate_def spec_undelegate_def act_run Let_def backend_run set_account_def
      set_validator_record_def set_delegation_def delete_delegation_def ledger_ops ledger_view_upd
      split: if_splits option.splits)

lemma staking_implements:
  assumes "json_ok E"
  shows "implements (view E) (represents E) (staking_execute E B tx) (spec_staking E tx)"
  using register_implements [OF assms] delegate_implements [OF assms] undelegate_implements [OF assms]
  by (auto simp: implements_def staking_execute_def spec_staking_def act_run split: sum.split StakingOperation.split)

lemma transfer_amount_only_run:
  assumes "inv s"
  shows "transfer_amount_only B a amount s =
    (if 2 ^ 128 \<le> unat (acc_balance (unwrap_account (acct s a))) + unat amount
     then (Inl (Backend ''balance overflow''), s)
     else (Inr (), after (be_put_account B a ((unwrap_account (acct s a))\<lparr>acc_balance :=
             acc_balance (unwrap_account (acct s a)) + amount\<rparr>)) s))"
  using assms by (auto simp: transfer_amount_only_def act_run Let_def backend_run checked_add_def)

definition block_charge :: "Transaction \<Rightarrow> 'b \<Rightarrow> 'b" where
  "block_charge tx s = after (be_put_account B (tx_sender tx)
     (let x = unwrap_account (acct s (tx_sender tx)) in
      x\<lparr>acc_balance := acc_balance x - tx_fee tx, acc_nonce := acc_nonce x + 1\<rparr>)) s"

lemma block_charge_view:
  assumes "represents E s"
  shows "represents E (block_charge tx s)" "view E (block_charge tx s) = charge tx (view E s)"
  using assms by (simp_all add: block_charge_def backend_run ledger_ops ledger_view_account Let_def)

lemma transfer_implements: "implements (view E) (represents E) (block_transfer B tx) (spec_transfer tx)"
  by (auto simp: implements_def block_transfer_def spec_transfer_def act_run Let_def backend_run set_account_def
      transfer_amount_only_run ledger_ops ledger_view_account linorder_not_less)

lemma dispatch_implements:
  assumes "json_ok E" "represents E s"
  shows "represents E (snd (block_dispatch E B tx s)) \<and>
    (if tx_payload tx = [] then spec_transfer tx (view E s)
     else if hd (tx_payload tx) = 1 then spec_staking E tx (view E s)
     else (Inr (failure ''invalid contract''), view E s)) =
    (fst (block_dispatch E B tx s), view E (snd (block_dispatch E B tx s)))"
  using transfer_implements [of E tx] staking_implements [OF assms(1), of tx] assms(2)
  by (cases "tx_payload tx") (auto simp: implements_def block_dispatch_def)

lemma block_execute_charged:
  assumes "represents E s" "verify_signature E tx = Inr ()"
    and "acc_nonce (lg_account (view E s) (tx_sender tx)) = tx_nonce tx"
    and "\<not> acc_balance (lg_account (view E s) (tx_sender tx)) < tx_fee tx"
  shows "block_execute E B tx s = block_dispatch E B tx (block_charge tx s)"
  using assms by (simp add: block_execute_def act_run backend_run lg_account_def set_account_def block_charge_def Let_def)

lemma block_implements:
  assumes "json_ok E"
  shows "implements (view E) (represents E) (block_execute E B tx) (spec_execute E tx)"
  unfolding implements_def
proof (intro allI impI)
  fix s assume ok: "represents E s"
  let ?guard = "verify_signature E tx = Inr () \<and> acc_nonce (lg_account (view E s) (tx_sender tx)) = tx_nonce tx
      \<and> \<not> acc_balance (lg_account (view E s) (tx_sender tx)) < tx_fee tx"
  show "represents E (snd (block_execute E B tx s)) \<and>
      spec_execute E tx (view E s) = (fst (block_execute E B tx s), view E (snd (block_execute E B tx s)))"
  proof (cases ?guard)
    case False
    then show ?thesis
      using ok by (cases "verify_signature E tx")
        (auto simp: block_execute_def spec_execute_def act_run backend_run lg_account_def dest: verify_signature_error)
  next
    case True
    with ok have "block_execute E B tx s = block_dispatch E B tx (block_charge tx s)"
      by (intro block_execute_charged) auto
    moreover note dispatch_implements [OF assms block_charge_view(1) [OF ok, of tx], of tx,
        unfolded block_charge_view(2) [OF ok]]
    ultimately show ?thesis
      using True by (simp add: spec_execute_def split: if_splits)
  qed
qed

end

section \<open>Value and stake of a ledger\<close>

definition bal :: "ledger \<Rightarrow> address \<Rightarrow> nat" where
  "bal L a = unat (acc_balance (lg_account L a))"

definition self_stake :: "ledger \<Rightarrow> address \<Rightarrow> nat" where
  "self_stake L v = (case lg_val L v of None \<Rightarrow> 0 | Some r \<Rightarrow> unat (vr_self_stake r))"

definition delegated_stake :: "ledger \<Rightarrow> address \<Rightarrow> nat" where
  "delegated_stake L v = (case lg_val L v of None \<Rightarrow> 0 | Some r \<Rightarrow> unat (vr_delegated_stake r))"

definition delegated_by :: "ledger \<Rightarrow> address \<Rightarrow> address \<Rightarrow> nat" where
  "delegated_by L d v = unat (dlg_amount (lg_delegated L d v))"

definition wealth :: "ledger \<Rightarrow> nat" where
  "wealth L = (\<Sum>a\<in>UNIV. bal L a) + (\<Sum>v\<in>UNIV. self_stake L v) + (\<Sum>v\<in>UNIV. delegated_stake L v)"

definition stakes_match :: "ledger \<Rightarrow> bool" where
  "stakes_match L \<longleftrightarrow> (\<forall>v. (\<Sum>d\<in>UNIV. delegated_by L d v) = delegated_stake L v)"

definition ledger_ok :: "ledger \<Rightarrow> bool" where
  "ledger_ok L \<longleftrightarrow> stakes_match L \<and> wealth L < 2 ^ 128"

named_theorems ledger_simps

lemma lg_account_put [simp]:
  "lg_account (lg_put a x L) b = (if b = a then x else lg_account L b)"
  "lg_account (lg_put_val v r L) b = lg_account L b"
  "lg_account (lg_put_dlg d v y L) b = lg_account L b"
  by (simp_all add: ledger_ops unwrap_account_def)

lemma lg_val_put [simp]:
  "lg_val (lg_put a x L) = lg_val L"
  "lg_val (lg_put_val v r L) = (lg_val L)(v \<mapsto> r)"
  "lg_val (lg_put_dlg d v y L) = lg_val L"
  by (simp_all add: ledger_ops)

lemma lg_dlg_put [simp]:
  "lg_dlg (lg_put a x L) = lg_dlg L"
  "lg_dlg (lg_put_val v r L) = lg_dlg L"
  "lg_dlg (lg_put_dlg d v y L) = (lg_dlg L)(d := (lg_dlg L d)(v := y))"
  by (simp_all add: ledger_ops)

lemma account_ops [simp]:
  "lg_account (debit a x L) b = (if b = a then (lg_account L a)\<lparr>acc_balance := acc_balance (lg_account L a) - x\<rparr> else lg_account L b)"
  "lg_account (credit a x L) b = (if b = a then (lg_account L a)\<lparr>acc_balance := acc_balance (lg_account L a) + x\<rparr> else lg_account L b)"
  "lg_account (charge tx L) b = (if b = tx_sender tx
     then (lg_account L b)\<lparr>acc_balance := acc_balance (lg_account L b) - tx_fee tx, acc_nonce := acc_nonce (lg_account L b) + 1\<rparr>
     else lg_account L b)"
  "lg_val (debit a x L) = lg_val L" "lg_val (credit a x L) = lg_val L" "lg_val (charge tx L) = lg_val L"
  "lg_dlg (debit a x L) = lg_dlg L" "lg_dlg (credit a x L) = lg_dlg L" "lg_dlg (charge tx L) = lg_dlg L"
  by (simp_all add: debit_def credit_def charge_def Let_def)

lemma total_debit:
  assumes "x \<le> acc_balance (lg_account L a)"
  shows "(\<Sum>b\<in>UNIV. bal (debit a x L) b) + unat x = (\<Sum>b\<in>UNIV. bal L b)"
proof -
  have "(\<Sum>b\<in>UNIV. bal (debit a x L) b) + bal L a = (\<Sum>b\<in>UNIV. bal L b) + bal (debit a x L) a"
    by (rule sum_change_one) (simp add: bal_def)
  moreover have "bal (debit a x L) a + unat x = bal L a"
    using assms by (simp add: bal_def unat_sub_exact word_le_nat_alt)
  ultimately show ?thesis by linarith
qed

lemma total_credit:
  assumes "bal L a + unat x < 2 ^ 128"
  shows "(\<Sum>b\<in>UNIV. bal (credit a x L) b) = (\<Sum>b\<in>UNIV. bal L b) + unat x"
proof -
  have "(\<Sum>b\<in>UNIV. bal (credit a x L) b) + bal L a = (\<Sum>b\<in>UNIV. bal L b) + bal (credit a x L) a"
    by (rule sum_change_one) (simp add: bal_def)
  moreover have "bal (credit a x L) a = bal L a + unat x"
    using assms by (simp add: bal_def unat_add_exact)
  ultimately show ?thesis by linarith
qed

lemma total_charge:
  assumes "tx_fee tx \<le> acc_balance (lg_account L (tx_sender tx))"
  shows "(\<Sum>b\<in>UNIV. bal (charge tx L) b) + unat (tx_fee tx) = (\<Sum>b\<in>UNIV. bal L b)"
proof -
  have "bal (charge tx L) b = bal (debit (tx_sender tx) (tx_fee tx) L) b" for b
    by (simp add: bal_def)
  then show ?thesis using total_debit [OF assms] by simp
qed

lemma stakes_of_val:
  "lg_val L = lg_val L' \<Longrightarrow> self_stake L = self_stake L' \<and> delegated_stake L = delegated_stake L'"
  by (simp add: self_stake_def delegated_stake_def fun_eq_iff)

lemma stakes_put_val [simp]:
  "self_stake (lg_put_val v r L) = (self_stake L)(v := unat (vr_self_stake r))"
  "delegated_stake (lg_put_val v r L) = (delegated_stake L)(v := unat (vr_delegated_stake r))"
  by (simp_all add: self_stake_def delegated_stake_def fun_eq_iff)

lemma delegated_by_put [simp]:
  "delegated_by (lg_put_dlg d v y L) e w =
     (if e = d \<and> w = v then unat (dlg_amount (case y of None \<Rightarrow> default_delegation | Some x \<Rightarrow> x)) else delegated_by L e w)"
  by (simp add: delegated_by_def lg_delegated_def)

lemma sum_fun_upd: "(\<Sum>a\<in>UNIV. (f(k := v)) a) + f k = (\<Sum>a\<in>UNIV. f a) + (v::nat)" for f :: "'a::finite \<Rightarrow> nat"
  using sum_change_one [of k "f(k := v)" f] by simp

lemma ledger_ok_same_stakes:
  assumes "ledger_ok L" "lg_val L' = lg_val L" "lg_dlg L' = lg_dlg L" "(\<Sum>b\<in>UNIV. bal L' b) = (\<Sum>b\<in>UNIV. bal L b)"
  shows "ledger_ok L' \<and> wealth L' = wealth L"
  using assms stakes_of_val [OF assms(2)]
  by (simp add: ledger_ok_def stakes_match_def wealth_def delegated_by_def lg_delegated_def)

lemma wealth_bounds:
  assumes "ledger_ok L"
  shows "(\<Sum>b\<in>UNIV. bal L b) < 2 ^ 128" "bal L a + delegated_stake L v < 2 ^ 128" "bal L a < 2 ^ 128"
    "bal L a + delegated_by L d v < 2 ^ 128" "delegated_by L d v \<le> delegated_stake L v"
proof -
  have "bal L a \<le> (\<Sum>b\<in>UNIV. bal L b)" "delegated_stake L v \<le> (\<Sum>b\<in>UNIV. delegated_stake L b)"
    by (rule member_le_sum_UNIV)+
  moreover show "delegated_by L d v \<le> delegated_stake L v"
    using assms member_le_sum_UNIV [of "\<lambda>d. delegated_by L d v" d] by (simp add: ledger_ok_def stakes_match_def)
  ultimately show "(\<Sum>b\<in>UNIV. bal L b) < 2 ^ 128" "bal L a + delegated_stake L v < 2 ^ 128" "bal L a < 2 ^ 128"
    "bal L a + delegated_by L d v < 2 ^ 128"
    using assms by (auto simp: ledger_ok_def wealth_def)
qed

lemma transfer_conserves:
  assumes "ledger_ok L" "spec_transfer tx L = (r, L')"
  shows "ledger_ok L' \<and> wealth L' = wealth L \<and> r \<noteq> Inl StorageFailure"
proof (cases "tx_amount tx = 0 \<or> acc_balance (lg_account L (tx_sender tx)) < tx_amount tx")
  case True
  then show ?thesis using assms by (auto simp: spec_transfer_def split: if_splits)
next
  case False
  define D where "D = debit (tx_sender tx) (tx_amount tx) L"
  have tot: "(\<Sum>b\<in>UNIV. bal D b) + unat (tx_amount tx) = (\<Sum>b\<in>UNIV. bal L b)"
    unfolding D_def using False by (intro total_debit) (simp add: not_less)
  then have fits: "bal D (tx_recipient tx) + unat (tx_amount tx) < 2 ^ 128"
    using wealth_bounds(1) [OF assms(1)] member_le_sum_UNIV [of "bal D" "tx_recipient tx"] by linarith
  then have "r = Inr (success 21000 ''ok'')" "L' = credit (tx_recipient tx) (tx_amount tx) D"
    using False assms(2) by (auto simp: spec_transfer_def D_def [symmetric] bal_def Let_def)
  moreover have "(\<Sum>b\<in>UNIV. bal (credit (tx_recipient tx) (tx_amount tx) D) b) = (\<Sum>b\<in>UNIV. bal L b)"
    using total_credit [OF fits] tot by simp
  ultimately show ?thesis
    using ledger_ok_same_stakes [OF assms(1), of L'] by (simp add: D_def)
qed

lemma register_conserves:
  assumes "ledger_ok L" "spec_register a pk bps stake L = (r, L')"
  shows "ledger_ok L' \<and> wealth L' = wealth L"
proof (cases "L' = L")
  case True
  then show ?thesis using assms by simp
next
  case False
  with assms(2) have new: "lg_val L a = None" "stake \<le> acc_balance (lg_account L a)"
    "L' = lg_put_val a (ValidatorRecord_new a pk stake bps) (debit a stake L)"
    by (auto simp: spec_register_def split: if_splits)
  have zero: "self_stake L a = 0" "delegated_stake L a = 0"
    using new(1) by (simp_all add: self_stake_def delegated_stake_def)
  have stakes: "self_stake L' = (self_stake L)(a := unat stake)" "delegated_stake L' = delegated_stake L"
    using zero(2) stakes_of_val [of "debit a stake L" L] by (auto simp: new(3) ValidatorRecord_new_def fun_eq_iff)
  have "delegated_by L' = delegated_by L"
    by (simp add: new(3) delegated_by_def lg_delegated_def fun_eq_iff)
  moreover have "(\<Sum>b\<in>UNIV. bal L' b) + unat stake = (\<Sum>b\<in>UNIV. bal L b)"
    using total_debit [OF new(2)] by (simp add: new(3) bal_def)
  moreover have "(\<Sum>v\<in>UNIV. self_stake L' v) = (\<Sum>v\<in>UNIV. self_stake L v) + unat stake"
    using sum_fun_upd [of "self_stake L" a "unat stake"] zero(1) by (simp only: stakes)
  ultimately show ?thesis
    using assms(1) by (simp add: ledger_ok_def stakes_match_def wealth_def stakes(2))
qed

lemma stake_update:
  assumes "stakes_match L"
    and "delegated_stake L' = (delegated_stake L)(v := m)"
    and "\<And>e w. delegated_by L' e w = (if e = d \<and> w = v then n else delegated_by L e w)"
    and "n + delegated_stake L v = delegated_by L d v + m"
  shows "stakes_match L'"
  unfolding stakes_match_def
proof
  fix w
  have "(\<Sum>e\<in>UNIV. delegated_by L' e v) + delegated_by L d v = (\<Sum>e\<in>UNIV. delegated_by L e v) + n"
    using sum_change_one [of d "\<lambda>e. delegated_by L' e v" "\<lambda>e. delegated_by L e v"] assms(3) by simp
  then have v: "(\<Sum>e\<in>UNIV. delegated_by L' e v) = m"
    using assms(1,4) by (simp add: stakes_match_def)
  show "(\<Sum>e\<in>UNIV. delegated_by L' e w) = delegated_stake L' w"
    using v assms(1) by (cases "w = v") (simp_all add: assms(2,3) stakes_match_def)
qed

lemma delegate_conserves:
  assumes "ledger_ok L" "spec_delegate a v amount L = (r, L')"
  shows "ledger_ok L' \<and> wealth L' = wealth L"
proof (cases "L' = L")
  case True
  then show ?thesis using assms by simp
next
  case False
  with assms(2) obtain rec where new: "lg_val L v = Some rec" "amount \<le> acc_balance (lg_account L a)"
    "L' = lg_put_dlg a v (Some ((lg_delegated L a v)\<lparr>dlg_amount := dlg_amount (lg_delegated L a v) + amount\<rparr>))
        (lg_put_val v (rec\<lparr>vr_delegated_stake := vr_delegated_stake rec + amount\<rparr>) (debit a amount L))"
    by (auto simp: spec_delegate_def split: if_splits option.splits)
  have le: "unat amount \<le> bal L a" using new(2) by (simp add: bal_def word_le_nat_alt)
  have rec: "delegated_stake L v = unat (vr_delegated_stake rec)" "self_stake L v = unat (vr_self_stake rec)"
    using new(1) by (simp_all add: delegated_stake_def self_stake_def)
  have m: "unat (vr_delegated_stake rec + amount) = delegated_stake L v + unat amount"
    using wealth_bounds(2) [OF assms(1), of a v] le rec(1) by (intro trans [OF unat_add_exact]) simp_all
  have n: "unat (dlg_amount (lg_delegated L a v) + amount) = delegated_by L a v + unat amount"
    using wealth_bounds(4) [OF assms(1), of a a v] le
    by (intro trans [OF unat_add_exact]) (simp_all add: delegated_by_def)
  have same: "self_stake (debit a amount L) = self_stake L" "delegated_stake (debit a amount L) = delegated_stake L"
    "delegated_by (debit a amount L) = delegated_by L"
    by (simp_all add: self_stake_def delegated_stake_def delegated_by_def lg_delegated_def fun_eq_iff)
  have val: "lg_val L' = lg_val (lg_put_val v (rec\<lparr>vr_delegated_stake := vr_delegated_stake rec + amount\<rparr>) (debit a amount L))"
    by (simp add: new(3))
  have self: "self_stake L' = self_stake L"
    using stakes_of_val [OF val] rec(2) by (simp add: same fun_eq_iff)
  have dst: "delegated_stake L' = (delegated_stake L)(v := delegated_stake L v + unat amount)"
    using stakes_of_val [OF val] m by (simp add: same)
  have dby: "delegated_by L' e w = (if e = a \<and> w = v then delegated_by L a v + unat amount else delegated_by L e w)" for e w
    using n same(3) by (auto simp: new(3) delegated_by_def lg_delegated_def fun_eq_iff)
  have "stakes_match L"
    using assms(1) by (simp add: ledger_ok_def)
  then have "stakes_match L'"
    by (rule stake_update [OF _ dst dby]) simp
  moreover have "(\<Sum>b\<in>UNIV. bal L' b) + unat amount = (\<Sum>b\<in>UNIV. bal L b)"
    using total_debit [OF new(2)] by (simp add: new(3) bal_def)
  moreover have "(\<Sum>w\<in>UNIV. delegated_stake L' w) = (\<Sum>w\<in>UNIV. delegated_stake L w) + unat amount"
    using sum_fun_upd [of "delegated_stake L" v "delegated_stake L v + unat amount"] by (simp only: dst)
  ultimately show ?thesis
    using assms(1) by (simp add: ledger_ok_def wealth_def self)
qed

lemma undelegate_conserves:
  assumes "ledger_ok L" "spec_undelegate a v amount L = (r, L')"
  shows "ledger_ok L' \<and> wealth L' = wealth L"
proof (cases "L' = L")
  case True
  then show ?thesis using assms by simp
next
  case False
  with assms(2) obtain d rec where old: "lg_dlg L a v = Some d" "amount \<le> dlg_amount d" "lg_val L v = Some rec" and
    new: "L' = credit a amount
       (lg_put_dlg a v (if dlg_amount d = amount then None else Some (d\<lparr>dlg_amount := dlg_amount d - amount\<rparr>))
         (lg_put_val v (rec\<lparr>vr_delegated_stake := saturating_sub (vr_delegated_stake rec) amount\<rparr>) L))"
    by (auto simp: spec_undelegate_def split: if_splits option.splits)
  have rec: "delegated_stake L v = unat (vr_delegated_stake rec)" "self_stake L v = unat (vr_self_stake rec)"
    using old(3) by (simp_all add: delegated_stake_def self_stake_def)
  have d: "delegated_by L a v = unat (dlg_amount d)"
    using old(1) by (simp add: delegated_by_def lg_delegated_def)
  have le: "unat amount \<le> delegated_by L a v" using old(2) d by (simp add: word_le_nat_alt)
  have self: "self_stake L' = self_stake L"
    using rec(2) by (auto simp: new self_stake_def fun_eq_iff)
  have dst: "delegated_stake L' = (delegated_stake L)(v := delegated_stake L v - unat amount)"
    using rec(1) by (auto simp: new delegated_stake_def fun_eq_iff unat_saturating_sub)
  have dby: "delegated_by L' e w = (if e = a \<and> w = v then delegated_by L a v - unat amount else delegated_by L e w)" for e w
    using d old(2) by (auto simp: new delegated_by_def lg_delegated_def default_delegation_def unat_sub_exact)
  note dv = wealth_bounds(5) [OF assms(1), of a v]
  have "stakes_match L"
    using assms(1) by (simp add: ledger_ok_def)
  then have "stakes_match L'"
    by (rule stake_update [OF _ dst dby]) (use le dv in simp)
  moreover have "(\<Sum>b\<in>UNIV. bal L' b) = (\<Sum>b\<in>UNIV. bal L b) + unat amount"
  proof -
    have "(\<Sum>b\<in>UNIV. bal (credit a amount L) b) = (\<Sum>b\<in>UNIV. bal L b) + unat amount"
      using wealth_bounds(4) [OF assms(1), of a a v] le by (intro total_credit) linarith
    moreover have "bal L' b = bal (credit a amount L) b" for b
      by (simp add: new bal_def)
    ultimately show ?thesis by simp
  qed
  moreover have "(\<Sum>w\<in>UNIV. delegated_stake L' w) + unat amount = (\<Sum>w\<in>UNIV. delegated_stake L w)"
    using sum_fun_upd [of "delegated_stake L" v "delegated_stake L v - unat amount"] le dv by (simp add: dst)
  ultimately show ?thesis
    using assms(1) by (simp add: ledger_ok_def wealth_def self)
qed

text \<open>When staking succeeds, and what it moves.\<close>

lemma delegate_succeeds:
  assumes "ledger_ok L" "lg_val L v = Some rec" "vr_status rec = Active" "MIN_DELEGATION \<le> amount" "amount \<le> acc_balance (lg_account L a)"
  shows "\<exists>L'. spec_delegate a v amount L = (Inr (success 30000 ''delegated''), L') \<and> bal L' a + unat amount = bal L a
    \<and> delegated_by L' a v = delegated_by L a v + unat amount \<and> delegated_stake L' v = delegated_stake L v + unat amount"
proof -
  have le: "unat amount \<le> bal L a" using assms(5) by (simp add: bal_def word_le_nat_alt)
  have "unat (vr_delegated_stake rec + amount) = delegated_stake L v + unat amount"
    using wealth_bounds(2) [OF assms(1), of a v] le assms(2) by (intro trans [OF unat_add_exact]) (simp_all add: delegated_stake_def)
  moreover have "unat (dlg_amount (lg_delegated L a v) + amount) = delegated_by L a v + unat amount"
    using wealth_bounds(4) [OF assms(1), of a a v] le by (intro trans [OF unat_add_exact]) (simp_all add: delegated_by_def)
  moreover have "unat (acc_balance (lg_account L a) - amount) + unat amount = bal L a"
    using assms(5) by (simp add: bal_def unat_sub_exact word_le_nat_alt)
  ultimately show ?thesis
    using assms(2-5) by (simp add: spec_delegate_def not_less [symmetric]) (simp add: bal_def delegated_stake_def)
qed

lemma undelegate_succeeds:
  assumes "ledger_ok L" "lg_val L v = Some rec" "lg_dlg L a v = Some d" "amount \<le> dlg_amount d"
  shows "\<exists>L'. spec_undelegate a v amount L = (Inr (success 30000 ''undelegated''), L') \<and> bal L' a = bal L a + unat amount
    \<and> delegated_by L' a v + unat amount = delegated_by L a v \<and> delegated_stake L' v + unat amount = delegated_stake L v"
proof -
  have d: "delegated_by L a v = unat (dlg_amount d)" using assms(3) by (simp add: delegated_by_def lg_delegated_def)
  then have le: "unat amount \<le> delegated_by L a v" using assms(4) by (simp add: word_le_nat_alt)
  have "unat (acc_balance (lg_account L a) + amount) = bal L a + unat amount"
    using wealth_bounds(4) [OF assms(1), of a a v] le by (intro trans [OF unat_add_exact]) (simp_all add: bal_def)
  moreover have "unat (saturating_sub (vr_delegated_stake rec) amount) + unat amount = delegated_stake L v"
    using wealth_bounds(5) [OF assms(1), of a v] le assms(2) by (simp add: unat_saturating_sub delegated_stake_def)
  moreover have "unat (dlg_amount d - amount) + unat amount = delegated_by L a v"
    using assms(4) d by (simp add: unat_sub_exact word_le_nat_alt)
  ultimately show ?thesis
    using assms(2-4) d by (simp add: spec_undelegate_def not_less [symmetric])
      (auto simp: bal_def delegated_stake_def delegated_by_def lg_delegated_def default_delegation_def)
qed

lemma charge_conserves:
  assumes "ledger_ok L" "\<not> acc_balance (lg_account L (tx_sender tx)) < tx_fee tx"
  shows "ledger_ok (charge tx L) \<and> wealth (charge tx L) + unat (tx_fee tx) = wealth L"
proof -
  have "(\<Sum>b\<in>UNIV. bal (charge tx L) b) + unat (tx_fee tx) = (\<Sum>b\<in>UNIV. bal L b)"
    using assms(2) by (intro total_charge) (simp add: not_less)
  then show ?thesis
    using assms(1) stakes_of_val [of "charge tx L" L]
    by (simp add: ledger_ok_def stakes_match_def wealth_def delegated_by_def lg_delegated_def)
qed

lemma staking_conserves:
  assumes "ledger_ok L" "spec_staking E tx L = (r, L')"
  shows "ledger_ok L' \<and> wealth L' = wealth L"
  using assms register_conserves [OF assms(1)] delegate_conserves [OF assms(1)] undelegate_conserves [OF assms(1)]
  by (auto simp: spec_staking_def split: sum.splits StakingOperation.splits)

lemma execute_cases:
  assumes "spec_execute E tx L = (r, L')"
  obtains
    (rejected) "L' = L" "r \<in> {Inl InvalidSignature, Inr (failure ''invalid nonce''), Inr (failure ''insufficient balance for fee'')}"
      "verify_signature E tx \<noteq> Inr () \<or> acc_nonce (lg_account L (tx_sender tx)) \<noteq> tx_nonce tx
         \<or> acc_balance (lg_account L (tx_sender tx)) < tx_fee tx"
  | (charged) "verify_signature E tx = Inr ()" "acc_nonce (lg_account L (tx_sender tx)) = tx_nonce tx"
      "\<not> acc_balance (lg_account L (tx_sender tx)) < tx_fee tx"
      "(r, L') = spec_transfer tx (charge tx L) \<or> (r, L') = spec_staking E tx (charge tx L)
         \<or> (r, L') = (Inr (failure ''invalid contract''), charge tx L)"
  using assms by (auto simp: spec_execute_def split: if_splits)

lemma execute_conserves:
  assumes "ledger_ok L" "spec_execute E tx L = (r, L')"
  shows "ledger_ok L' \<and> (L' = L \<or> wealth L' + unat (tx_fee tx) = wealth L)"
  using assms(2)
proof (cases rule: execute_cases)
  case rejected
  with assms(1) show ?thesis by simp
next
  case charged
  note c = charge_conserves [OF assms(1) charged(3)]
  then show ?thesis
    using charged(4) transfer_conserves [of "charge tx L" tx r L'] staking_conserves [of "charge tx L" E tx r L']
    by auto
qed

subsection \<open>Nonces and authority\<close>

lemma dispatch_nonces:
  assumes "(r, L') = spec_transfer tx L \<or> (r, L') = spec_staking E tx L \<or> (r, L') = (x, L)"
  shows "acc_nonce (lg_account L' b) = acc_nonce (lg_account L b)"
  using assms
  by (auto simp: spec_transfer_def spec_staking_def spec_register_def spec_delegate_def spec_undelegate_def Let_def
      split: if_splits sum.splits option.splits StakingOperation.splits)

lemma execute_nonces:
  assumes "spec_execute E tx L = (r, L')"
  shows "L' = L \<or> (\<forall>b. acc_nonce (lg_account L' b) =
     (if b = tx_sender tx then tx_nonce tx + 1 else acc_nonce (lg_account L b)))"
  using assms
proof (cases rule: execute_cases)
  case charged
  then show ?thesis using dispatch_nonces [OF charged(4)] by auto
qed simp

lemma execute_charges:
  assumes "spec_execute E tx L = (r, L')" "verify_signature E tx = Inr ()"
    and "acc_nonce (lg_account L (tx_sender tx)) = tx_nonce tx"
    and "\<not> acc_balance (lg_account L (tx_sender tx)) < tx_fee tx"
  shows "acc_nonce (lg_account L' (tx_sender tx)) = tx_nonce tx + 1 \<and> L' \<noteq> L"
  using assms(1)
proof (cases rule: execute_cases)
  case rejected
  then show ?thesis using assms by blast
next
  case charged
  then have "acc_nonce (lg_account L' (tx_sender tx)) = tx_nonce tx + 1"
    using dispatch_nonces [OF charged(4)] by auto
  then show ?thesis using assms(3) by auto
qed

lemma dispatch_authority:
  assumes "ledger_ok L" "(r, L') = spec_transfer tx L \<or> (r, L') = spec_staking E tx L \<or> (r, L') = (x, L)" "a \<noteq> tx_sender tx"
  shows "bal L a \<le> bal L' a \<and> lg_dlg L' a = lg_dlg L a"
proof -
  have "bal L a \<le> bal L' a \<and> lg_dlg L' a = lg_dlg L a" if "(r, L') = spec_transfer tx L"
    using that assms(3)
    by (auto simp: spec_transfer_def Let_def bal_def unat_add_exact split: if_splits)
  moreover have "bal L a \<le> bal L' a \<and> lg_dlg L' a = lg_dlg L a" if "(r, L') = spec_staking E tx L"
    using that assms(3)
    by (auto simp: spec_staking_def spec_register_def spec_delegate_def spec_undelegate_def bal_def
        split: if_splits sum.splits option.splits StakingOperation.splits)
  ultimately show ?thesis using assms(2) by auto
qed

lemma execute_authority:
  assumes "ledger_ok L" "spec_execute E tx L = (r, L')" "bal L' a < bal L a \<or> lg_dlg L' a \<noteq> lg_dlg L a"
  shows "a = tx_sender tx \<and> verify_signature E tx = Inr ()"
  using assms(2)
proof (cases rule: execute_cases)
  case charged
  note c = charge_conserves [OF assms(1) charged(3)]
  then show ?thesis
    using dispatch_authority [OF _ charged(4), of a] charged(1) assms(3)
    by (cases "a = tx_sender tx") (auto simp: bal_def)
next
  case rejected
  with assms(3) show ?thesis by simp
qed

section \<open>The executor on the two backends\<close>

definition im_ledger :: "externs \<Rightarrow> InMemoryBackend \<Rightarrow> ledger" where
  "im_ledger E s = ledger_view E (om_get (im_accounts s)) (om_get (im_raw s))"

definition im_ok :: "externs \<Rightarrow> InMemoryBackend \<Rightarrow> bool" where
  "im_ok E s \<longleftrightarrow> im_inv s \<and> canonical E (om_get (im_raw s))"

definition rocks_ledger :: "externs \<Rightarrow> ('d \<Rightarrow> (bytes, bytes) omap) \<Rightarrow> 'd \<Rightarrow> ledger" where
  "rocks_ledger E db d = ledger_view E (rocks_acct E db d) (rocks_raw db d)"

definition rocks_ok :: "externs \<Rightarrow> ('d \<Rightarrow> (bytes, bytes) omap) \<Rightarrow> 'd \<Rightarrow> bool" where
  "rocks_ok E db d \<longleftrightarrow> rocks_inv E db d \<and> canonical E (rocks_raw db d)"

lemma im_refines:
  assumes "json_ok E" "im_ok E s" "block_execute E (im_backend E) tx s = (r, s')"
  shows "spec_execute E tx (im_ledger E s) = (r, im_ledger E s')" "im_ok E s'"
  using im.block_implements [OF assms(1), of E tx] assms(2,3)
  by (auto simp: implements_def im_ok_def im_ledger_def)

lemma rocks_refines:
  assumes "json_ok E" "rocksdb_ok R db" "rocks_ok E db d" "block_execute E (rocks_backend E R) tx d = (r, d')"
  shows "spec_execute E tx (rocks_ledger E db d) = (r, rocks_ledger E db d')" "rocks_ok E db d'"
  using state_backend.block_implements [OF rocks_state_backend [OF assms(1,2)] assms(1), of tx] assms(3,4)
  by (auto simp: implements_def rocks_ok_def rocks_ledger_def)

text \<open>
  C1. Refinement: on the in-memory backend the block executor computes exactly the outcome of the
  specification on the ledger the backend represents, on every branch, errors included, and leaves
  a well-formed backend.
\<close>

theorem block_execute_refines_spec:
  assumes "json_ok E" "im_ok E s" "block_execute E (im_backend E) tx s = (r, s')"
  shows "spec_execute E tx (im_ledger E s) = (r, im_ledger E s') \<and> im_ok E s'"
  using im_refines [OF assms] by simp

text \<open>
  C12. Determinism across backends: a node on RocksDB and a node on the in-memory backend whose stores
  represent the same ledger compute the same result for a transaction and the same state root
  after it.
\<close>

theorem backends_in_lockstep:
  assumes "json_ok E" "hex_ok E" "rocksdb_ok R db" "rocks_ok E db d" "im_ok E s"
    and "rocks_ledger E db d = im_ledger E s"
    and "block_execute E (rocks_backend E R) tx d = (r, d')"
    and "block_execute E (im_backend E) tx s = (q, s')"
  shows "r = q \<and> rocks_ledger E db d' = im_ledger E s'
       \<and> store_state_root (rocks_backend E R) d' = store_state_root (im_backend E) s'"
proof -
  note rocks = rocks_refines [OF assms(1,3,4,7)] and inmem = im_refines [OF assms(1,5,8)]
  have same: "r = q" "rocks_ledger E db d' = im_ledger E s'"
    using rocks(1) inmem(1) assms(6) by simp_all
  have "rocks_acct E db d' = om_get (im_accounts s')" "rocks_raw db d' = om_get (im_raw s')"
    using canonical_view_eq [OF assms(1), of "rocks_raw db d'" "om_get (im_raw s')"] same(2) rocks(2) inmem(2)
    by (auto simp: rocks_ledger_def im_ledger_def rocks_ok_def im_ok_def)
  then have "store_state_root (rocks_backend E R) d' = store_state_root (im_backend E) s'"
    using rocks(2) inmem(2) state_backend.store_get_account_law [OF rocks_state_backend [OF assms(1,3)]]
      state_backend.get_raw_law [OF rocks_state_backend [OF assms(1,3)]]
      im.store_get_account_law [of s' E] im.get_raw_law [of s' _ E]
    by (intro same_state_root [OF assms(1-3)]) (simp_all add: rocks_ok_def im_ok_def)
  with same show ?thesis by simp
qed

text \<open>
  C2. Conservation: executing a transaction neither creates nor destroys value except for the fee.
  Whatever the outcome, the state is unchanged or the sum of all balances and stakes falls by
  exactly the fee; the delegations recorded for each validator keep adding up to its delegated
  stake, and the sums stay below the width of a balance, so no later addition wraps.
\<close>

theorem block_execute_conserves_value:
  assumes "json_ok E" "im_ok E s" "ledger_ok (im_ledger E s)"
    and "block_execute E (im_backend E) tx s = (r, s')"
  shows "ledger_ok (im_ledger E s')
       \<and> (im_ledger E s' = im_ledger E s \<or> wealth (im_ledger E s') + unat (tx_fee tx) = wealth (im_ledger E s))"
  using execute_conserves [OF assms(3) im_refines(1) [OF assms(1,2,4)]] by simp

text \<open>
  C7. Replay protection: a transaction that changed the state is rejected with the message
  \<open>invalid nonce\<close>, and changes nothing, when it is executed again at once.
\<close>

theorem block_execute_replay_rejected:
  assumes "json_ok E" "im_ok E s"
    and "block_execute E (im_backend E) tx s = (r, s')" "im_ledger E s' \<noteq> im_ledger E s"
    and "block_execute E (im_backend E) tx s' = (q, s'')"
  shows "q = Inr (failure ''invalid nonce'') \<and> im_ledger E s'' = im_ledger E s'"
proof -
  note first = im_refines [OF assms(1,2,3)]
  have "acc_nonce (lg_account (im_ledger E s') (tx_sender tx)) = tx_nonce tx + 1"
    using execute_nonces [OF first(1)] assms(4) by auto
  moreover have "verify_signature E tx = Inr ()"
    using first(1) assms(4) by (auto simp: spec_execute_def split: if_splits)
  ultimately show ?thesis
    using im_refines(1) [OF assms(1) first(2) assms(5)] by (simp add: spec_execute_def)
qed

text \<open>
  C6. Authority: an account's balance goes down, or its delegations change, only by a transaction it
  is the sender of, with a public key that hashes to its address and a signature that verifies.
\<close>

theorem block_execute_only_signer_spends:
  assumes "json_ok E" "im_ok E s" "ledger_ok (im_ledger E s)"
    and "block_execute E (im_backend E) tx s = (r, s')"
    and "bal (im_ledger E s') a < bal (im_ledger E s) a \<or> lg_dlg (im_ledger E s') a \<noteq> lg_dlg (im_ledger E s) a"
  shows "a = tx_sender tx \<and> hash_bytes E (tx_public_key tx) = a
       \<and> dalek_verify E (tx_public_key tx) (bytes_of (signing_hash E tx)) (tx_signature tx)"
proof -
  have "a = tx_sender tx \<and> verify_signature E tx = Inr ()"
    by (rule execute_authority [OF assms(3) im_refines(1) [OF assms(1,2,4)] assms(5)])
  then show ?thesis
    by (auto simp: verify_signature_def bytes32_eq_iff ed25519_verify_Inr split: if_splits)
qed

section \<open>Witnesses\<close>

lemma ledger_ok_accounts:
  assumes "sum_list (map (unat \<circ> acc_balance) (om_values m)) < 2 ^ 128"
  shows "ledger_ok (ledger_view E (om_get m) Map.empty)"
    "wealth (ledger_view E (om_get m) Map.empty) = sum_list (map (unat \<circ> acc_balance) (om_values m))"
proof -
  let ?f = "\<lambda>x. unat (acc_balance (unwrap_account x))"
  have "(\<Sum>a\<in>UNIV. ?f (om_get m a)) = sum_list (map (?f \<circ> Some) (om_values m))"
    by (rule om_sum_entries) (simp add: unwrap_account_def default_account_def)
  also have "?f \<circ> Some = unat \<circ> acc_balance"
    by (simp add: fun_eq_iff unwrap_account_def)
  finally have tot: "(\<Sum>a\<in>UNIV. bal (ledger_view E (om_get m) Map.empty) a) = sum_list (map (unat \<circ> acc_balance) (om_values m))"
    by (simp add: bal_def lg_account_def comp_def)
  then show "wealth (ledger_view E (om_get m) Map.empty) = sum_list (map (unat \<circ> acc_balance) (om_values m))"
    by (simp add: wealth_def self_stake_def delegated_stake_def)
  with assms show "ledger_ok (ledger_view E (om_get m) Map.empty)"
    by (simp add: ledger_ok_def stakes_match_def delegated_by_def delegated_stake_def lg_delegated_def default_delegation_def)
qed

text \<open>A store with one funded account, and a signed transfer from it.\<close>

definition demo_address :: address where "demo_address = array32 [5]"

definition demo_store :: InMemoryBackend where
  "demo_store = \<lparr>im_accounts = om_insert demo_address (Account_new 1000 0) om_empty, im_raw = om_empty\<rparr>"

lemma demo_store_ok: "im_ok demo_externs demo_store" "ledger_ok (im_ledger demo_externs demo_store)"
  using ledger_ok_accounts(1) [of "im_accounts demo_store" demo_externs]
  by (simp_all add: im_ok_def im_inv_def im_ledger_def demo_store_def om_values_def om_insert.rep_eq om_empty.rep_eq
      Account_new_def)

text \<open>The same with a validator whose stake is enough for the committee and a delegation to it.\<close>

definition demo_staked :: InMemoryBackend where
  "demo_staked =
     snd (staking_delegate demo_externs (im_backend demo_externs) demo_address zero32 300
       (snd (staking_register demo_externs (im_backend demo_externs) zero32 [1] 0 200000000000000
         \<lparr>im_accounts = om_insert zero32 (Account_new 200000000000000 0) (om_insert demo_address (Account_new 1300 0) om_empty), im_raw = om_empty\<rparr>)))"

lemma zero_not_demo: "zero32 \<noteq> demo_address"
proof
  assume "zero32 = demo_address"
  then have "hd (bytes_of zero32) = hd (bytes_of demo_address)" by simp
  then show False by (simp add: zero32_def demo_address_def bytes_of_array32_pad)
qed

lemma demo_staked_facts:
  "im_ok demo_externs demo_staked" "ledger_ok (im_ledger demo_externs demo_staked)" "wealth (im_ledger demo_externs demo_staked) = 200000000001300"
  "lg_account (im_ledger demo_externs demo_staked) demo_address = Account_new 1000 0"
  "lg_val (im_ledger demo_externs demo_staked) =
     [zero32 \<mapsto> (ValidatorRecord_new zero32 [1] 200000000000000 0)\<lparr>vr_delegated_stake := 300\<rparr>]"
  "\<exists>d. lg_dlg (im_ledger demo_externs demo_staked) demo_address zero32 = Some d \<and> dlg_amount d = 300"
proof -
  define m where "m = om_insert zero32 (Account_new 200000000000000 0) (om_insert demo_address (Account_new 1300 0) om_empty)"
  define b0 where "b0 = \<lparr>im_accounts = m, im_raw = om_empty\<rparr>"
  define b1 where "b1 = snd (staking_register demo_externs (im_backend demo_externs) zero32 [1] 0 200000000000000 b0)"
  have b2: "demo_staked = snd (staking_delegate demo_externs (im_backend demo_externs) demo_address zero32 300 b1)"
    by (simp add: demo_staked_def b1_def b0_def m_def)
  let ?L0 = "im_ledger demo_externs b0" and ?L1 = "im_ledger demo_externs b1" and ?L2 = "im_ledger demo_externs demo_staked"
  have ok0: "im_ok demo_externs b0" by (simp add: im_ok_def im_inv_def b0_def)
  obtain r1 where r1: "im_ok demo_externs b1" "spec_register zero32 [1] 0 200000000000000 ?L0 = (r1, ?L1)"
    using im.register_implements [OF demo_json_ok, of demo_externs zero32 "[1]" 0 200000000000000] ok0
    by (auto simp: implements_def im_ok_def im_ledger_def b1_def)
  obtain r2 where r2: "im_ok demo_externs demo_staked" "spec_delegate demo_address zero32 300 ?L1 = (r2, ?L2)"
    using im.delegate_implements [OF demo_json_ok, of demo_externs demo_address zero32 300] r1(1)
    by (auto simp: implements_def im_ok_def im_ledger_def b2)
  have acct: "lg_account ?L0 zero32 = Account_new 200000000000000 0" "lg_account ?L0 demo_address = Account_new 1300 0" "lg_val ?L0 = Map.empty" "lg_dlg ?L0 = (\<lambda>_. Map.empty)"
    using zero_not_demo by (simp_all add: im_ledger_def b0_def m_def lg_account_def unwrap_account_def fun_eq_iff)
  have "lg_account ?L0 a = default_account" if "a \<noteq> zero32" "a \<noteq> demo_address" for a
    using that by (simp add: im_ledger_def b0_def m_def lg_account_def unwrap_account_def)
  then have "(\<Sum>a\<in>UNIV. bal ?L0 a) = (\<Sum>a\<in>{zero32, demo_address}. bal ?L0 a)"
    by (intro sum.mono_neutral_right) (auto simp: bal_def default_account_def)
  also have "\<dots> = 200000000001300" using zero_not_demo by (simp add: bal_def acct Account_new_def)
  finally have "wealth ?L0 = 200000000001300" by (simp add: wealth_def self_stake_def delegated_stake_def acct)
  then have wealth0: "ledger_ok ?L0 \<and> wealth ?L0 = 200000000001300"
    by (simp add: ledger_ok_def stakes_match_def delegated_by_def delegated_stake_def lg_delegated_def acct default_delegation_def)
  have L1: "?L1 = lg_put_val zero32 (ValidatorRecord_new zero32 [1] 200000000000000 0) (debit zero32 200000000000000 ?L0)"
    using r1(2) acct by (simp add: spec_register_def MIN_SELF_STAKE_def Account_new_def)
  have rec: "lg_val ?L1 zero32 = Some (ValidatorRecord_new zero32 [1] 200000000000000 0)" by (simp add: L1)
  have a1: "lg_account ?L1 demo_address = Account_new 1300 0" using zero_not_demo acct by (simp add: L1)
  have L2: "?L2 = lg_put_dlg demo_address zero32 (Some ((lg_delegated ?L1 demo_address zero32)\<lparr>dlg_amount := dlg_amount (lg_delegated ?L1 demo_address zero32) + 300\<rparr>))
      (lg_put_val zero32 ((ValidatorRecord_new zero32 [1] 200000000000000 0)\<lparr>vr_delegated_stake := 300\<rparr>) (debit demo_address 300 ?L1))"
    using r2(2) rec a1 by (simp add: spec_delegate_def MIN_DELEGATION_def Account_new_def ValidatorRecord_new_def)
  have w1: "ledger_ok ?L1 \<and> wealth ?L1 = 200000000001300" using register_conserves [OF _ r1(2)] wealth0 by simp
  then have w2: "ledger_ok ?L2 \<and> wealth ?L2 = 200000000001300" using delegate_conserves [OF _ r2(2)] by simp
  show "im_ok demo_externs demo_staked" by (rule r2(1))
  show "ledger_ok ?L2" "wealth ?L2 = 200000000001300" using w2 by simp_all
  show "lg_account ?L2 demo_address = Account_new 1000 0" by (simp add: L2 a1) (simp add: Account_new_def)
  show "lg_val ?L2 = [zero32 \<mapsto> (ValidatorRecord_new zero32 [1] 200000000000000 0)\<lparr>vr_delegated_stake := 300\<rparr>]"
    by (simp add: L2 L1 acct)
  have "dlg_amount (lg_delegated ?L1 demo_address zero32) = 0" by (simp add: L1 lg_delegated_def acct default_delegation_def)
  then show "\<exists>d. lg_dlg ?L2 demo_address zero32 = Some d \<and> dlg_amount d = 300" by (simp add: L2)
qed

lemma demo_signed_transfer:
  obtains tx where "verify_signature demo_externs tx = Inr ()" "tx_sender tx = demo_address"
    "tx_recipient tx = zero32" "tx_amount tx = 100" "tx_nonce tx = 0" "tx_fee tx = 1" "tx_payload tx = []"
proof -
  define w where "w = Wallet_from_keypair demo_externs (keypair_of_secret demo_externs demo_address)"
  have "tb_sender (with_fee 1 (with_nonce 0 (with_amount 100 (with_recipient zero32
      (with_sender demo_address TransactionBuilder_new))))) = hash_bytes demo_externs (kp_public (keypair_of_secret demo_externs demo_address))"
    by (simp add: with_sender_def with_recipient_def with_amount_def with_nonce_def with_fee_def
        TransactionBuilder_new_def keypair_of_secret_def hash_bytes_def demo_externs_def)
  from sign_verifies [OF demo_dalek_ok this] show ?thesis
    using that by (auto simp: with_sender_def with_recipient_def with_amount_def with_nonce_def with_fee_def
        TransactionBuilder_new_def)
qed

lemma demo_transfer_runs:
  assumes "verify_signature demo_externs tx = Inr ()" "tx_sender tx = demo_address" "tx_recipient tx = zero32"
    "tx_amount tx = 100" "tx_nonce tx = 0" "tx_fee tx = 1" "tx_payload tx = []"
  obtains s' where "block_execute demo_externs (im_backend demo_externs) tx demo_store = (Inr (success 21000 ''ok''), s')"
    "im_ledger demo_externs s' \<noteq> im_ledger demo_externs demo_store" "bal (im_ledger demo_externs s') demo_address = 899"
    "im_ok demo_externs s'" "lg_val (im_ledger demo_externs s') = Map.empty"
proof -
  obtain r s' where run: "block_execute demo_externs (im_backend demo_externs) tx demo_store = (r, s')" by fastforce
  note spec = im_refines [OF demo_json_ok demo_store_ok(1) run]
  have acct: "lg_account (im_ledger demo_externs demo_store) a =
      (if a = demo_address then Account_new 1000 0 else default_account)" for a
    by (simp add: im_ledger_def demo_store_def lg_account_def unwrap_account_def)
  note zero_not_demo
  with spec(1) have out: "r = Inr (success 21000 ''ok'')"
    "im_ledger demo_externs s' = credit zero32 100 (debit demo_address 100 (charge tx (im_ledger demo_externs demo_store)))"
    by (auto simp: spec_execute_def spec_transfer_def assms acct Account_new_def default_account_def Let_def)
  have nonce: "acc_nonce (lg_account (im_ledger demo_externs s') demo_address) = 1"
    and "bal (im_ledger demo_externs s') demo_address = 899"
    using zero_not_demo by (simp_all add: out(2) assms acct Account_new_def bal_def)
  moreover have "im_ledger demo_externs s' \<noteq> im_ledger demo_externs demo_store"
    using nonce acct [of demo_address] by (auto simp: Account_new_def)
  moreover have "lg_val (im_ledger demo_externs s') = Map.empty"
    by (simp add: out(2)) (simp add: im_ledger_def demo_store_def fun_eq_iff)
  ultimately show ?thesis
    using that run out(1) spec(2) by simp
qed

theorem block_execute_refines_spec_witness:
  "\<exists>tx s'. block_execute demo_externs (im_backend demo_externs) tx demo_store = (Inr (success 21000 ''ok''), s') \<and>
     spec_execute demo_externs tx (im_ledger demo_externs demo_store) = (Inr (success 21000 ''ok''), im_ledger demo_externs s')"
proof -
  obtain tx s' where "block_execute demo_externs (im_backend demo_externs) tx demo_store = (Inr (success 21000 ''ok''), s')"
    by (metis demo_signed_transfer demo_transfer_runs)
  with block_execute_refines_spec [OF demo_json_ok demo_store_ok(1) this] show ?thesis by blast
qed

theorem block_execute_conserves_value_witness:
  "\<exists>tx r s'. block_execute demo_externs (im_backend demo_externs) tx demo_store = (r, s') \<and>
     im_ledger demo_externs s' \<noteq> im_ledger demo_externs demo_store \<and>
     wealth (im_ledger demo_externs s') + 1 = wealth (im_ledger demo_externs demo_store)"
proof -
  obtain tx where tx: "verify_signature demo_externs tx = Inr ()" "tx_sender tx = demo_address"
    "tx_recipient tx = zero32" "tx_amount tx = 100" "tx_nonce tx = 0" "tx_fee tx = 1" "tx_payload tx = []"
    by (rule demo_signed_transfer)
  obtain s' where run: "block_execute demo_externs (im_backend demo_externs) tx demo_store = (Inr (success 21000 ''ok''), s')"
    "im_ledger demo_externs s' \<noteq> im_ledger demo_externs demo_store"
    by (rule demo_transfer_runs [OF tx])
  from block_execute_conserves_value [OF demo_json_ok demo_store_ok run(1)] run tx(6)
  show ?thesis by auto
qed

theorem block_execute_replay_rejected_witness:
  "\<exists>tx r s' s''. block_execute demo_externs (im_backend demo_externs) tx demo_store = (r, s') \<and>
     im_ledger demo_externs s' \<noteq> im_ledger demo_externs demo_store \<and>
     block_execute demo_externs (im_backend demo_externs) tx s' = (Inr (failure ''invalid nonce''), s'')"
proof -
  obtain tx s' where run: "block_execute demo_externs (im_backend demo_externs) tx demo_store = (Inr (success 21000 ''ok''), s')"
    "im_ledger demo_externs s' \<noteq> im_ledger demo_externs demo_store"
    by (metis demo_signed_transfer demo_transfer_runs)
  obtain q s'' where again: "block_execute demo_externs (im_backend demo_externs) tx s' = (q, s'')" by fastforce
  from block_execute_replay_rejected [OF demo_json_ok demo_store_ok(1) run again] run again
  show ?thesis by blast
qed

theorem block_execute_only_signer_spends_witness:
  "\<exists>tx r s'. block_execute demo_externs (im_backend demo_externs) tx demo_store = (r, s') \<and>
     bal (im_ledger demo_externs s') demo_address < bal (im_ledger demo_externs demo_store) demo_address \<and>
     tx_sender tx = demo_address"
proof -
  obtain tx s' where run: "block_execute demo_externs (im_backend demo_externs) tx demo_store = (Inr (success 21000 ''ok''), s')"
    "bal (im_ledger demo_externs s') demo_address = 899"
    by (metis demo_signed_transfer demo_transfer_runs)
  then have less: "bal (im_ledger demo_externs s') demo_address < bal (im_ledger demo_externs demo_store) demo_address"
    by (simp add: bal_def im_ledger_def demo_store_def lg_account_def unwrap_account_def Account_new_def)
  from block_execute_only_signer_spends [OF demo_json_ok demo_store_ok run(1) disjI1, OF less]
  have "tx_sender tx = demo_address" by simp
  with run(1) less show ?thesis by blast
qed

definition demo_db :: "(bytes, bytes) omap" where
  "demo_db = om_insert (account_key demo_address) (json_account demo_externs (Account_new 1000 0)) om_empty"

lemma demo_db_ok: "rocks_ok demo_externs (\<lambda>d. d) demo_db"
  "rocks_ledger demo_externs (\<lambda>d. d) demo_db = im_ledger demo_externs demo_store"
proof -
  have raw: "rocks_raw (\<lambda>d. d) demo_db = Map.empty"
    using account_key_not_protocol by (auto simp: rocks_raw_def demo_db_def fun_eq_iff)
  have "rocks_acct demo_externs (\<lambda>d. d) demo_db = om_get (im_accounts demo_store)"
    by (simp add: rocks_acct_def demo_db_def demo_store_def fun_eq_iff json_okD [OF demo_json_ok])
  then show "rocks_ledger demo_externs (\<lambda>d. d) demo_db = im_ledger demo_externs demo_store"
    by (simp add: rocks_ledger_def im_ledger_def raw) (simp add: demo_store_def)
  show "rocks_ok demo_externs (\<lambda>d. d) demo_db"
    by (auto simp: rocks_ok_def raw rocks_inv_def) (auto simp: demo_db_def split: if_splits)
qed

theorem backends_in_lockstep_witness:
  "\<exists>tx r d' s'. block_execute demo_externs (rocks_backend demo_externs demo_rocksdb) tx demo_db = (r, d') \<and>
     block_execute demo_externs (im_backend demo_externs) tx demo_store = (r, s') \<and>
     im_ledger demo_externs s' \<noteq> im_ledger demo_externs demo_store \<and>
     store_state_root (rocks_backend demo_externs demo_rocksdb) d' = store_state_root (im_backend demo_externs) s'"
proof -
  obtain tx s' where run: "block_execute demo_externs (im_backend demo_externs) tx demo_store = (Inr (success 21000 ''ok''), s')"
    "im_ledger demo_externs s' \<noteq> im_ledger demo_externs demo_store"
    by (metis demo_signed_transfer demo_transfer_runs)
  obtain r d' where rocks: "block_execute demo_externs (rocks_backend demo_externs demo_rocksdb) tx demo_db = (r, d')" by fastforce
  from backends_in_lockstep [OF demo_json_ok demo_hex_ok demo_rocksdb_ok demo_db_ok(1) demo_store_ok(1) demo_db_ok(2) rocks run(1)]
    run rocks show ?thesis by blast
qed

end
