(* ===== verification/Economics.thy ===== *)
theory Economics
  imports Ledger Protocol
begin

text \<open>
  Model of src/crates/pemrix-consensus/src/slashing.rs and rewards.rs: slashing and jailing of a
  validator record, release of jailed validators, and the split of a block reward. The functions are
  exported by the crate; the node does not call them yet. Products are taken modulo \<open>2 ^ 128\<close>, as
  in the compiled program, and the theorems state the bounds under which they are exact.
\<close>

section \<open>Slashing\<close>

datatype Misbehavior =
    DoubleSign u64 u64
  | Downtime u64 u64
  | Equivocation u64 u64

record SlashingPolicy =
  sp_double_sign_bps :: u16
  sp_downtime_bps :: u16
  sp_equivocation_bps :: u16
  sp_double_sign_jail_blocks :: u64
  sp_downtime_jail_blocks :: u64
  sp_equivocation_jail_blocks :: u64
  sp_downtime_threshold_ratio :: u8

definition default_policy :: SlashingPolicy where
  "default_policy =
     \<lparr>sp_double_sign_bps = 500, sp_downtime_bps = 10, sp_equivocation_bps = 100,
      sp_double_sign_jail_blocks = 60 * 24 * 60, sp_downtime_jail_blocks = 7 * 24 * 60,
      sp_equivocation_jail_blocks = 14 * 24 * 60, sp_downtime_threshold_ratio = 50\<rparr>"

definition slash_terms :: "SlashingPolicy \<Rightarrow> Misbehavior \<Rightarrow> u16 \<times> u64" where
  "slash_terms p m =
     (case m of
        DoubleSign _ _ \<Rightarrow> (sp_double_sign_bps p, sp_double_sign_jail_blocks p)
      | Downtime _ _ \<Rightarrow> (sp_downtime_bps p, sp_downtime_jail_blocks p)
      | Equivocation _ _ \<Rightarrow> (sp_equivocation_bps p, sp_equivocation_jail_blocks p))"

definition apply_slash ::
    "ValidatorRecord \<Rightarrow> Misbehavior \<Rightarrow> u64 \<Rightarrow> SlashingPolicy \<Rightarrow> balance \<times> ValidatorRecord" where
  "apply_slash r m current_height policy =
     (let (slash_bps, jail_blocks) = slash_terms policy m;
          stake = total_stake r;
          slash_amount = stake * ucast slash_bps div 10000;
          jailed = r\<lparr>vr_status := Jailed, vr_jailed_until := current_height + jail_blocks\<rparr>
      in if vr_self_stake r \<ge> slash_amount
         then (slash_amount, jailed\<lparr>vr_self_stake := vr_self_stake r - slash_amount\<rparr>)
         else (slash_amount, jailed\<lparr>vr_self_stake := 0,
                 vr_delegated_stake := saturating_sub (vr_delegated_stake r) (slash_amount - vr_self_stake r)\<rparr>))"

definition is_jailed :: "ValidatorRecord \<Rightarrow> u64 \<Rightarrow> bool" where
  "is_jailed r current_height \<longleftrightarrow> vr_status r = Jailed \<and> current_height < vr_jailed_until r"

definition release_record :: "u64 \<Rightarrow> ValidatorRecord \<Rightarrow> ValidatorRecord" where
  "release_record current_height r =
     (if vr_status r = Jailed \<and> current_height \<ge> vr_jailed_until r
      then r\<lparr>vr_status := Active, vr_jailed_until := 0\<rparr> else r)"

definition release_validators ::
    "(address, ValidatorRecord) omap \<Rightarrow> u64 \<Rightarrow> (address, ValidatorRecord) omap" where
  "release_validators records current_height = om_map_values (release_record current_height) records"

section \<open>Rewards\<close>

record RewardSplit =
  rs_validator_commission :: balance
  rs_delegator_pool :: balance

definition pay :: "address \<Rightarrow> balance \<Rightarrow> (address, balance) omap \<Rightarrow> (address, balance) omap" where
  "pay v amount payouts =
     om_insert v (saturating_add (case om_get payouts v of None \<Rightarrow> 0 | Some x \<Rightarrow> x) amount) payouts"

definition pay_validator ::
    "(address, ValidatorRecord) omap \<Rightarrow> balance \<Rightarrow> balance \<Rightarrow> address \<Rightarrow> address \<Rightarrow>
     (address, balance) omap \<Rightarrow> (address, balance) omap" where
  "pay_validator records per_validator proposer_bonus proposer v payouts =
     (let amount = (if v = proposer then saturating_add per_validator proposer_bonus else per_validator)
      in case om_get records v of
           Some rec \<Rightarrow>
             let commission = amount * ucast (vr_commission_bps rec) div 10000;
                 operator_share = commission;
                 delegator_share = amount - commission
             in pay v delegator_share (pay v operator_share payouts)
         | None \<Rightarrow> pay v amount payouts)"

definition distribute_block_reward ::
    "address list \<Rightarrow> (address, ValidatorRecord) omap \<Rightarrow> balance \<Rightarrow> address \<Rightarrow> (address, balance) omap" where
  "distribute_block_reward vals records total_reward proposer =
     (if vals = [] \<or> total_reward = 0 then om_empty
      else
        let proposer_bonus = total_reward div 10;
            remaining = total_reward - proposer_bonus;
            per_validator = remaining div of_nat (length vals)
        in fold (pay_validator records per_validator proposer_bonus proposer) vals om_empty)"

section \<open>Slashing is exact\<close>

lemma unat_ucast_u16_u128 [simp]: "unat (ucast (x :: u16) :: u128) = unat x"
  by (simp add: unat_ucast_up)

text \<open>
  C37. Slashing takes exactly the policy's share of the total stake, rounded down, when the policy's rate is at most 10000 basis points and
  nothing overflows: the total stake, and its product with the rate, below \<open>2 ^ 128\<close>, and the end of the jail period below \<open>2 ^ 64\<close>. Then the sum of
  self and delegated stake falls by the returned amount, self stake first; the validator is jailed and stays
  so until the jail period has passed; and \<open>release_validators\<close>, over any records that hold the slashed one, makes it active at that height and
  not before, with the stakes it was left with.
\<close>

theorem apply_slash_exact:
  assumes "slash_terms policy m = (bps, blocks)" "unat bps \<le> 10000"
    and "(unat (vr_self_stake r) + unat (vr_delegated_stake r)) * unat bps < 2 ^ 128"
    and "unat (vr_self_stake r) + unat (vr_delegated_stake r) < 2 ^ 128"
    and "unat h + unat blocks < 2 ^ 64"
    and "apply_slash r m h policy = (amount, r')"
  shows "unat amount = (unat (vr_self_stake r) + unat (vr_delegated_stake r)) * unat bps div 10000
       \<and> unat (vr_self_stake r') + unat (vr_delegated_stake r') + unat amount
           = unat (vr_self_stake r) + unat (vr_delegated_stake r)
       \<and> (vr_delegated_stake r' = vr_delegated_stake r \<or> vr_self_stake r' = 0)
       \<and> (\<forall>h'. is_jailed r' h' \<longleftrightarrow> unat h' < unat h + unat blocks)
       \<and> (\<forall>records v h'. om_get records v = Some r' \<longrightarrow>
            om_get (release_validators records h') v =
              Some (if unat h' < unat h + unat blocks then r' else r'\<lparr>vr_status := Active, vr_jailed_until := 0\<rparr>))"
proof -
  let ?stake = "unat (vr_self_stake r) + unat (vr_delegated_stake r)"
  let ?a = "total_stake r * ucast bps div 10000"
  have stake: "unat (total_stake r) = ?stake"
    using assms(4) by (simp add: total_stake_def unat_saturating_add)
  have "unat (total_stake r * ucast bps) = ?stake * unat bps"
    using assms(3) by (intro trans [OF unat_mult_exact]) (simp_all add: stake)
  then have a: "unat ?a = ?stake * unat bps div 10000"
    by (simp add: unat_div_word)
  have le: "?stake * unat bps div 10000 \<le> ?stake"
    using div_le_mono [OF mult_le_mono2 [OF assms(2), of ?stake], of 10000] by simp
  have amount: "amount = ?a"
    using assms(1,6) by (auto simp: apply_slash_def Let_def split: if_splits)
  have until: "unat (h + blocks) = unat h + unat blocks"
    using assms(5) by (simp add: unat_add_exact)
  have jail: "vr_status r' = Jailed" "vr_jailed_until r' = h + blocks"
    using assms(1,6) by (auto simp: apply_slash_def Let_def split: if_splits)
  have "unat (vr_self_stake r') + unat (vr_delegated_stake r') + unat amount = ?stake
      \<and> (vr_delegated_stake r' = vr_delegated_stake r \<or> vr_self_stake r' = 0)"
  proof (cases "vr_self_stake r \<ge> ?a")
    case True
    then have "vr_self_stake r' = vr_self_stake r - ?a" "vr_delegated_stake r' = vr_delegated_stake r"
      using assms(1,6) by (auto simp: apply_slash_def Let_def)
    then show ?thesis using True by (simp add: amount unat_sub_exact word_le_nat_alt)
  next
    case False
    then have less: "vr_self_stake r \<le> ?a" by simp
    have "vr_self_stake r' = 0" "vr_delegated_stake r' = saturating_sub (vr_delegated_stake r) (?a - vr_self_stake r)"
      using assms(1,6) False by (auto simp: apply_slash_def Let_def)
    then show ?thesis
      using less le a by (simp add: amount unat_saturating_sub unat_sub_exact word_le_nat_alt)
  qed
  moreover have "is_jailed r' h' \<longleftrightarrow> unat h' < unat h + unat blocks" for h'
    by (simp add: is_jailed_def jail word_less_nat_alt until)
  moreover have "om_get (release_validators records h') v =
      Some (if unat h' < unat h + unat blocks then r' else r'\<lparr>vr_status := Active, vr_jailed_until := 0\<rparr>)"
    if "om_get records v = Some r'" for records v h'
    using that by (simp add: release_validators_def om_get_map_values release_record_def jail word_le_nat_alt until not_less)
  ultimately show ?thesis using a amount by blast
qed

theorem apply_slash_exact_witness:
  "\<exists>r'. apply_slash (ValidatorRecord_new zero32 [1] 10000 500) (DoubleSign 5 0) 5 default_policy = (500, r') \<and>
     unat (vr_self_stake r') + unat (vr_delegated_stake r') = 9500 \<and> is_jailed r' 86404 \<and>
     om_get (release_validators (om_insert zero32 r' om_empty) 86404) zero32 = Some r' \<and>
     om_get (release_validators (om_insert zero32 r' om_empty) 86405) zero32 = Some (r'\<lparr>vr_status := Active, vr_jailed_until := 0\<rparr>)"
proof -
  obtain amount r' where run:
    "apply_slash (ValidatorRecord_new zero32 [1] 10000 500) (DoubleSign 5 0) 5 default_policy = (amount, r')" by fastforce
  have "slash_terms default_policy (DoubleSign 5 0) = (500, 86400)"
    by (simp add: slash_terms_def default_policy_def)
  from apply_slash_exact [OF this _ _ _ _ run]
  have res: "unat amount = 500" "unat (vr_self_stake r') + unat (vr_delegated_stake r') + unat amount = 10000"
    "\<And>h'. is_jailed r' h' \<longleftrightarrow> unat h' < 86405"
    "\<And>records v h'. om_get records v = Some r' \<Longrightarrow>
       om_get (release_validators records h') v = Some (if unat h' < 86405 then r' else r'\<lparr>vr_status := Active, vr_jailed_until := 0\<rparr>)"
    by (simp_all add: ValidatorRecord_new_def)
  then have "amount = 500" using word_eq_by_unat [of amount 500] by simp
  with run res show ?thesis by auto
qed

section \<open>Rewards are shared out exactly\<close>

lemma saturating_add_zero [simp]: "saturating_add 0 x = x"
  by (simp add: saturating_add_def unat_less_bound)

lemma commission_split:
  fixes amount :: balance and bps :: u16
  assumes "unat bps \<le> 10000" "unat amount * 10000 < 2 ^ 128"
  shows "saturating_add (amount * ucast bps div 10000) (amount - amount * ucast bps div 10000) = amount"
proof -
  let ?c = "amount * ucast bps div 10000 :: balance"
  have le: "unat amount * unat bps \<le> unat amount * 10000" using assms(1) by simp
  have "unat amount * unat bps < 2 ^ LENGTH(128)"
    using le_less_trans [OF le assms(2)] by simp
  then have "unat (amount * ucast bps) = unat amount * unat bps"
    using unat_mult_exact [of amount "ucast bps"] by simp
  then have c: "unat ?c \<le> unat amount"
    using div_le_mono [OF le, of 10000] by (simp add: unat_div_word)
  then show ?thesis
    using unat_less_bound [of amount]
    by (intro word_eq_by_unat) (simp add: unat_saturating_add unat_sub_exact word_le_nat_alt)
qed

lemma pay_validator_fresh:
  assumes "om_get payouts v = None" "\<forall>rec. om_get records v = Some rec \<longrightarrow> unat (vr_commission_bps rec) \<le> 10000"
    and "amount = (if v = prop then saturating_add per bonus else per)" "unat amount * 10000 < 2 ^ 128"
  shows "pay_validator records per bonus prop v payouts = om_insert v amount payouts"
proof (cases "om_get records v")
  case None
  then show ?thesis using assms(1) by (simp add: pay_validator_def pay_def assms(3))
next
  case (Some rec)
  have "pay v (amount - amount * ucast (vr_commission_bps rec) div 10000)
      (pay v (amount * ucast (vr_commission_bps rec) div 10000) payouts) = om_insert v amount payouts"
    using commission_split [of "vr_commission_bps rec" amount] assms(1,2,4) Some
    by (intro om_eqI) (simp add: pay_def)
  with Some show ?thesis by (simp add: pay_validator_def assms(3) Let_def)
qed

lemma fold_pay_validator:
  assumes "distinct vals" "\<forall>v\<in>set vals. om_get payouts v = None"
    and "\<forall>v\<in>set vals. \<forall>rec. om_get records v = Some rec \<longrightarrow> unat (vr_commission_bps rec) \<le> 10000"
    and "unat per * 10000 < 2 ^ 128" "unat (saturating_add per bonus) * 10000 < 2 ^ 128"
  shows "om_get (fold (pay_validator records per bonus prop) vals payouts) a =
     (if a \<in> set vals then Some (if a = prop then saturating_add per bonus else per) else om_get payouts a)"
  using assms
proof (induction vals arbitrary: payouts)
  case Nil
  then show ?case by simp
next
  case (Cons v vals)
  define amount where "amount = (if v = prop then saturating_add per bonus else per)"
  have "pay_validator records per bonus prop v payouts = om_insert v amount payouts"
    using Cons.prems by (intro pay_validator_fresh) (auto simp: amount_def)
  moreover have "om_get (fold (pay_validator records per bonus prop) vals (om_insert v amount payouts)) a =
     (if a \<in> set vals then Some (if a = prop then saturating_add per bonus else per) else om_get (om_insert v amount payouts) a)"
    using Cons.prems by (intro Cons.IH) auto
  ultimately show ?case by (auto simp: amount_def)
qed

text \<open>
  C38. Reward distribution over distinct validators whose commission rates are at most 10000 basis points, of a positive reward that stays below \<open>2 ^ 128\<close>
  when multiplied by 10000: every validator receives the same share, the proposer the ten percent bonus on
  top. The commission has no effect, because the operator's part and the delegators' part are both credited to the validator. The payouts never exceed
  the reward, and when the proposer is one of the validators fewer units than there are validators are left over.
\<close>

theorem distribute_block_reward_exact:
  assumes "distinct vals" "vals \<noteq> []" "0 < unat reward" "unat reward * 10000 < 2 ^ 128" "length vals < 2 ^ 64"
    and "\<forall>v\<in>set vals. \<forall>rec. om_get records v = Some rec \<longrightarrow> unat (vr_commission_bps rec) \<le> 10000"
  defines "bonus \<equiv> unat reward div 10"
  defines "share \<equiv> (unat reward - bonus) div length vals"
  shows "(\<forall>a. map_option unat (om_get (distribute_block_reward vals records reward prop) a) =
            (if a \<in> set vals then Some (share + (if a = prop then bonus else 0)) else None))
       \<and> sum_list (map unat (om_values (distribute_block_reward vals records reward prop)))
           = length vals * share + (if prop \<in> set vals then bonus else 0)
       \<and> sum_list (map unat (om_values (distribute_block_reward vals records reward prop))) \<le> unat reward
       \<and> (prop \<in> set vals \<longrightarrow>
            unat reward < sum_list (map unat (om_values (distribute_block_reward vals records reward prop))) + length vals)"
proof -
  let ?n = "length vals" and ?D = "distribute_block_reward vals records reward prop"
  let ?bonus = "reward div 10" and ?per = "(reward - reward div 10) div of_nat (length vals)"
  have n: "unat (of_nat ?n :: u128) = ?n"
    using assms(5) by (simp add: unsigned_of_nat take_bit_nat_eq_self)
  have ub: "unat ?bonus = bonus" by (simp add: bonus_def unat_div_word)
  have "?bonus \<le> reward" by (simp add: word_le_nat_alt unat_div_word)
  then have up: "unat ?per = share"
    by (simp add: unat_div_word n unat_sub_exact share_def bonus_def)
  have share_le: "share * ?n \<le> unat reward - bonus" "unat reward - bonus < (share + 1) * ?n"
    using assms(2) dividend_less_div_times [of ?n "unat reward - bonus"] by (simp_all add: share_def add.commute)
  have sn: "share \<le> share * ?n" using assms(2) by (cases vals) simp_all
  have sum: "share + bonus \<le> unat reward"
    using sn share_le(1) unfolding bonus_def by linarith
  then have us: "unat (saturating_add ?per ?bonus) = share + bonus"
    using assms(4) by (simp add: unat_saturating_add up ub)
  have "unat ?per * 10000 < 2 ^ 128" "unat (saturating_add ?per ?bonus) * 10000 < 2 ^ 128"
    using le_less_trans [OF mult_le_mono1 [OF sum, of 10000] assms(4)]
      le_less_trans [OF mult_le_mono1 [OF add_leD1 [OF sum], of 10000] assms(4)] by (simp_all only: us up)
  then have get: "om_get ?D a =
      (if a \<in> set vals then Some (if a = prop then saturating_add ?per ?bonus else ?per) else None)" for a
    using fold_pay_validator [of vals om_empty records "?per" "?bonus" "prop" a] assms(1,2,3,6)
    by (auto simp: distribute_block_reward_def Let_def)
  have unats: "map_option unat (om_get ?D a) =
      (if a \<in> set vals then Some (share + (if a = prop then bonus else 0)) else None)" for a
    by (simp add: get us up)
  have "sum_list (map unat (om_values ?D)) = sum_list (map ((\<lambda>x. case x of None \<Rightarrow> 0 | Some b \<Rightarrow> unat b) \<circ> Some) (om_values ?D))"
    by (simp add: comp_def)
  also have "\<dots> = (\<Sum>a\<in>UNIV. case om_get ?D a of None \<Rightarrow> 0 | Some b \<Rightarrow> unat b)"
    by (rule om_sum_entries [symmetric]) simp
  also have "\<dots> = (\<Sum>a\<in>set vals. share + (if a = prop then bonus else 0))"
    by (intro sum.mono_neutral_cong_right) (auto simp: get us up)
  also have "\<dots> = ?n * share + (if prop \<in> set vals then bonus else 0)"
    by (simp add: sum.distrib distinct_card [OF assms(1)] sum.delta)
  finally have total: "sum_list (map unat (om_values ?D)) = ?n * share + (if prop \<in> set vals then bonus else 0)" .
  have "bonus \<le> unat reward" by (simp add: bonus_def)
  then have "?n * share + bonus \<le> unat reward" "unat reward < ?n * share + bonus + ?n"
    using share_le by (simp_all add: mult.commute distrib_left)
  then show ?thesis using unats total by auto
qed

text \<open>Two validators with different commissions, five percent and all.\<close>

definition demo_commissions :: "(address, ValidatorRecord) omap" where
  "demo_commissions =
     om_insert zero32 (ValidatorRecord_new zero32 [1] 10000 500)
       (om_insert demo_address (ValidatorRecord_new demo_address [2] 20000 10000) om_empty)"

theorem distribute_block_reward_exact_witness:
  "sum_list (map unat (om_values (distribute_block_reward [zero32, demo_address] demo_commissions 1001 zero32))) = 1000 \<and>
   map_option unat (om_get (distribute_block_reward [zero32, demo_address] demo_commissions 1001 zero32) zero32) = Some 550 \<and>
   map_option unat (om_get (distribute_block_reward [zero32, demo_address] demo_commissions 1001 zero32) demo_address) = Some 450"
proof -
  note ne = zero_not_demo
  have "unat (1001 :: balance) = 1001" by simp
  moreover have "\<forall>v\<in>set [zero32, demo_address]. \<forall>rec. om_get demo_commissions v = Some rec \<longrightarrow> unat (vr_commission_bps rec) \<le> 10000"
    using ne by (simp add: demo_commissions_def ValidatorRecord_new_def)
  ultimately show ?thesis
    using distribute_block_reward_exact [of "[zero32, demo_address]" 1001 demo_commissions zero32] ne by simp
qed

section \<open>Slashing and delegations\<close>

text \<open>A ledger with one validator, bonded with 10000 of its own and 1000000 delegated by one delegator.\<close>

definition slashed_ledger :: "ValidatorRecord \<Rightarrow> ledger" where
  "slashed_ledger r =
     \<lparr>lg_acct = Map.empty, lg_val = [zero32 \<mapsto> r],
      lg_dlg = (\<lambda>d. if d = demo_address then [zero32 \<mapsto> default_delegation\<lparr>dlg_amount := 1000000\<rparr>] else Map.empty)\<rparr>"

definition bonded_record :: ValidatorRecord where
  "bonded_record = (ValidatorRecord_new zero32 [1] 10000 0)\<lparr>vr_delegated_stake := 1000000\<rparr>"

lemma slashed_ledger_facts:
  "bal (slashed_ledger r) a = 0"
  "self_stake (slashed_ledger r) v = (if v = zero32 then unat (vr_self_stake r) else 0)"
  "delegated_stake (slashed_ledger r) v = (if v = zero32 then unat (vr_delegated_stake r) else 0)"
  "delegated_by (slashed_ledger r) d v = (if d = demo_address then if v = zero32 then 1000000 else 0 else 0)"
  by (simp_all add: slashed_ledger_def bal_def lg_account_def unwrap_account_def default_account_def self_stake_def
      delegated_stake_def delegated_by_def lg_delegated_def default_delegation_def)

lemma wealth_slashed_ledger:
  "wealth (slashed_ledger r) = unat (vr_self_stake r) + unat (vr_delegated_stake r)"
  by (simp add: wealth_def slashed_ledger_facts)

lemma wealth_undelegate_all:
  assumes "spec_undelegate demo_address zero32 1000000 (slashed_ledger r) = (x, L)"
  shows "wealth L = 1000000 + unat (vr_self_stake r) + (unat (vr_delegated_stake r) - 1000000)"
proof -
  have L: "L = credit demo_address 1000000 (lg_put_dlg demo_address zero32 None
      (lg_put_val zero32 (r\<lparr>vr_delegated_stake := saturating_sub (vr_delegated_stake r) 1000000\<rparr>) (slashed_ledger r)))"
    using assms by (simp add: spec_undelegate_def slashed_ledger_def)
  have "(\<Sum>a\<in>UNIV. bal L a) = (\<Sum>a\<in>UNIV. if a = demo_address then 1000000 else 0)"
  proof (rule sum.cong)
    have "lg_account (slashed_ledger r) a = default_account" for a
      by (simp add: slashed_ledger_def lg_account_def unwrap_account_def)
    then show "bal L a = (if a = demo_address then 1000000 else 0)" for a
      by (simp add: L bal_def default_account_def)
  qed simp
  moreover have "self_stake L v = (if v = zero32 then unat (vr_self_stake r) else 0)" for v
    using slashed_ledger_facts(2) [of r v] by (auto simp: L self_stake_def)
  moreover have "delegated_stake L v = (if v = zero32 then unat (vr_delegated_stake r) - 1000000 else 0)" for v
    using slashed_ledger_facts(3) [of r v] by (auto simp: L delegated_stake_def unat_saturating_sub)
  ultimately show ?thesis by (simp add: wealth_def)
qed

text \<open>
  Slashing lowers a validator's delegated stake but not the delegations recorded for it. From a
  well-formed ledger, a double-sign slash that exceeds the self stake followed by the delegator's
  withdrawal of its whole delegation pays out 40500 more than was staked: value is created, and
  conservation fails for that undelegation.
\<close>

theorem slash_then_undelegate_creates_value:
  "\<exists>L r amount r' x L'.
     ledger_ok L \<and> lg_val L zero32 = Some r \<and> apply_slash r (DoubleSign 1 0) 1 default_policy = (amount, r')
     \<and> amount = 50500
     \<and> spec_undelegate demo_address zero32 1000000 (lg_put_val zero32 r' L) = (Inr x, L')
     \<and> wealth L' = wealth (lg_put_val zero32 r' L) + 40500"
proof -
  define r' where "r' = bonded_record\<lparr>vr_status := Jailed, vr_jailed_until := 86401, vr_self_stake := 0, vr_delegated_stake := 959500\<rparr>"
  have slash: "apply_slash bonded_record (DoubleSign 1 0) 1 default_policy = (50500, r')"
    by (simp add: apply_slash_def slash_terms_def default_policy_def bonded_record_def ValidatorRecord_new_def
        total_stake_def saturating_add_def saturating_sub_def r'_def Let_def)
  have ok: "ledger_ok (slashed_ledger bonded_record)"
    unfolding ledger_ok_def stakes_match_def wealth_slashed_ledger
    by (auto simp: slashed_ledger_facts bonded_record_def ValidatorRecord_new_def)
  have put: "lg_put_val zero32 r' (slashed_ledger bonded_record) = slashed_ledger r'"
    by (simp add: lg_put_val_def slashed_ledger_def)
  obtain y L' where run: "spec_undelegate demo_address zero32 1000000 (slashed_ledger r') = (y, L')" by fastforce
  then have "y = Inr (success 30000 ''undelegated'')"
    by (simp add: spec_undelegate_def slashed_ledger_def)
  moreover have "wealth L' = wealth (slashed_ledger r') + 40500"
    using wealth_undelegate_all [OF run] by (simp add: wealth_slashed_ledger r'_def)
  moreover have "lg_val (slashed_ledger bonded_record) zero32 = Some bonded_record"
    by (simp add: slashed_ledger_def)
  ultimately show ?thesis using ok slash run put by metis
qed

end
