(* ===== verification/Validator_Set.thy ===== *)
theory Validator_Set
  imports Primitives Protocol
begin

text \<open>
  Model of src/crates/pemrix-consensus/src/validator\_set.rs: the committee as a sorted map from
  addresses to voting power, its quorum threshold and the round-robin proposer. Sums and products
  of powers wrap at 64 bits, as in the compiled program; \<open>usize\<close> is 64 bits wide.
\<close>

section \<open>Definitions\<close>

record Validator =
  val_address :: address
  val_power :: u64

definition Validator_new :: "address \<Rightarrow> u64 \<Rightarrow> Validator" where
  "Validator_new a p = \<lparr>val_address = a, val_power = p\<rparr>"

record ValidatorSet =
  vs_validators :: "(address, u64) omap"

definition ValidatorSet_new :: ValidatorSet where
  "ValidatorSet_new = \<lparr>vs_validators = om_empty\<rparr>"

definition vs_add :: "address \<Rightarrow> u64 \<Rightarrow> ValidatorSet \<Rightarrow> ValidatorSet" where
  "vs_add a p vs = vs\<lparr>vs_validators := om_insert a p (vs_validators vs)\<rparr>"

definition vs_remove :: "address \<Rightarrow> ValidatorSet \<Rightarrow> ValidatorSet" where
  "vs_remove a vs = vs\<lparr>vs_validators := om_remove a (vs_validators vs)\<rparr>"

definition from_validators :: "Validator list \<Rightarrow> ValidatorSet" where
  "from_validators xs = fold (\<lambda>v vs. vs_add (val_address v) (val_power v) vs) xs ValidatorSet_new"

definition is_validator :: "ValidatorSet \<Rightarrow> address \<Rightarrow> bool" where
  "is_validator vs a = om_contains (vs_validators vs) a"

definition vs_power :: "ValidatorSet \<Rightarrow> address \<Rightarrow> u64 option" where
  "vs_power vs a = om_get (vs_validators vs) a"

definition total_power :: "ValidatorSet \<Rightarrow> u64" where
  "total_power vs = sum_list (om_values (vs_validators vs))"

definition quorum_threshold :: "ValidatorSet \<Rightarrow> u64" where
  "quorum_threshold vs = total_power vs * 2 div 3 + 1"

definition vs_len :: "ValidatorSet \<Rightarrow> nat" where
  "vs_len vs = om_len (vs_validators vs)"

definition vs_is_empty :: "ValidatorSet \<Rightarrow> bool" where
  "vs_is_empty vs = om_is_empty (vs_validators vs)"

definition validators :: "ValidatorSet \<Rightarrow> Validator list" where
  "validators vs = map (\<lambda>(a, p). Validator_new a p) (om_entries (vs_validators vs))"

definition proposer :: "ValidatorSet \<Rightarrow> u64 \<Rightarrow> u64 \<Rightarrow> address option" where
  "proposer vs height round =
     (if vs_is_empty vs then None
      else let keys = om_keys (vs_validators vs)
           in Some (keys ! (unat (height + round) mod length keys)))"

definition vs_addresses :: "ValidatorSet \<Rightarrow> address oset" where
  "vs_addresses vs = om_map_values (\<lambda>_. ()) (vs_validators vs)"

section \<open>Powers as natural numbers\<close>

definition power_nat :: "ValidatorSet \<Rightarrow> address \<Rightarrow> nat" where
  "power_nat vs a = (case vs_power vs a of None \<Rightarrow> 0 | Some p \<Rightarrow> unat p)"

definition total_nat :: "ValidatorSet \<Rightarrow> nat" where
  "total_nat vs = (\<Sum>a\<in>UNIV. power_nat vs a)"

lemma total_nat_values: "total_nat vs = sum_list (map unat (om_values (vs_validators vs)))"
proof -
  let ?f = "\<lambda>x. case x of None \<Rightarrow> 0 | Some p \<Rightarrow> unat (p :: u64)"
  have "total_nat vs = sum_list (map (?f \<circ> Some) (om_values (vs_validators vs)))"
    unfolding total_nat_def power_nat_def vs_power_def by (rule om_sum_entries) simp
  also have "?f \<circ> Some = unat" by (simp add: fun_eq_iff)
  finally show ?thesis .
qed

lemma unat_total_power:
  assumes "total_nat vs < 2 ^ 64"
  shows "unat (total_power vs) = total_nat vs"
  using assms by (simp add: total_power_def total_nat_values unat_sum_list)

lemma unat_quorum_threshold:
  assumes "total_nat vs < 2 ^ 63"
  shows "unat (quorum_threshold vs) = 2 * total_nat vs div 3 + 1"
proof -
  have total: "unat (total_power vs) = total_nat vs" using assms by (intro unat_total_power) simp
  then have double: "unat (total_power vs * 2) = 2 * total_nat vs"
    using assms by (intro trans [OF unat_mult_exact]) simp_all
  then show ?thesis
    unfolding quorum_threshold_def using assms
    by (intro trans [OF unat_add_exact]) (simp_all add: unat_div_word double)
qed

lemma sum_intersection_bound:
  fixes w :: "'a::finite \<Rightarrow> nat"
  shows "sum w A + sum w B \<le> sum w UNIV + sum w (A \<inter> B)"
proof -
  have "sum w A + sum w B = sum w (A \<union> B) + sum w (A \<inter> B)"
    by (simp add: sum.union_inter)
  also have "sum w (A \<union> B) \<le> sum w UNIV" by (rule sum_mono2) simp_all
  finally show ?thesis by simp
qed

text \<open>
  C5. Quorum intersection. While the total power is below \<open>2 ^ 63\<close>, the threshold is more than two
  thirds of the total and at most the total, and two sets of validators that both reach it share
  more than one third of the total power: with at most a third of the power faulty, some correct
  validator is in both.
\<close>

theorem quorums_intersect:
  assumes "0 < total_nat vs" "total_nat vs < 2 ^ 63"
  shows "2 * total_nat vs < 3 * unat (quorum_threshold vs) \<and> unat (quorum_threshold vs) \<le> total_nat vs
       \<and> (\<forall>A B. unat (quorum_threshold vs) \<le> sum (power_nat vs) A \<and> unat (quorum_threshold vs) \<le> sum (power_nat vs) B
            \<longrightarrow> total_nat vs < 3 * sum (power_nat vs) (A \<inter> B))"
proof -
  note t = unat_quorum_threshold [OF assms(2)]
  have bounds: "2 * total_nat vs < 3 * unat (quorum_threshold vs)" "unat (quorum_threshold vs) \<le> total_nat vs"
    using assms(1) by (simp_all add: t)
  moreover have "total_nat vs < 3 * sum (power_nat vs) (A \<inter> B)"
    if "unat (quorum_threshold vs) \<le> sum (power_nat vs) A" "unat (quorum_threshold vs) \<le> sum (power_nat vs) B" for A B
    using sum_intersection_bound [of "power_nat vs" A B] that bounds(1) unfolding total_nat_def by linarith
  ultimately show ?thesis by blast
qed

definition demo_committee :: ValidatorSet where
  "demo_committee = from_validators (map (\<lambda>i. Validator_new (array32 [i]) 1) [1, 2, 3, 4])"

lemma demo_committee_total: "total_nat demo_committee = 4"
  unfolding total_nat_values by code_simp

theorem quorums_intersect_witness:
  "unat (quorum_threshold demo_committee) = 3 \<and>
   total_nat demo_committee < 3 * sum (power_nat demo_committee) (UNIV \<inter> UNIV)"
proof -
  have "sum (power_nat demo_committee) UNIV = 4"
    using demo_committee_total by (simp add: total_nat_def)
  with quorums_intersect [of demo_committee] show ?thesis
    by (auto simp: demo_committee_total unat_quorum_threshold)
qed

text \<open>
  The bound on the total power matters: a committee with a single validator of power \<open>2 ^ 63\<close> has
  threshold 1, because the doubling wraps.
\<close>

theorem quorum_threshold_wraps:
  "\<exists>vs. total_nat vs = 2 ^ 63 \<and> quorum_threshold vs = 1"
proof -
  define vs where "vs = vs_add zero32 9223372036854775808 ValidatorSet_new"
  have "om_values (vs_validators vs) = [9223372036854775808]"
    by (simp add: vs_def vs_add_def ValidatorSet_new_def om_values_def om_insert.rep_eq om_empty.rep_eq)
  then have "total_nat vs = 2 ^ 63 \<and> quorum_threshold vs = 1"
    by (simp add: total_nat_values quorum_threshold_def total_power_def)
  then show ?thesis by blast
qed

section \<open>Proposers\<close>

lemma mod_window_bij:
  fixes n :: nat
  assumes "0 < n"
  shows "distinct (map (\<lambda>i. (m + i) mod n) [0..<n])" "set (map (\<lambda>i. (m + i) mod n) [0..<n]) = {0..<n}"
proof -
  have inj: "inj_on (\<lambda>i. (m + i) mod n) {0..<n}"
  proof (rule linorder_inj_onI)
    fix i j assume ij: "i < j" "i \<in> {0..<n}" "j \<in> {0..<n}"
    then have "\<not> n dvd (m + j) - (m + i)" by (auto dest: dvd_imp_le)
    then show "(m + i) mod n \<noteq> (m + j) mod n"
      using mod_eq_dvd_iff_nat [of "m + i" "m + j" n] ij(1) by auto
  qed auto
  then show "distinct (map (\<lambda>i. (m + i) mod n) [0..<n])" by (simp add: distinct_map)
  have "(\<lambda>i. (m + i) mod n) ` {0..<n} \<subseteq> {0..<n}" using assms by auto
  then show "set (map (\<lambda>i. (m + i) mod n) [0..<n]) = {0..<n}"
    using card_image [OF inj] by (simp add: card_subset_eq)
qed

lemma vs_len_keys: "vs_len vs = length (om_keys (vs_validators vs))"
  by (simp add: vs_len_def om_len_keys)

lemma vs_is_empty_len: "vs_is_empty vs \<longleftrightarrow> vs_len vs = 0"
  by (simp add: vs_is_empty_def vs_len_def om_is_empty_def om_len_def)

lemma proposer_index:
  assumes "\<not> vs_is_empty vs" "unat height + unat round < 2 ^ 64"
  shows "proposer vs height round = Some (om_keys (vs_validators vs) ! ((unat height + unat round) mod vs_len vs))"
  using assms by (simp add: proposer_def vs_len_keys unat_add_exact Let_def)

text \<open>
  C35. Round robin: over as many consecutive heights as there are validators, every validator is the
  proposer exactly once, and the proposer is always a member of the committee.
\<close>

theorem proposer_round_robin:
  assumes "\<not> vs_is_empty vs" "unat height + vs_len vs + unat round < 2 ^ 64"
  shows "distinct (map (\<lambda>i. proposer vs (height + of_nat i) round) [0..<vs_len vs])
       \<and> set (map (\<lambda>i. proposer vs (height + of_nat i) round) [0..<vs_len vs]) = {Some a |a. is_validator vs a}"
proof -
  let ?keys = "om_keys (vs_validators vs)" and ?n = "vs_len vs" and ?m = "unat height + unat round"
  have n: "0 < ?n" using assms(1) by (simp add: vs_is_empty_len)
  have "proposer vs (height + of_nat i) round = Some (?keys ! ((?m + i) mod ?n))" if "i < ?n" for i
  proof -
    have i: "unat (of_nat i :: u64) = i"
      using that assms(2) by (simp add: unsigned_of_nat take_bit_nat_eq_self)
    then have "unat (height + of_nat i) = unat height + i"
      using that assms(2) by (intro trans [OF unat_add_exact]) simp_all
    then show ?thesis
      using that assms by (subst proposer_index) (simp_all add: add.commute add.left_commute)
  qed
  then have eq: "map (\<lambda>i. proposer vs (height + of_nat i) round) [0..<?n] =
      map (\<lambda>k. Some (?keys ! k)) (map (\<lambda>i. (?m + i) mod ?n) [0..<?n])"
    by simp
  have "inj_on (\<lambda>k. Some (?keys ! k)) {0..<?n}"
    using om_keys_distinct [of "vs_validators vs"] by (auto simp: inj_on_def vs_len_keys nth_eq_iff_index_eq)
  then have "distinct (map (\<lambda>k. Some (?keys ! k)) (map (\<lambda>i. (?m + i) mod ?n) [0..<?n]))"
    using mod_window_bij [OF n, of ?m] by (simp only: distinct_map)
  moreover have "set (map (\<lambda>k. Some (?keys ! k)) (map (\<lambda>i. (?m + i) mod ?n) [0..<?n])) = Some ` set ?keys"
  proof -
    have "set ?keys = (!) ?keys ` {0..<?n}"
      by (auto simp: set_conv_nth vs_len_keys)
    then show ?thesis
      unfolding set_map [of "\<lambda>k. Some (?keys ! k)"] mod_window_bij(2) [OF n, of ?m] by (simp add: image_image)
  qed
  ultimately show ?thesis
    unfolding eq by (auto simp: is_validator_def om_contains_iff)
qed

theorem proposer_round_robin_witness:
  "distinct (map (\<lambda>i. proposer demo_committee (7 + of_nat i) 0) [0..<4])"
proof -
  have "\<not> vs_is_empty demo_committee" "vs_len demo_committee = 4"
    by code_simp+
  with proposer_round_robin [of demo_committee 7 0] show ?thesis by simp
qed

end
