(* ===== verification/Consensus.thy ===== *)
theory Consensus
  imports Economics Validator_Set
begin

text \<open>
  Model of the common part of src/crates/pemrix-consensus: proposals, votes, errors, the FIFO mempool,
  the execution loop both engines share, and the single-validator engine of solo.rs. The system
  clock is an argument of the operations that read it.

  The locale \<open>fifo_mempool\<close> states what the trait \<open>Mempool\<close> promises; \<open>SimpleMempool\<close> interprets it.
\<close>

section \<open>Mempool\<close>

record SimpleMempool =
  mp_transactions :: "Transaction list"

definition SimpleMempool_new :: SimpleMempool where
  "SimpleMempool_new = \<lparr>mp_transactions = []\<rparr>"

definition mp_add :: "Transaction \<Rightarrow> (SimpleMempool, string, unit) action" where
  "mp_add tx = (\<lambda>m. (Inr (), m\<lparr>mp_transactions := mp_transactions m @ [tx]\<rparr>))"

definition mp_drain :: "nat \<Rightarrow> SimpleMempool \<Rightarrow> Transaction list \<times> SimpleMempool" where
  "mp_drain n m =
     (let count = min n (length (mp_transactions m))
      in (take count (mp_transactions m), m\<lparr>mp_transactions := drop count (mp_transactions m)\<rparr>))"

definition mp_len :: "SimpleMempool \<Rightarrow> nat" where
  "mp_len m = length (mp_transactions m)"

definition mp_is_empty :: "SimpleMempool \<Rightarrow> bool" where
  "mp_is_empty m = (mp_transactions m = [])"

text \<open>Adding a list of transactions, and draining in a sequence of batches, for any mempool.\<close>

fun add_all :: "('t \<Rightarrow> ('m, 'e, unit) action) \<Rightarrow> 't list \<Rightarrow> ('m, 'e, unit) action" where
  "add_all add [] = act_return ()"
| "add_all add (x # xs) = act_bind (add x) (\<lambda>_. add_all add xs)"

fun drain_all :: "(nat \<Rightarrow> 'm \<Rightarrow> 't list \<times> 'm) \<Rightarrow> nat list \<Rightarrow> 'm \<Rightarrow> 't list list \<times> 'm" where
  "drain_all drain [] m = ([], m)"
| "drain_all drain (n # ns) m =
     (case drain n m of (xs, m') \<Rightarrow> case drain_all drain ns m' of (xss, m'') \<Rightarrow> (xs # xss, m''))"

locale fifo_mempool =
  fixes add :: "'t \<Rightarrow> ('m, 'e, unit) action"
    and drain :: "nat \<Rightarrow> 'm \<Rightarrow> 't list \<times> 'm"
    and len :: "'m \<Rightarrow> nat"
    and is_empty :: "'m \<Rightarrow> bool"
    and pending :: "'m \<Rightarrow> 't list"
  assumes add_law: "\<exists>m'. add x m = (Inr (), m') \<and> pending m' = pending m @ [x]"
    and drain_law: "\<exists>m'. drain n m = (take n (pending m), m') \<and> pending m' = drop n (pending m)"
    and len_law: "len m = length (pending m)"
    and is_empty_law: "is_empty m \<longleftrightarrow> pending m = []"
begin

lemma add_all_pending: "\<exists>m'. add_all add xs m = (Inr (), m') \<and> pending m' = pending m @ xs"
proof (induction xs arbitrary: m)
  case Nil
  then show ?case by simp
next
  case (Cons x xs)
  obtain m1 where m1: "add x m = (Inr (), m1)" "pending m1 = pending m @ [x]" using add_law by blast
  with Cons.IH [of m1] show ?case by (auto simp: act_bind_apply)
qed

lemma drain_all_pending:
  "\<exists>xss m'. drain_all drain ns m = (xss, m') \<and> concat xss = take (sum_list ns) (pending m)
     \<and> pending m' = drop (sum_list ns) (pending m) \<and> list_all2 (\<lambda>xs n. length xs \<le> n) xss ns"
proof (induction ns arbitrary: m)
  case Nil
  then show ?case by simp
next
  case (Cons n ns)
  obtain m1 where m1: "drain n m = (take n (pending m), m1)" "pending m1 = drop n (pending m)" using drain_law by blast
  with Cons.IH [of m1] show ?case by (auto simp: take_add add.commute)
qed

lemma fifo:
  assumes "pending m = []" "add_all add xs m = (r, m1)" "drain_all drain ns m1 = (xss, m2)" "length xs \<le> sum_list ns"
  shows "concat xss = xs \<and> is_empty m2 \<and> len m1 = length xs"
  using add_all_pending [of xs m] drain_all_pending [of ns m1] assms
  by (auto simp: is_empty_law len_law)

end

interpretation simple: fifo_mempool mp_add mp_drain mp_len mp_is_empty mp_transactions
  by unfold_locales (auto simp: mp_add_def mp_drain_def mp_len_def mp_is_empty_def Let_def min_def)

text \<open>
  The mempool is first in, first out: draining in any sequence of batches that is large enough
  returns exactly the added transactions in the order they were added, none lost, none twice, and
  leaves the pool empty.
\<close>

theorem mempool_fifo:
  assumes "add_all mp_add xs SimpleMempool_new = (r, m)" "drain_all mp_drain ns m = (xss, m')" "length xs \<le> sum_list ns"
  shows "concat xss = xs \<and> mp_is_empty m' \<and> mp_len m = length xs"
  using assms by (intro simple.fifo) (auto simp: SimpleMempool_new_def)

theorem mempool_fifo_witness:
  "\<exists>m m' xss. add_all mp_add [Transaction_transfer zero32 zero32 1 0 1, Transaction_transfer zero32 zero32 2 1 1,
       Transaction_transfer zero32 zero32 3 2 1] SimpleMempool_new = (Inr (), m) \<and>
     drain_all mp_drain [2, 2] m = (xss, m') \<and> length (concat xss) = 3"
proof -
  let ?xs = "[Transaction_transfer zero32 zero32 1 0 1, Transaction_transfer zero32 zero32 2 1 1,
       Transaction_transfer zero32 zero32 3 2 1]"
  obtain m where m: "add_all mp_add ?xs SimpleMempool_new = (Inr (), m)"
    using simple.add_all_pending by blast
  obtain xss m' where d: "drain_all mp_drain [2, 2] m = (xss, m')" by fastforce
  from mempool_fifo [OF m d] m d show ?thesis by auto
qed

section \<open>Proposals, errors and finality\<close>

record Proposal =
  pp_block_hash :: hash
  pp_height :: u64
  pp_round :: u64
  pp_proposer :: bytes32

record Finality =
  fin_block :: Block
  fin_timestamp :: u64

datatype ConsensusError =
    InvalidProposal
  | InvalidVote
  | ExecutionFailed string
  | ConsensusStorage
  | ConsensusNetwork string
  | NotProposer
  | AlreadyFinalized

fun VmError_to_string :: "VmError \<Rightarrow> string" where
  "VmError_to_string InsufficientBalance = ''insufficient balance''"
| "VmError_to_string InvalidNonce = ''invalid nonce''"
| "VmError_to_string OutOfGas = ''out of gas''"
| "VmError_to_string InvalidContract = ''invalid contract''"
| "VmError_to_string InvalidSignature = ''invalid signature''"
| "VmError_to_string StorageFailure = ''storage error''"
| "VmError_to_string UnknownOperation = ''unknown operation''"
| "VmError_to_string (Execution e) = ''execution error: '' @ e"

definition Proposal_from_block :: "externs \<Rightarrow> Block \<Rightarrow> Proposal" where
  "Proposal_from_block E b =
     \<lparr>pp_block_hash = block_hash E b, pp_height = bh_height (blk_header b), pp_round = 0,
      pp_proposer = bh_proposer (blk_header b)\<rparr>"

section \<open>Executing the transactions of a block\<close>

fun execute_all :: "externs \<Rightarrow> 'b StateBackend \<Rightarrow> Transaction list \<Rightarrow> ('b, ConsensusError, unit) action" where
  "execute_all E B [] = act_return ()"
| "execute_all E B (tx # txs) =
     act_bind (act_map_err (\<lambda>e. ExecutionFailed (VmError_to_string e)) (block_execute E B tx)) (\<lambda>_.
     execute_all E B txs)"

section \<open>Solo engine\<close>

record SoloConsensus =
  so_state :: InMemoryBackend
  so_height :: u64
  so_proposer :: address
  so_previous_hash :: hash

definition Solo_new_with_previous_hash :: "address \<Rightarrow> hash \<Rightarrow> SoloConsensus" where
  "Solo_new_with_previous_hash prop prev =
     \<lparr>so_state = InMemoryBackend_new, so_height = 0, so_proposer = prop, so_previous_hash = prev\<rparr>"

definition Solo_new :: "address \<Rightarrow> SoloConsensus" where
  "Solo_new prop = Solo_new_with_previous_hash prop zero32"

definition default_header :: BlockHeader where
  "default_header =
     \<lparr>bh_height = 0, bh_timestamp = 0, bh_previous_hash = zero32, bh_state_root = zero32, bh_tx_root = zero32,
      bh_proposer = zero32\<rparr>"

definition solo_propose ::
    "externs \<Rightarrow> u64 \<Rightarrow> u64 \<Rightarrow> Transaction list \<Rightarrow> (SoloConsensus, ConsensusError, Block) action" where
  "solo_propose E now height txs =
     act_bind (act_on so_state (\<lambda>t s. s\<lparr>so_state := t\<rparr>) (execute_all E (im_backend E) txs)) (\<lambda>_.
     act_bind (act_query (\<lambda>s. map_err (\<lambda>_. ConsensusStorage) (store_state_root (im_backend E) (so_state s)))) (\<lambda>root.
     act_bind (act_gets (\<lambda>s. (so_previous_hash s, so_proposer s))) (\<lambda>(prev, prop).
     let block = \<lparr>blk_header = \<lparr>bh_height = height, bh_timestamp = now, bh_previous_hash = prev, bh_state_root = root,
                     bh_tx_root = hash_bytes E (encode (json_transactions E) txs), bh_proposer = prop\<rparr>,
                  blk_body = \<lparr>bb_transactions = txs\<rparr>\<rparr> in
     act_bind (act_modify (\<lambda>s. s\<lparr>so_previous_hash := block_hash E block, so_height := height\<rparr>)) (\<lambda>_.
     act_return block))))"

definition solo_handle_proposal :: "Proposal \<Rightarrow> (SoloConsensus, ConsensusError, unit) action" where
  "solo_handle_proposal p = act_return ()"

definition solo_handle_vote :: "Vote \<Rightarrow> (SoloConsensus, ConsensusError, unit) action" where
  "solo_handle_vote v = act_return ()"

definition solo_finalize :: "u64 \<Rightarrow> hash \<Rightarrow> (SoloConsensus, ConsensusError, Finality) action" where
  "solo_finalize now h = act_bind (act_gets so_height) (\<lambda>height.
     act_return \<lparr>fin_block = \<lparr>blk_header = default_header\<lparr>bh_height := height\<rparr>, blk_body = \<lparr>bb_transactions = []\<rparr>\<rparr>,
       fin_timestamp = now\<rparr>)"

definition solo_validator_address :: "SoloConsensus \<Rightarrow> address option" where
  "solo_validator_address s = Some (so_proposer s)"

section \<open>Blocks on the ledger\<close>

fun spec_execute_all :: "externs \<Rightarrow> Transaction list \<Rightarrow> ledger \<Rightarrow> (ConsensusError + unit) \<times> ledger" where
  "spec_execute_all E [] L = (Inr (), L)"
| "spec_execute_all E (tx # txs) L =
     (case spec_execute E tx L of
        (Inl e, L') \<Rightarrow> (Inl (ExecutionFailed (VmError_to_string e)), L')
      | (Inr _, L') \<Rightarrow> spec_execute_all E txs L')"

definition total_fees :: "Transaction list \<Rightarrow> nat" where
  "total_fees txs = sum_list (map (unat \<circ> tx_fee) txs)"

context state_backend
begin

lemma execute_all_implements:
  assumes "json_ok E" "represents E s"
  shows "represents E (snd (execute_all E B txs s)) \<and>
    spec_execute_all E txs (view E s) = (fst (execute_all E B txs s), view E (snd (execute_all E B txs s)))"
  using assms(2)
proof (induction txs arbitrary: s)
  case Nil
  then show ?case by simp
next
  case (Cons tx txs)
  obtain r s1 where run: "block_execute E B tx s = (r, s1)" by fastforce
  then have "represents E s1" "spec_execute E tx (view E s) = (r, view E s1)"
    using block_implements [OF assms(1), of tx] Cons.prems by (auto simp: implements_def)
  with Cons.IH [of s1] run show ?case
    by (cases r) (auto simp: act_run)
qed

end

lemma spec_execute_all_conserves:
  assumes "ledger_ok L" "spec_execute_all E txs L = (r, L')"
  shows "ledger_ok L' \<and> wealth L' \<le> wealth L \<and> wealth L \<le> wealth L' + total_fees txs"
  using assms
proof (induction txs arbitrary: L)
  case Nil
  then show ?case by simp
next
  case (Cons tx txs)
  obtain q L1 where run: "spec_execute E tx L = (q, L1)" by fastforce
  have step: "ledger_ok L1" "wealth L1 \<le> wealth L" "wealth L \<le> wealth L1 + unat (tx_fee tx)"
    using execute_conserves [OF Cons.prems(1) run] by auto
  have rest: "ledger_ok L' \<and> wealth L' \<le> wealth L1 \<and> wealth L1 \<le> wealth L' + total_fees txs"
    using Cons.IH [OF step(1)] Cons.prems(2) run step(1) by (cases q) auto
  then show ?case using step by (auto simp: total_fees_def)
qed

lemma im_execute_all:
  assumes "json_ok E" "im_ok E s" "execute_all E (im_backend E) txs s = (r, s')"
  shows "spec_execute_all E txs (im_ledger E s) = (r, im_ledger E s')" "im_ok E s'"
  using im.execute_all_implements [OF assms(1), of s E txs] assms(2,3)
  by (auto simp: im_ok_def im_ledger_def)

section \<open>The solo chain\<close>

lemma solo_propose_state:
  assumes "solo_propose E now height txs s = (r, s')"
  shows "\<exists>q. execute_all E (im_backend E) txs (so_state s) = (q, so_state s')"
  using assms
  by (auto simp: solo_propose_def act_run act_on_apply Let_def im_backend_def store_state_root_def im_state_root_def
      split: prod.splits sum.splits)

lemma solo_propose_ok:
  assumes "solo_propose E now height txs s = (Inr b, s')"
  shows "bh_previous_hash (blk_header b) = so_previous_hash s" "so_previous_hash s' = block_hash E b"
    "store_state_root (im_backend E) (so_state s') = Inr (bh_state_root (blk_header b))"
    "bb_transactions (blk_body b) = txs" "so_height s' = height" "bh_height (blk_header b) = height"
    "so_proposer s' = so_proposer s"
  using assms
  by (auto simp: solo_propose_def act_run act_on_apply Let_def split: prod.splits sum.splits)

lemma solo_propose_err:
  assumes "solo_propose E now height txs s = (Inl e, s')"
  shows "so_previous_hash s' = so_previous_hash s" "so_height s' = so_height s" "so_proposer s' = so_proposer s"
  using assms
  by (auto simp: solo_propose_def act_run act_on_apply Let_def split: prod.splits sum.splits)

lemma solo_propose_succeeds:
  assumes "execute_all E (im_backend E) txs (so_state c) = (Inr (), st)"
  shows "\<exists>b c'. solo_propose E now height txs c = (Inr b, c') \<and> so_state c' = st"
  using assms by (simp add: solo_propose_def act_run act_on_apply Let_def im_backend_def store_state_root_def im_state_root_def)

text \<open>A run of the engine: the blocks of the proposals that succeed, in order.\<close>

fun solo_run :: "externs \<Rightarrow> (u64 \<times> u64 \<times> Transaction list) list \<Rightarrow> SoloConsensus \<Rightarrow> Block list \<times> SoloConsensus" where
  "solo_run E [] s = ([], s)"
| "solo_run E ((now, height, txs) # ps) s =
     (case solo_propose E now height txs s of
        (Inl _, s') \<Rightarrow> solo_run E ps s'
      | (Inr b, s') \<Rightarrow> case solo_run E ps s' of (bs, s'') \<Rightarrow> (b # bs, s''))"

fun linked :: "externs \<Rightarrow> hash \<Rightarrow> Block list \<Rightarrow> bool" where
  "linked E prev [] = True"
| "linked E prev (b # bs) \<longleftrightarrow> bh_previous_hash (blk_header b) = prev \<and> linked E (block_hash E b) bs"

text \<open>
  C26. The solo engine produces a hash chain: whatever is proposed, and however many proposals fail in
  between, the blocks it returns are linked by their previous hashes from the hash the engine was
  created with.
\<close>

theorem solo_blocks_linked:
  "linked E (so_previous_hash s) (fst (solo_run E ps s))"
proof (induction E ps s rule: solo_run.induct)
  case (1 E s)
  then show ?case by simp
next
  case (2 E now height txs ps s)
  obtain r s' where run: "solo_propose E now height txs s = (r, s')" by fastforce
  show ?case
  proof (cases r)
    case (Inl e)
    then show ?thesis
      using 2(1) [OF run [symmetric]] solo_propose_err(1) [of E now height txs s e s'] run by simp
  next
    case (Inr b)
    then show ?thesis
      using 2(2) [OF run [symmetric]] solo_propose_ok(1,2) [of E now height txs s b s'] run
      by (auto split: prod.splits)
  qed
qed

text \<open>
  Proposing a block conserves value: whether or not the proposal succeeds, the sum of balances and
  stakes does not grow and falls by at most the sum of the fees, and the ledger stays well formed. On
  success the state root in the header is the root of the state the engine now holds.
\<close>

theorem solo_propose_conserves:
  assumes "json_ok E" "im_ok E (so_state s)" "ledger_ok (im_ledger E (so_state s))"
    and "solo_propose E now height txs s = (r, s')"
  shows "im_ok E (so_state s') \<and> ledger_ok (im_ledger E (so_state s'))
       \<and> wealth (im_ledger E (so_state s')) \<le> wealth (im_ledger E (so_state s))
       \<and> wealth (im_ledger E (so_state s)) \<le> wealth (im_ledger E (so_state s')) + total_fees txs
       \<and> (\<forall>b. r = Inr b \<longrightarrow> store_state_root (im_backend E) (so_state s') = Inr (bh_state_root (blk_header b)))"
proof -
  obtain q where run: "execute_all E (im_backend E) txs (so_state s) = (q, so_state s')"
    using solo_propose_state [OF assms(4)] by blast
  note spec = im_execute_all [OF assms(1,2) run]
  show ?thesis
    using spec_execute_all_conserves [OF assms(3) spec(1)] spec(2) solo_propose_ok(3) assms(4) by blast
qed

definition demo_solo :: SoloConsensus where
  "demo_solo = (Solo_new zero32)\<lparr>so_state := demo_store\<rparr>"

theorem solo_propose_conserves_witness:
  "\<exists>r s'. solo_propose demo_externs 7 1 [] demo_solo = (r, s') \<and>
     wealth (im_ledger demo_externs (so_state s')) = wealth (im_ledger demo_externs demo_store)"
proof -
  obtain r s' where run: "solo_propose demo_externs 7 1 [] demo_solo = (r, s')" by fastforce
  have "so_state demo_solo = demo_store" by (simp add: demo_solo_def)
  with solo_propose_conserves [of demo_externs demo_solo, OF demo_json_ok _ _ run] demo_store_ok
  show ?thesis using run by (auto simp: total_fees_def)
qed

text \<open>
  A failed proposal is not rolled back. With a valid transfer followed by an unsigned transaction
  the proposal returns an error and leaves height and previous hash as they were, but the
  transfer has been executed: its effects are in the state and in no block.
\<close>

theorem solo_failed_proposal_keeps_effects:
  "\<exists>tx bad s'. solo_propose demo_externs 7 1 [tx, bad] demo_solo = (Inl (ExecutionFailed ''invalid signature''), s')
     \<and> so_previous_hash s' = so_previous_hash demo_solo \<and> so_height s' = so_height demo_solo
     \<and> bal (im_ledger demo_externs (so_state demo_solo)) demo_address = 1000
     \<and> bal (im_ledger demo_externs (so_state s')) demo_address = 899"
proof -
  obtain tx t where run: "block_execute demo_externs (im_backend demo_externs) tx demo_store = (Inr (success 21000 ''ok''), t)"
    "bal (im_ledger demo_externs t) demo_address = 899"
    by (metis demo_signed_transfer demo_transfer_runs)
  define bad where "bad = Transaction_transfer zero32 zero32 1 0 1"
  have "block_execute demo_externs (im_backend demo_externs) bad t = (Inl InvalidSignature, t)"
    by (simp add: block_execute_def act_run verify_signature_def bad_def Transaction_transfer_def)
  then have "solo_propose demo_externs 7 1 [tx, bad] demo_solo =
      (Inl (ExecutionFailed ''invalid signature''), demo_solo\<lparr>so_state := t\<rparr>)"
    using run(1) by (simp add: solo_propose_def act_run act_on_apply demo_solo_def)
  moreover have "bal (im_ledger demo_externs (so_state demo_solo)) demo_address = 1000"
    by (simp add: demo_solo_def bal_def im_ledger_def demo_store_def lg_account_def unwrap_account_def Account_new_def)
  ultimately show ?thesis using run(2) by (intro exI [of _ tx] exI [of _ bad] exI [of _ "demo_solo\<lparr>so_state := t\<rparr>"]) simp
qed

end
