(* ===== verification/Bft.thy ===== *)
theory Bft
  imports Consensus
begin

text \<open>
  Model of src/crates/pemrix-consensus/src/bft.rs: the multi-validator engine. The engine is a record
  over the backend's state type; its methods are actions on it. The step relation \<open>bft_step\<close> has
  one rule per method the node calls, and \<open>bft_reachable\<close> the states a new engine can get to.
\<close>

section \<open>State\<close>

record RoundState =
  rd_proposal :: "Proposal option"
  rd_block :: "Block option"
  rd_votes :: "(address, Vote) omap"
  rd_finalized :: bool

definition default_round :: RoundState where
  "default_round = \<lparr>rd_proposal = None, rd_block = None, rd_votes = om_empty, rd_finalized = False\<rparr>"

record 'b BftConsensus =
  bft_local_address :: address
  bft_validator_set :: ValidatorSet
  bft_state :: 'b
  bft_height :: u64
  bft_previous_hash :: hash
  bft_rounds :: "(u64, RoundState) omap"
  bft_finalized :: "(u64, Block) omap"
  bft_voted_this_height :: "(u64 \<times> address) oset"

definition Bft_new_with_store ::
    "address \<Rightarrow> ValidatorSet \<Rightarrow> 'b \<Rightarrow> hash \<Rightarrow> panic + 'b BftConsensus" where
  "Bft_new_with_store local vs st prev =
     (if \<not> is_validator vs local then Inl (AssertionFailed ''local address must be in validator set'')
      else Inr \<lparr>bft_local_address = local, bft_validator_set = vs, bft_state = st, bft_height = 0,
             bft_previous_hash = prev, bft_rounds = om_empty, bft_finalized = om_empty,
             bft_voted_this_height = om_empty\<rparr>)"

definition Bft_new_with_previous_hash :: "address \<Rightarrow> ValidatorSet \<Rightarrow> hash \<Rightarrow> panic + InMemoryBackend BftConsensus" where
  "Bft_new_with_previous_hash local vs prev = Bft_new_with_store local vs InMemoryBackend_new prev"

definition Bft_new :: "address \<Rightarrow> ValidatorSet \<Rightarrow> panic + InMemoryBackend BftConsensus" where
  "Bft_new local vs = Bft_new_with_previous_hash local vs zero32"

text \<open>\<open>self.rounds.entry(height).or_default()\<close> followed by updates of the entry.\<close>

definition round_entry :: "'b BftConsensus \<Rightarrow> u64 \<Rightarrow> RoundState" where
  "round_entry s h = (case om_get (bft_rounds s) h of None \<Rightarrow> default_round | Some r \<Rightarrow> r)"

definition set_round :: "u64 \<Rightarrow> RoundState \<Rightarrow> 'b BftConsensus \<Rightarrow> 'b BftConsensus" where
  "set_round h r s = s\<lparr>bft_rounds := om_insert h r (bft_rounds s)\<rparr>"

definition has_voted :: "'b BftConsensus \<Rightarrow> u64 \<Rightarrow> bool" where
  "has_voted s h = os_member (bft_voted_this_height s) (h, bft_local_address s)"

definition mark_voted :: "u64 \<Rightarrow> 'b BftConsensus \<Rightarrow> 'b BftConsensus" where
  "mark_voted h s = s\<lparr>bft_voted_this_height := os_insert (h, bft_local_address s) (bft_voted_this_height s)\<rparr>"

section \<open>Validation and quorum\<close>

definition validate_proposal :: "'b BftConsensus \<Rightarrow> Proposal \<Rightarrow> ConsensusError + unit" where
  "validate_proposal s p =
     bind_result (ok_or InvalidProposal (proposer (bft_validator_set s) (pp_height p) (pp_round p))) (\<lambda>expected.
     if pp_height p \<le> bft_height s then Inl InvalidProposal
     else if pp_proposer p \<noteq> expected then Inl InvalidProposal
     else Inr ())"

definition validate_vote :: "'b BftConsensus \<Rightarrow> Vote \<Rightarrow> ConsensusError + unit" where
  "validate_vote s v =
     (if vote_height v \<le> bft_height s then Inl InvalidVote
      else if \<not> is_validator (bft_validator_set s) (vote_voter v) then Inl InvalidVote
      else bind_result (ok_or InvalidVote (om_get (bft_rounds s) (vote_height v))) (\<lambda>round.
        case rd_proposal round of
          Some p \<Rightarrow> if pp_block_hash p \<noteq> vote_block_hash v then Inl InvalidVote else Inr ()
        | None \<Rightarrow> Inl InvalidVote))"

definition vote_power :: "ValidatorSet \<Rightarrow> address \<Rightarrow> u64" where
  "vote_power vs a =
     (case List.find (\<lambda>v. val_address v = a) (validators vs) of None \<Rightarrow> 0 | Some v \<Rightarrow> val_power v)"

definition has_quorum :: "'b BftConsensus \<Rightarrow> u64 \<Rightarrow> bool" where
  "has_quorum s h =
     (case om_get (bft_rounds s) h of
        None \<Rightarrow> False
      | Some round \<Rightarrow>
          sum_list (map (vote_power (bft_validator_set s)) (om_keys (rd_votes round)))
            \<ge> quorum_threshold (bft_validator_set s))"

definition try_finalize :: "externs \<Rightarrow> u64 \<Rightarrow> 'b BftConsensus \<Rightarrow> Block option \<times> 'b BftConsensus" where
  "try_finalize E h s =
     (if \<not> has_quorum s h then (None, s)
      else case om_get (bft_rounds s) h of
        None \<Rightarrow> (None, s)
      | Some round \<Rightarrow>
          if rd_finalized round then (rd_block round, s)
          else
            let s1 = set_round h (round\<lparr>rd_finalized := True\<rparr>) s in
            case rd_block round of
              Some block \<Rightarrow>
                (Some block,
                 s1\<lparr>bft_finalized := om_insert h block (bft_finalized s1), bft_previous_hash := block_hash E block,
                    bft_height := h,
                    bft_voted_this_height := om_retain (\<lambda>(h', _) _. h' \<noteq> h) (bft_voted_this_height s1)\<rparr>)
            | None \<Rightarrow> (None, s1))"

section \<open>Committee updates and block building\<close>

definition active_candidates :: "(address \<times> ValidatorRecord) list \<Rightarrow> (address \<times> u64) list" where
  "active_candidates records =
     map (\<lambda>(a, r). (a, ucast (min (total_stake r) 18446744073709551615)))
       (filter (\<lambda>(_, r). vr_status r = Active \<and> total_stake r \<ge> MIN_ACTIVE_STAKE) records)"

text \<open>Descending power, then ascending address: \<open>- 1 - p\<close> is \<open>u64::MAX - p\<close>.\<close>

definition committee :: "(address \<times> ValidatorRecord) list \<Rightarrow> ValidatorSet" where
  "committee records =
     fold (\<lambda>(a, p) vs. vs_add a p vs)
       (take (unat MAX_ACTIVE_VALIDATORS) (sort_key (\<lambda>(a, p). (- 1 - p, a)) (active_candidates records)))
       ValidatorSet_new"

definition update_validator_set :: "externs \<Rightarrow> 'b StateBackend \<Rightarrow> 'b BftConsensus \<Rightarrow> 'b BftConsensus" where
  "update_validator_set E B s =
     (case validator_records E B (bft_state s) of
        Inl _ \<Rightarrow> s
      | Inr records \<Rightarrow>
          let new_set = committee records
          in if \<not> vs_is_empty new_set then s\<lparr>bft_validator_set := new_set\<rparr> else s)"

definition build_block ::
    "externs \<Rightarrow> 'b StateBackend \<Rightarrow> u64 \<Rightarrow> u64 \<Rightarrow> Transaction list \<Rightarrow> ('b BftConsensus, ConsensusError, Block) action" where
  "build_block E B now height txs =
     act_bind (act_on bft_state (\<lambda>t s. s\<lparr>bft_state := t\<rparr>) (execute_all E B txs)) (\<lambda>_.
     act_bind (act_modify (update_validator_set E B)) (\<lambda>_.
     act_bind (act_query (\<lambda>s. map_err (\<lambda>_. ConsensusStorage) (store_state_root B (bft_state s)))) (\<lambda>root.
     act_bind (act_gets (\<lambda>s. (bft_previous_hash s, bft_local_address s))) (\<lambda>(prev, local).
     act_return
       \<lparr>blk_header = \<lparr>bh_height = height, bh_timestamp = now, bh_previous_hash = prev, bh_state_root = root,
          bh_tx_root = hash_bytes E (encode (json_transactions E) txs), bh_proposer = local\<rparr>,
        blk_body = \<lparr>bb_transactions = txs\<rparr>\<rparr>))))"

section \<open>The engine's methods\<close>

definition propose ::
    "externs \<Rightarrow> 'b StateBackend \<Rightarrow> u64 \<Rightarrow> u64 \<Rightarrow> Transaction list \<Rightarrow> ('b BftConsensus, ConsensusError, Block) action" where
  "propose E B now height txs =
     act_bind (act_query (\<lambda>s. ok_or NotProposer (proposer (bft_validator_set s) height 0))) (\<lambda>prop.
     act_bind (act_gets bft_local_address) (\<lambda>local.
     if prop \<noteq> local then act_throw NotProposer
     else
       act_bind (build_block E B now height txs) (\<lambda>block.
       act_bind (act_modify (\<lambda>s.
         let p = \<lparr>pp_block_hash = block_hash E block, pp_height = height, pp_round = 0, pp_proposer = local\<rparr>;
             vote = \<lparr>vote_block_hash = block_hash E block, vote_height = height, vote_round = 0, vote_voter = local\<rparr>;
             r = round_entry s height
         in mark_voted height (set_round height
              (r\<lparr>rd_proposal := Some p, rd_block := Some block, rd_votes := om_insert local vote (rd_votes r)\<rparr>) s))) (\<lambda>_.
       act_return block))))"

definition handle_block :: "externs \<Rightarrow> Block \<Rightarrow> ('b BftConsensus, ConsensusError, Vote) action" where
  "handle_block E block = (\<lambda>s.
     let p = Proposal_from_block E block in
     case validate_proposal s p of
       Inl e \<Rightarrow> (Inl e, s)
     | Inr _ \<Rightarrow>
         let h = pp_height p;
             r = (round_entry s h)\<lparr>rd_proposal := Some p, rd_block := Some block\<rparr>
         in if \<not> has_voted s h then
              let vote = \<lparr>vote_block_hash = pp_block_hash p, vote_height = h, vote_round = 0,
                            vote_voter = bft_local_address s\<rparr>
              in (Inr vote, mark_voted h (set_round h
                    (r\<lparr>rd_votes := om_insert (bft_local_address s) vote (rd_votes r)\<rparr>) s))
            else (Inl InvalidVote, set_round h r s))"

definition handle_proposal :: "Proposal \<Rightarrow> ('b BftConsensus, ConsensusError, unit) action" where
  "handle_proposal p = (\<lambda>s.
     case validate_proposal s p of
       Inl e \<Rightarrow> (Inl e, s)
     | Inr _ \<Rightarrow>
         let h = pp_height p;
             r = (round_entry s h)\<lparr>rd_proposal := Some p\<rparr>
         in if \<not> has_voted s h then
              let vote = \<lparr>vote_block_hash = pp_block_hash p, vote_height = h, vote_round = pp_round p,
                            vote_voter = bft_local_address s\<rparr>
              in (Inr (), mark_voted h (set_round h
                    (r\<lparr>rd_votes := om_insert (bft_local_address s) vote (rd_votes r)\<rparr>) s))
            else (Inr (), set_round h r s))"

definition handle_vote :: "Vote \<Rightarrow> ('b BftConsensus, ConsensusError, unit) action" where
  "handle_vote v = (\<lambda>s.
     case validate_vote s v of
       Inl e \<Rightarrow> (Inl e, s)
     | Inr _ \<Rightarrow>
         let r = round_entry s (vote_height v)
         in (Inr (), set_round (vote_height v) (r\<lparr>rd_votes := om_insert (vote_voter v) v (rd_votes r)\<rparr>) s))"

definition finalize :: "externs \<Rightarrow> u64 \<Rightarrow> hash \<Rightarrow> ('b BftConsensus, ConsensusError, Finality) action" where
  "finalize E now bh = (\<lambda>s.
     let h = bft_height s + 1 in
     case om_get (bft_rounds s) h of
       None \<Rightarrow> (Inl InvalidProposal, s)
     | Some round \<Rightarrow>
         (case rd_proposal round of
            None \<Rightarrow> (Inl InvalidProposal, s)
          | Some p \<Rightarrow>
              if pp_block_hash p = bh then
                (case try_finalize E h s of
                   (Some block, s') \<Rightarrow> (Inr \<lparr>fin_block = block, fin_timestamp = now\<rparr>, s')
                 | (None, s') \<Rightarrow> (Inl InvalidProposal, s'))
              else (Inl InvalidProposal, s)))"

fun finalize_candidates ::
    "externs \<Rightarrow> u64 \<Rightarrow> u64 list \<Rightarrow> Block option \<Rightarrow> 'b BftConsensus \<Rightarrow> Block option \<times> 'b BftConsensus" where
  "finalize_candidates E now [] found s = (found, s)"
| "finalize_candidates E now (h # hs) found s =
     (case Option.bind (om_get (bft_rounds s) h) rd_proposal of
        None \<Rightarrow> finalize_candidates E now hs found s
      | Some p \<Rightarrow>
          (case finalize E now (pp_block_hash p) s of
             (Inr f, s') \<Rightarrow> finalize_candidates E now hs (Some (fin_block f)) s'
           | (Inl _, s') \<Rightarrow> finalize_candidates E now hs found s'))"

definition finalize_pending :: "externs \<Rightarrow> u64 \<Rightarrow> 'b BftConsensus \<Rightarrow> Block option \<times> 'b BftConsensus" where
  "finalize_pending E now s =
     finalize_candidates E now
       (map fst (filter (\<lambda>(h, r). h > bft_height s \<and> rd_proposal r \<noteq> None) (om_entries (bft_rounds s)))) None s"

definition own_vote :: "'b BftConsensus \<Rightarrow> u64 \<Rightarrow> Vote option" where
  "own_vote s h = Option.bind (om_get (bft_rounds s) h) (\<lambda>r. om_get (rd_votes r) (bft_local_address s))"

definition own_proposal :: "'b BftConsensus \<Rightarrow> u64 \<Rightarrow> Block option" where
  "own_proposal s h = Option.bind (om_get (bft_rounds s) h) rd_block"

section \<open>Steps\<close>

text \<open>
  One rule per method the node calls. \<open>finalize\<close> looks for the height after the current one; the steps end at the largest 64-bit height, which has no
  next (there the addition panics or wraps, depending on the build, and no chain of blocks reaches it).
\<close>

inductive bft_step :: "externs \<Rightarrow> 'b StateBackend \<Rightarrow> 'b BftConsensus \<Rightarrow> 'b BftConsensus \<Rightarrow> bool" for E B where
  step_propose: "propose E B now h txs s = (r, s') \<Longrightarrow> bft_step E B s s'"
| step_block: "handle_block E b s = (r, s') \<Longrightarrow> bft_step E B s s'"
| step_proposal: "handle_proposal p s = (r, s') \<Longrightarrow> bft_step E B s s'"
| step_vote: "handle_vote v s = (r, s') \<Longrightarrow> bft_step E B s s'"
| step_finalize: "bft_height s \<noteq> - 1 \<Longrightarrow> finalize E now bh s = (r, s') \<Longrightarrow> bft_step E B s s'"

inductive bft_reachable :: "externs \<Rightarrow> 'b StateBackend \<Rightarrow> 'b BftConsensus \<Rightarrow> bool" for E B where
  init: "Bft_new_with_store local vs st prev = Inr s \<Longrightarrow> bft_reachable E B s"
| step: "bft_reachable E B s \<Longrightarrow> bft_step E B s s' \<Longrightarrow> bft_reachable E B s'"

inductive_cases bft_stepE: "bft_step E B s s'"

section \<open>What each method touches\<close>

text \<open>The chain part of the state: height, tip and finalized blocks.\<close>

definition same_chain :: "'b BftConsensus \<Rightarrow> 'b BftConsensus \<Rightarrow> bool" where
  "same_chain s s' \<longleftrightarrow> bft_height s' = bft_height s \<and> bft_previous_hash s' = bft_previous_hash s
     \<and> bft_finalized s' = bft_finalized s"

definition extends_chain :: "externs \<Rightarrow> 'b BftConsensus \<Rightarrow> 'b BftConsensus \<Rightarrow> Block \<Rightarrow> bool" where
  "extends_chain E s s' b \<longleftrightarrow> bft_height s' = bft_height s + 1 \<and> bft_previous_hash s' = block_hash E b
     \<and> bft_finalized s' = om_insert (bft_height s + 1) b (bft_finalized s)"

lemma same_chain_simps [simp]:
  "same_chain s s" "same_chain s (set_round h r s')  = same_chain s s'" "same_chain s (mark_voted h s') = same_chain s s'"
  by (simp_all add: same_chain_def set_round_def mark_voted_def)

lemma state_simps [simp]:
  "bft_state (set_round h r s) = bft_state s" "bft_state (mark_voted h s) = bft_state s"
  "bft_local_address (set_round h r s) = bft_local_address s" "bft_local_address (mark_voted h s) = bft_local_address s"
  "bft_validator_set (set_round h r s) = bft_validator_set s" "bft_validator_set (mark_voted h s) = bft_validator_set s"
  "bft_height (set_round h r s) = bft_height s" "bft_height (mark_voted h s) = bft_height s"
  "bft_rounds (set_round h r s) = om_insert h r (bft_rounds s)" "bft_rounds (mark_voted h s) = bft_rounds s"
  "bft_finalized (set_round h r s) = bft_finalized s" "bft_finalized (mark_voted h s) = bft_finalized s"
  "bft_previous_hash (set_round h r s) = bft_previous_hash s" "bft_previous_hash (mark_voted h s) = bft_previous_hash s"
  "bft_voted_this_height (set_round h r s) = bft_voted_this_height s"
  by (simp_all add: set_round_def mark_voted_def)

lemma update_validator_set_frame [simp]:
  "same_chain s (update_validator_set E B s') = same_chain s s'"
  "bft_state (update_validator_set E B s) = bft_state s"
  "bft_rounds (update_validator_set E B s) = bft_rounds s"
  "bft_local_address (update_validator_set E B s) = bft_local_address s"
  "bft_previous_hash (update_validator_set E B s) = bft_previous_hash s"
  by (auto simp: update_validator_set_def same_chain_def Let_def split: sum.splits)

lemma same_chain_state [simp]: "same_chain s (s'\<lparr>bft_state := t\<rparr>) = same_chain s s'"
  by (simp add: same_chain_def)

lemma propose_same_chain:
  "propose E B now h txs s = (r, s') \<Longrightarrow> same_chain s s'"
  by (auto simp: propose_def build_block_def act_run act_on_apply Let_def split: prod.splits sum.splits if_splits)

lemma handle_block_frame:
  "handle_block E b s = (r, s') \<Longrightarrow> same_chain s s' \<and> bft_state s' = bft_state s"
  by (auto simp: handle_block_def Let_def split: sum.splits if_splits)

lemma handle_proposal_frame:
  "handle_proposal p s = (r, s') \<Longrightarrow> same_chain s s' \<and> bft_state s' = bft_state s"
  by (auto simp: handle_proposal_def Let_def split: sum.splits if_splits)

lemma handle_vote_frame:
  "handle_vote v s = (r, s') \<Longrightarrow> same_chain s s' \<and> bft_state s' = bft_state s"
  by (auto simp: handle_vote_def Let_def split: sum.splits if_splits)

lemma try_finalize_frame:
  assumes "try_finalize E h s = (b, s')"
  shows "(same_chain s s' \<or> (\<exists>blk. b = Some blk \<and> bft_height s' = h \<and> bft_previous_hash s' = block_hash E blk
            \<and> bft_finalized s' = om_insert h blk (bft_finalized s) \<and> has_quorum s h
            \<and> (\<exists>r. om_get (bft_rounds s) h = Some r \<and> rd_block r = Some blk)))
       \<and> bft_state s' = bft_state s"
proof (cases "has_quorum s h \<and> (\<exists>r blk. om_get (bft_rounds s) h = Some r \<and> \<not> rd_finalized r \<and> rd_block r = Some blk)")
  case True
  then obtain r blk where r: "has_quorum s h" "om_get (bft_rounds s) h = Some r" "\<not> rd_finalized r" "rd_block r = Some blk"
    by blast
  with assms have "b = Some blk \<and> bft_height s' = h \<and> bft_previous_hash s' = block_hash E blk
      \<and> bft_finalized s' = om_insert h blk (bft_finalized s)" "bft_state s' = bft_state s"
    by (auto simp: try_finalize_def Let_def)
  with r show ?thesis by blast
next
  case False
  with assms show ?thesis by (auto simp: try_finalize_def Let_def split: option.splits if_splits)
qed

lemma finalize_frame:
  assumes "finalize E now bh s = (r, s')"
  shows "(same_chain s s' \<or> (\<exists>b. r = Inr \<lparr>fin_block = b, fin_timestamp = now\<rparr> \<and> extends_chain E s s' b
            \<and> has_quorum s (bft_height s + 1)
            \<and> (\<exists>rd. om_get (bft_rounds s) (bft_height s + 1) = Some rd \<and> rd_block rd = Some b)))
       \<and> bft_state s' = bft_state s"
proof -
  obtain b t where tf: "try_finalize E (bft_height s + 1) s = (b, t)" by fastforce
  from try_finalize_frame [OF tf] assms tf show ?thesis
    by (auto simp: finalize_def Let_def extends_chain_def split: option.splits if_splits)
qed

lemma step_chain:
  assumes "bft_step E B s s'"
  shows "same_chain s s' \<or> (bft_height s \<noteq> - 1 \<and> (\<exists>b. extends_chain E s s' b \<and> has_quorum s (bft_height s + 1)))"
  using assms
proof (cases rule: bft_step.cases)
  case (step_propose now h txs r)
  then show ?thesis using propose_same_chain by blast
next
  case (step_block b r)
  then show ?thesis using handle_block_frame by blast
next
  case (step_proposal p r)
  then show ?thesis using handle_proposal_frame by blast
next
  case (step_vote v r)
  then show ?thesis using handle_vote_frame by blast
next
  case (step_finalize now bh r)
  then show ?thesis using finalize_frame by blast
qed

section \<open>Finality\<close>

definition chain_inv :: "externs \<Rightarrow> 'b BftConsensus \<Rightarrow> bool" where
  "chain_inv E s \<longleftrightarrow>
     (\<forall>h. om_get (bft_finalized s) h \<noteq> None \<longleftrightarrow> 0 < h \<and> h \<le> bft_height s) \<and>
     (0 < bft_height s \<longrightarrow> (\<exists>b. om_get (bft_finalized s) (bft_height s) = Some b \<and> bft_previous_hash s = block_hash E b))"

lemma u64_next:
  fixes h k :: u64
  assumes "k \<noteq> - 1"
  shows "k < k + 1" "0 < k + 1" "h \<le> k + 1 \<longleftrightarrow> h \<le> k \<or> h = k + 1"
proof -
  have "unat k < 2 ^ 64 - 1"
    using assms unat_less_bound [of k] unat_max_word [where 'a = 64] word_eq_by_unat [of k "- 1"] by fastforce
  then have "unat (k + 1) = unat k + 1" by (intro trans [OF unat_add_exact]) simp_all
  then show "k < k + 1" "0 < k + 1" "h \<le> k + 1 \<longleftrightarrow> h \<le> k \<or> h = k + 1"
    using word_eq_by_unat [of h "k + 1"] by (auto simp: word_less_nat_alt word_le_nat_alt le_Suc_eq)
qed

lemma chain_inv_step:
  assumes "chain_inv E s" "bft_step E B s s'"
  shows "chain_inv E s'"
  using step_chain [OF assms(2)]
proof
  assume "same_chain s s'"
  with assms(1) show ?thesis by (simp add: chain_inv_def same_chain_def)
next
  assume "bft_height s \<noteq> - 1 \<and> (\<exists>b. extends_chain E s s' b \<and> has_quorum s (bft_height s + 1))"
  then obtain b where b: "bft_height s \<noteq> - 1" "extends_chain E s s' b" by blast
  have "(om_get (bft_finalized s') h \<noteq> None) = (0 < h \<and> h \<le> bft_height s')" for h
    using assms(1) b u64_next(2) [OF b(1)] u64_next(3) [OF b(1), of h] by (auto simp: chain_inv_def extends_chain_def)
  with b show ?thesis by (simp add: chain_inv_def extends_chain_def)
qed

lemma reachable_chain_inv: "bft_reachable E B s \<Longrightarrow> chain_inv E s"
proof (induction rule: bft_reachable.induct)
  case (init local vs st prev s)
  then show ?case
    by (auto simp: Bft_new_with_store_def chain_inv_def dest: leD split: if_splits)
next
  case (step s s')
  then show ?case using chain_inv_step by blast
qed

lemma step_keeps_finalized:
  assumes "chain_inv E s" "bft_step E B s s'"
  shows "bft_height s \<le> bft_height s' \<and> (\<forall>h\<le>bft_height s. om_get (bft_finalized s') h = om_get (bft_finalized s) h)"
  using step_chain [OF assms(2)]
proof
  assume "bft_height s \<noteq> - 1 \<and> (\<exists>b. extends_chain E s s' b \<and> has_quorum s (bft_height s + 1))"
  then obtain b where b: "bft_height s \<noteq> - 1" "extends_chain E s s' b" by blast
  then show ?thesis
    using u64_next(1) [OF b(1)] by (auto simp: extends_chain_def)
qed (simp add: same_chain_def)

text \<open>
  C3. Finality is gapless and irrevocable. In every reachable state exactly the heights from 1 to the
  current one have a finalized block and the tip is the hash of the last one; along every further run
  the height does not decrease and the finalized blocks never change.
\<close>

theorem finality_irrevocable:
  assumes "bft_reachable E B s" "(bft_step E B)\<^sup>*\<^sup>* s s'"
  shows "(\<forall>h. om_get (bft_finalized s) h \<noteq> None \<longleftrightarrow> 0 < h \<and> h \<le> bft_height s)
       \<and> (0 < bft_height s \<longrightarrow> (\<exists>b. om_get (bft_finalized s) (bft_height s) = Some b \<and> bft_previous_hash s = block_hash E b))
       \<and> bft_height s \<le> bft_height s'
       \<and> (\<forall>h\<le>bft_height s. om_get (bft_finalized s') h = om_get (bft_finalized s) h)"
proof -
  from assms(2) have "bft_reachable E B s' \<and> bft_height s \<le> bft_height s'
      \<and> (\<forall>h\<le>bft_height s. om_get (bft_finalized s') h = om_get (bft_finalized s) h)"
  proof (induction rule: rtranclp_induct)
    case base
    then show ?case using assms(1) by simp
  next
    case (step t u)
    then have "bft_reachable E B u" "bft_height t \<le> bft_height u"
      "\<forall>h\<le>bft_height t. om_get (bft_finalized u) h = om_get (bft_finalized t) h"
      using step_keeps_finalized [OF reachable_chain_inv step.hyps(2)] bft_reachable.step by blast+
    with step.IH show ?case by (metis order_trans)
  qed
  with reachable_chain_inv [OF assms(1)] show ?thesis by (simp add: chain_inv_def)
qed

section \<open>Quorums of votes\<close>

lemma find_entry:
  "List.find (\<lambda>v. val_address v = a) (map (\<lambda>(a, p). Validator_new a p) es) = map_option (Validator_new a) (map_of es a)"
  by (induction es) (auto simp: Validator_new_def)

lemma unat_vote_power: "unat (vote_power vs a) = power_nat vs a"
proof -
  have "List.find (\<lambda>v. val_address v = a) (validators vs) = map_option (Validator_new a) (vs_power vs a)"
    by (simp add: validators_def find_entry vs_power_def om_get_def)
  then show ?thesis by (simp add: vote_power_def power_nat_def Validator_new_def split: option.splits)
qed

lemma unat_vote_sum:
  assumes "total_nat vs < 2 ^ 64" "distinct keys"
  shows "unat (sum_list (map (vote_power vs) keys)) = sum (power_nat vs) (set keys)"
proof -
  have eq: "sum_list (map unat (map (vote_power vs) keys)) = sum (power_nat vs) (set keys)"
    using assms(2) by (simp add: comp_def unat_vote_power sum_list_distinct_conv_sum_set)
  also have "\<dots> \<le> total_nat vs" unfolding total_nat_def by (rule sum_mono2) simp_all
  finally show ?thesis using assms(1) eq by (simp add: unat_sum_list)
qed

definition voters :: "RoundState \<Rightarrow> address set" where
  "voters r = set (om_keys (rd_votes r))"

lemma has_quorum_voters:
  assumes "total_nat (bft_validator_set s) < 2 ^ 64"
  shows "has_quorum s h \<longleftrightarrow> (\<exists>r. om_get (bft_rounds s) h = Some r \<and>
     unat (quorum_threshold (bft_validator_set s)) \<le> sum (power_nat (bft_validator_set s)) (voters r))"
  by (auto simp: has_quorum_def voters_def word_le_nat_alt unat_vote_sum [OF assms] om_keys_distinct split: option.splits)

text \<open>
  C9. A block is finalized only with a quorum: whenever \<open>finalize\<close> advances the chain of an engine whose committee has a total
  power below \<open>2 ^ 63\<close> (beyond that the threshold wraps), the validators that have a recorded vote at that height hold more than two thirds of the committee's power, and the
  block is the one stored for that height.
\<close>

theorem finalize_needs_quorum:
  assumes "finalize E now bh s = (r, s')" "bft_height s' \<noteq> bft_height s" "total_nat (bft_validator_set s) < 2 ^ 63"
  shows "\<exists>rd b. om_get (bft_rounds s) (bft_height s + 1) = Some rd \<and> rd_block rd = Some b
       \<and> r = Inr \<lparr>fin_block = b, fin_timestamp = now\<rparr> \<and> om_get (bft_finalized s') (bft_height s') = Some b
       \<and> bft_height s' = bft_height s + 1
       \<and> 2 * total_nat (bft_validator_set s) < 3 * sum (power_nat (bft_validator_set s)) (voters rd)"
proof -
  obtain b rd where b: "r = Inr \<lparr>fin_block = b, fin_timestamp = now\<rparr>" "extends_chain E s s' b"
    "has_quorum s (bft_height s + 1)" "om_get (bft_rounds s) (bft_height s + 1) = Some rd" "rd_block rd = Some b"
    using finalize_frame [OF assms(1)] assms(2) by (auto simp: same_chain_def)
  have "unat (quorum_threshold (bft_validator_set s)) \<le> sum (power_nat (bft_validator_set s)) (voters rd)"
    using has_quorum_voters [of s "bft_height s + 1"] assms(3) b(3,4) by simp
  then have "2 * total_nat (bft_validator_set s) < 3 * sum (power_nat (bft_validator_set s)) (voters rd)"
    unfolding unat_quorum_threshold [OF assms(3)] by linarith
  with b show ?thesis by (auto simp: extends_chain_def)
qed

text \<open>
  C8. Accountable safety, for a committee that is not empty and has a total power below \<open>2 ^ 63\<close>, so that the threshold does not wrap: if two engines
  with that committee both have a quorum at a height, and all votes each has recorded are for its own block, then either the blocks have the same hash or
  validators with more than a third of the power have voted for both.
\<close>

theorem conflicting_quorums_need_double_votes:
  assumes "bft_validator_set s1 = vs" "bft_validator_set s2 = vs" "0 < total_nat vs" "total_nat vs < 2 ^ 63"
    and "has_quorum s1 h" "has_quorum s2 h"
    and "om_get (bft_rounds s1) h = Some r1" "om_get (bft_rounds s2) h = Some r2"
    and "\<forall>a v. om_get (rd_votes r1) a = Some v \<longrightarrow> vote_block_hash v = bh1"
    and "\<forall>a v. om_get (rd_votes r2) a = Some v \<longrightarrow> vote_block_hash v = bh2"
  shows "bh1 = bh2 \<or> total_nat vs < 3 * sum (power_nat vs)
       {a. \<exists>v1 v2. om_get (rd_votes r1) a = Some v1 \<and> om_get (rd_votes r2) a = Some v2
             \<and> vote_block_hash v1 \<noteq> vote_block_hash v2}"
proof (cases "bh1 = bh2")
  case False
  have q: "unat (quorum_threshold vs) \<le> sum (power_nat vs) (voters r1)"
    "unat (quorum_threshold vs) \<le> sum (power_nat vs) (voters r2)"
    using has_quorum_voters [of s1 h] has_quorum_voters [of s2 h] assms by auto
  have "3 * sum (power_nat vs) (voters r1 \<inter> voters r2) > total_nat vs"
    using sum_intersection_bound [of "power_nat vs" "voters r1" "voters r2"] q
    unfolding unat_quorum_threshold [OF assms(4)] total_nat_def by linarith
  moreover have "voters r1 \<inter> voters r2 = {a. \<exists>v1 v2. om_get (rd_votes r1) a = Some v1 \<and> om_get (rd_votes r2) a = Some v2
             \<and> vote_block_hash v1 \<noteq> vote_block_hash v2}"
    using assms(9,10) False by (auto simp: voters_def set_om_keys dom_def)
  ultimately show ?thesis by simp
qed simp

text \<open>
  Only a proposal executes transactions: handling blocks, proposals and votes and finalizing leave
  the ledger state as it was, so a validator that is not the proposer never applies, and never checks,
  the state root of the block it votes for.
\<close>

theorem only_propose_changes_state:
  assumes "bft_step E B s s'" "bft_state s' \<noteq> bft_state s"
  shows "\<exists>now h txs r. propose E B now h txs s = (r, s')
       \<and> proposer (bft_validator_set s) h 0 = Some (bft_local_address s)
       \<and> bft_state s' = snd (execute_all E B txs (bft_state s))"
  using assms(1)
proof (cases rule: bft_step.cases)
  case (step_propose now h txs r)
  have "proposer (bft_validator_set s) h 0 = Some (bft_local_address s)"
    "bft_state s' = snd (execute_all E B txs (bft_state s))"
    using step_propose assms(2)
    by (auto simp: propose_def build_block_def act_run act_on_apply Let_def split: prod.splits sum.splits if_splits option.splits)
  with step_propose show ?thesis by blast
next
  case (step_block b r)
  then show ?thesis using handle_block_frame assms(2) by blast
next
  case (step_proposal p r)
  then show ?thesis using handle_proposal_frame assms(2) by blast
next
  case (step_vote v r)
  then show ?thesis using handle_vote_frame assms(2) by blast
next
  case (step_finalize now bh r)
  then show ?thesis using finalize_frame assms(2) by blast
qed

section \<open>Committee selection\<close>

lemma om_get_fold_vs_add:
  "om_get (vs_validators (fold (\<lambda>(a, p) vs. vs_add a p vs) xs vs)) =
     om_get (vs_validators vs) ++ map_of (rev xs)"
proof (induction xs arbitrary: vs)
  case Nil
  then show ?case by simp
next
  case (Cons x xs)
  then show ?case by (cases x) (auto simp: vs_add_def fun_eq_iff map_add_def split: option.splits)
qed

lemma distinct_active_candidates:
  assumes "distinct (map fst records)"
  shows "distinct (map fst (active_candidates records))"
proof -
  have "map fst (active_candidates records) = map fst (filter (\<lambda>(_, r). vr_status r = Active \<and> total_stake r \<ge> MIN_ACTIVE_STAKE) records)"
    by (auto simp: active_candidates_def)
  then show ?thesis using assms by (simp add: distinct_map_filter)
qed

lemma distinct_map_sort_key: "distinct (map f (sort_key g xs)) = distinct (map f xs)"
proof -
  have "set (map f (sort_key g xs)) = set (map f xs)" "length (map f (sort_key g xs)) = length (map f xs)"
    by simp_all
  then show ?thesis by (metis card_distinct distinct_card)
qed

abbreviation ranking :: "address \<times> u64 \<Rightarrow> u64 \<times> address" where
  "ranking \<equiv> \<lambda>(a, p). (- 1 - p, a)"

definition elected :: "(address \<times> ValidatorRecord) list \<Rightarrow> (address \<times> u64) list" where
  "elected records = take (unat MAX_ACTIVE_VALIDATORS) (sort_key ranking (active_candidates records))"

lemma distinct_elected: "distinct (map fst records) \<Longrightarrow> distinct (map fst (elected records))"
proof -
  assume "distinct (map fst records)"
  then have "distinct (map fst (active_candidates records))" by (rule distinct_active_candidates)
  then have "distinct (map fst (sort_key ranking (active_candidates records)))"
    by (simp add: distinct_map_sort_key)
  then show ?thesis unfolding elected_def take_map [symmetric] by (rule distinct_take)
qed

lemma committee_power:
  assumes "distinct (map fst records)"
  shows "vs_power (committee records) a = map_of (elected records) a"
proof -
  have "vs_power (committee records) = map_of (rev (elected records))"
    by (simp add: vs_power_def committee_def elected_def om_get_fold_vs_add ValidatorSet_new_def fun_eq_iff)
  then show ?thesis
    using distinct_elected [OF assms] map_of_inject_set [of "rev (elected records)" "elected records"]
    by (simp add: rev_map [symmetric])
qed

lemma rank_order: "- 1 - p \<le> - 1 - q \<longleftrightarrow> q \<le> (p :: u64)"
proof -
  have "unat (- 1 - x) = 2 ^ 64 - 1 - unat x" for x :: u64
    using unat_sub_exact [of x "- 1"] by (simp add: unat_max_word)
  then show ?thesis
    using unat_less_bound [of p] unat_less_bound [of q] by (auto simp: word_le_nat_alt)
qed

lemma sorted_take_before_rest:
  assumes "sorted (map f xs)" "x \<in> set (take n xs)" "y \<in> set xs" "y \<notin> set (take n xs)"
  shows "f x \<le> f y" "n < length xs"
proof -
  have split: "xs = take n xs @ drop n xs" by simp
  have y: "y \<in> set (drop n xs)"
    using assms(3,4) set_append [of "take n xs" "drop n xs"] by simp
  then show "n < length xs" by (cases "n < length xs") simp_all
  have "sorted (map f (take n xs) @ map f (drop n xs))"
    using assms(1) by (subst (asm) split) (simp only: map_append)
  then show "f x \<le> f y" using assms(2) y by (auto simp: sorted_append)
qed

lemma elected_before_rest:
  assumes "x \<in> set (elected records)" "y \<in> set (active_candidates records)" "y \<notin> set (elected records)"
  shows "snd y \<le> snd x \<and> length (elected records) = 100"
proof -
  let ?xs = "sort_key ranking (active_candidates records)"
  have sorted: "sorted (map ranking ?xs)" by simp
  have y: "y \<in> set ?xs" using assms(2) by simp
  note order = sorted_take_before_rest [OF sorted assms(1) [unfolded elected_def] y assms(3) [unfolded elected_def]]
  have "fst (ranking x) \<le> fst (ranking y)"
    using order(1) by (auto simp: less_eq_prod_def)
  then have "snd y \<le> snd x" by (cases x, cases y) (simp add: rank_order)
  then show ?thesis using order(2) by (simp add: elected_def MAX_ACTIVE_VALIDATORS_def)
qed

text \<open>
  C22. Committee selection: at most 100 validators; each is active, has at least the minimum active stake
  and votes with its stake (capped at 64 bits); and no candidate that was left out has more
  power than one that was chosen, candidates being left out only when the committee is full.
\<close>

theorem committee_is_top_by_stake:
  assumes "distinct (map fst records)"
  shows "vs_len (committee records) \<le> 100
       \<and> (\<forall>a p. vs_power (committee records) a = Some p \<longrightarrow>
            (\<exists>r. (a, r) \<in> set records \<and> vr_status r = Active \<and> MIN_ACTIVE_STAKE \<le> total_stake r
               \<and> unat p = min (unat (total_stake r)) (2 ^ 64 - 1)))
       \<and> (\<forall>a r. (a, r) \<in> set records \<and> vr_status r = Active \<and> MIN_ACTIVE_STAKE \<le> total_stake r
              \<and> \<not> is_validator (committee records) a \<longrightarrow>
            vs_len (committee records) = 100
            \<and> (\<forall>b q. vs_power (committee records) b = Some q \<longrightarrow> min (unat (total_stake r)) (2 ^ 64 - 1) \<le> unat q))"
proof -
  note power = committee_power [OF assms]
  have dom: "dom (vs_power (committee records)) = fst ` set (elected records)"
    using power dom_map_of_conv_image_fst by (metis domIff subsetI subset_antisym)
  have len: "vs_len (committee records) = length (elected records)"
    using distinct_elected [OF assms] dom distinct_card
    by (metis length_map om_len_card set_map vs_len_def vs_power_def ext)
  have mem: "vs_power (committee records) a = Some p \<longleftrightarrow> (a, p) \<in> set (elected records)" for a p
    using distinct_elected [OF assms] by (simp add: power)
  have cap: "unat (ucast (min x 18446744073709551615) :: u64) = min (unat x) (2 ^ 64 - 1)" for x :: balance
  proof -
    have "unat (min x 18446744073709551615) = min (unat x) (2 ^ 64 - 1)"
      by (simp add: min_def word_le_nat_alt)
    moreover have "min (unat x) (2 ^ 64 - 1) < 2 ^ 64" by simp
    ultimately show ?thesis by (simp add: unsigned_ucast_eq take_bit_nat_eq_self)
  qed
  have cands: "(a, p) \<in> set (active_candidates records) \<longleftrightarrow>
      (\<exists>r. (a, r) \<in> set records \<and> vr_status r = Active \<and> MIN_ACTIVE_STAKE \<le> total_stake r
         \<and> p = ucast (min (total_stake r) 18446744073709551615))" for a p
    by (force simp: active_candidates_def)
  have sub: "set (elected records) \<subseteq> set (active_candidates records)"
    using set_take_subset by (fastforce simp: elected_def)
  show ?thesis
  proof (intro conjI allI impI)
    show "vs_len (committee records) \<le> 100"
      by (simp add: len elected_def MAX_ACTIVE_VALIDATORS_def)
  next
    fix a p assume "vs_power (committee records) a = Some p"
    then show "\<exists>r. (a, r) \<in> set records \<and> vr_status r = Active \<and> MIN_ACTIVE_STAKE \<le> total_stake r
        \<and> unat p = min (unat (total_stake r)) (2 ^ 64 - 1)"
    proof -
      have "(a, p) \<in> set (active_candidates records)"
        using \<open>vs_power (committee records) a = Some p\<close> sub by (auto simp: mem)
      then obtain r where "(a, r) \<in> set records" "vr_status r = Active" "MIN_ACTIVE_STAKE \<le> total_stake r"
        "p = ucast (min (total_stake r) 18446744073709551615)"
        using cands by blast
      with cap show ?thesis by blast
    qed
  next
    fix a r assume r: "(a, r) \<in> set records \<and> vr_status r = Active \<and> MIN_ACTIVE_STAKE \<le> total_stake r
        \<and> \<not> is_validator (committee records) a"
    define y where "y = (a, ucast (min (total_stake r) 18446744073709551615) :: u64)"
    have y: "y \<in> set (active_candidates records)" "y \<notin> set (elected records)"
      using r cands mem [of a "snd y"] by (auto simp: y_def is_validator_def om_contains_def vs_power_def)
    then have "sort_key ranking (active_candidates records) \<noteq> []"
      by (metis empty_iff empty_set set_sort)
    then have "elected records \<noteq> []"
      by (simp add: elected_def MAX_ACTIVE_VALIDATORS_def)
    then show "vs_len (committee records) = 100"
      using elected_before_rest [OF _ y, of "hd (elected records)"] by (simp add: len)
    fix b q assume "vs_power (committee records) b = Some q"
    then have "snd y \<le> q" using elected_before_rest [OF _ y, of "(b, q)"] by (simp add: mem)
    then show "min (unat (total_stake r)) (2 ^ 64 - 1) \<le> unat q"
      using cap by (simp add: y_def word_le_nat_alt)
  qed
qed

text \<open>The committee's power is bounded by the ledger's value.\<close>

lemma committee_power_le_stake:
  assumes "distinct (map fst records)" "\<forall>a r. (a, r) \<in> set records \<longleftrightarrow> lg_val L a = Some r"
  shows "power_nat (committee records) a \<le> self_stake L a + delegated_stake L a"
proof (cases "vs_power (committee records) a")
  case None
  then show ?thesis by (simp add: power_nat_def)
next
  case (Some p)
  then obtain r where r: "(a, r) \<in> set records" "unat p \<le> unat (total_stake r)"
    using committee_power [OF assms(1), of a] map_of_SomeD [of "elected records" a p] set_take_subset
    unfolding elected_def active_candidates_def
    by (fastforce simp: min_def word_le_nat_alt unsigned_ucast_eq take_bit_nat_less_eq_self intro: order_trans [OF take_bit_nat_less_eq_self] split: if_splits)
  then have "unat (total_stake r) \<le> self_stake L a + delegated_stake L a"
    using assms(2) by (simp add: self_stake_def delegated_stake_def total_stake_def unat_saturating_add)
  with r Some show ?thesis by (simp add: power_nat_def)
qed

lemma committee_total_le_wealth:
  assumes "distinct (map fst records)" "\<forall>a r. (a, r) \<in> set records \<longleftrightarrow> lg_val L a = Some r"
  shows "total_nat (committee records) \<le> wealth L"
proof -
  have "total_nat (committee records) \<le> (\<Sum>a\<in>UNIV. self_stake L a + delegated_stake L a)"
    unfolding total_nat_def by (rule sum_mono) (rule committee_power_le_stake [OF assms])
  then show ?thesis by (simp add: wealth_def sum.distrib)
qed

lemma sorted_keys_distinct: "sorted_wrt (<) (map (\<lambda>p. validator_key (fst p)) rs) \<Longrightarrow> distinct (map fst rs)"
  by (induction rs) (auto simp: image_iff)

text \<open>
  C23. No wrap-around in the quorum computation: for the validator records of a ledger whose value is within
  the protocol's supply ceiling, the committee's total power stays below \<open>2 ^ 63\<close>, which is what the
  quorum theorems assume.
\<close>

theorem committee_power_within_supply:
  assumes "json_ok E" "im_ok E s" "wealth (im_ledger E s) \<le> unat MAX_SUPPLY"
    and "validator_records E (im_backend E) s = Inr records"
  shows "total_nat (committee records) \<le> wealth (im_ledger E s) \<and> total_nat (committee records) < 2 ^ 63"
proof -
  have "im_inv s" "decodable E (om_get (im_raw s))"
    using assms(1,2) by (simp_all add: im_ok_def)
  from im.validator_records_law [OF this, of E] assms(4)
  have "sorted_wrt (<) (map (\<lambda>p. validator_key (fst p)) records)"
    "\<forall>a r. (a, r) \<in> set records \<longleftrightarrow> lg_val (im_ledger E s) a = Some r"
    by (auto simp: im_ledger_def)
  then have "total_nat (committee records) \<le> wealth (im_ledger E s)"
    by (intro committee_total_le_wealth sorted_keys_distinct)
  moreover have "unat MAX_SUPPLY < 2 ^ 63"
    by (simp add: MAX_SUPPLY_def GENESIS_SUPPLY_def MAX_PROTOCOL_ISSUANCE_def ONE_PMX_def)
  ultimately show ?thesis using assms(3) by linarith
qed

section \<open>Where finality is weaker than it should be\<close>

text \<open>
  C39. Votes are not cleared when a proposal is replaced. Suppose a quorum has voted for \<open>b1\<close> at the next
  height and the local validator has voted. If the proposer sends a second block \<open>b2\<close> for that
  height, \<open>handle_block\<close> returns an error but installs \<open>b2\<close>, and \<open>finalize\<close> then finalizes \<open>b2\<close>
  on the strength of the votes for \<open>b1\<close>; an engine that does not receive \<open>b2\<close> finalizes \<open>b1\<close>.
  One faulty proposer makes correct validators finalize different blocks.
\<close>

theorem equivocating_proposer_splits_finality:
  assumes "bft_height s + 1 = h" "om_get (bft_rounds s) h = Some r"
    and "rd_proposal r = Some (Proposal_from_block E b1)" "rd_block r = Some b1" "\<not> rd_finalized r"
    and "has_quorum s h" "has_voted s h" "\<forall>a v. om_get (rd_votes r) a = Some v \<longrightarrow> vote_block_hash v = block_hash E b1"
    and "validate_proposal s (Proposal_from_block E b1) = Inr ()" "bh_height (blk_header b1) = h"
    and "bh_height (blk_header b2) = h" "bh_proposer (blk_header b2) = bh_proposer (blk_header b1)"
    and "block_hash E b2 \<noteq> block_hash E b1"
  shows "\<exists>sA s2 sB. finalize E now (block_hash E b1) s = (Inr \<lparr>fin_block = b1, fin_timestamp = now\<rparr>, sA)
       \<and> handle_block E b2 s = (Inl InvalidVote, s2)
       \<and> finalize E now (block_hash E b2) s2 = (Inr \<lparr>fin_block = b2, fin_timestamp = now\<rparr>, sB)
       \<and> om_get (bft_finalized sA) h = Some b1 \<and> om_get (bft_finalized sB) h = Some b2"
proof -
  have valid: "validate_proposal s (Proposal_from_block E b2) = Inr ()"
    using assms(9-12) by (auto simp: validate_proposal_def Proposal_from_block_def bind_result_eq_Inr split: if_splits)
  define s2 where "s2 = set_round h (r\<lparr>rd_proposal := Some (Proposal_from_block E b2), rd_block := Some b2\<rparr>) s"
  have s2: "handle_block E b2 s = (Inl InvalidVote, s2)"
    using valid assms(2,7,11) by (simp add: handle_block_def Let_def s2_def round_entry_def) (simp add: Proposal_from_block_def)
  have quorum: "has_quorum s2 h"
    using assms(2,6) by (simp add: has_quorum_def s2_def)
  have A: "\<exists>sA. finalize E now (block_hash E b1) s = (Inr \<lparr>fin_block = b1, fin_timestamp = now\<rparr>, sA)
      \<and> om_get (bft_finalized sA) h = Some b1"
    using assms(1-6) by (simp add: finalize_def try_finalize_def Let_def Proposal_from_block_def)
  have B: "\<exists>sB. finalize E now (block_hash E b2) s2 = (Inr \<lparr>fin_block = b2, fin_timestamp = now\<rparr>, sB)
      \<and> om_get (bft_finalized sB) h = Some b2"
    using assms(1,5) quorum by (simp add: finalize_def try_finalize_def Let_def Proposal_from_block_def s2_def)
  from A B s2 show ?thesis by blast
qed

text \<open>
  An engine that reaches a quorum on a bare proposal before the block arrives stalls. \<open>finalize\<close> fails
  but marks the round finalized; when the block has been received, every later \<open>finalize\<close> reports
  success and returns the block, yet height, tip and finalized blocks stay as they were.
\<close>

theorem finalize_before_block_stalls:
  assumes "bft_height s + 1 = h" "om_get (bft_rounds s) h = Some r"
    and "rd_proposal r = Some (Proposal_from_block E b)" "rd_block r = None" "\<not> rd_finalized r"
    and "has_quorum s h" "has_voted s h" "bh_height (blk_header b) = h"
    and "validate_proposal s (Proposal_from_block E b) = Inr ()"
  shows "\<exists>s1 s2. finalize E now (block_hash E b) s = (Inl InvalidProposal, s1)
       \<and> handle_block E b s1 = (Inl InvalidVote, s2)
       \<and> finalize E now' (block_hash E b) s2 = (Inr \<lparr>fin_block = b, fin_timestamp = now'\<rparr>, s2)
       \<and> same_chain s s2"
proof -
  define s1 where "s1 = set_round h (r\<lparr>rd_finalized := True\<rparr>) s"
  define s2 where "s2 = set_round h (r\<lparr>rd_finalized := True, rd_proposal := Some (Proposal_from_block E b), rd_block := Some b\<rparr>) s1"
  have "finalize E now (block_hash E b) s = (Inl InvalidProposal, s1)"
    using assms(1-6) by (simp add: finalize_def try_finalize_def Let_def Proposal_from_block_def s1_def)
  moreover have "validate_proposal s1 (Proposal_from_block E b) = Inr ()" "has_voted s1 h"
    using assms(7,9) by (simp_all add: s1_def validate_proposal_def has_voted_def)
  then have "handle_block E b s1 = (Inl InvalidVote, s2)"
    using assms(8) by (simp add: handle_block_def Let_def s2_def round_entry_def) (simp add: Proposal_from_block_def s1_def)
  moreover have "has_quorum s2 h"
    using assms(2,6) by (simp add: has_quorum_def s2_def s1_def)
  then have "finalize E now' (block_hash E b) s2 = (Inr \<lparr>fin_block = b, fin_timestamp = now'\<rparr>, s2)"
    using assms(1) by (simp add: finalize_def try_finalize_def Let_def Proposal_from_block_def s2_def s1_def)
  moreover have "same_chain s s2" by (simp add: s2_def s1_def)
  ultimately show ?thesis by blast
qed

section \<open>Well-formed engines\<close>

definition round_at :: "u64 \<Rightarrow> RoundState \<Rightarrow> bool" where
  "round_at h r \<longleftrightarrow>
     (\<forall>p. rd_proposal r = Some p \<longrightarrow> pp_height p = h) \<and> (\<forall>b. rd_block r = Some b \<longrightarrow> bh_height (blk_header b) = h) \<and>
     (\<forall>a v. om_get (rd_votes r) a = Some v \<longrightarrow> vote_voter v = a \<and> vote_height v = h)"

definition rounds_at :: "'b BftConsensus \<Rightarrow> bool" where
  "rounds_at s \<longleftrightarrow> (\<forall>h r. om_get (bft_rounds s) h = Some r \<longrightarrow> round_at h r)"

lemma round_at_entry: "rounds_at s \<Longrightarrow> round_at h (round_entry s h)"
  by (auto simp: rounds_at_def round_entry_def round_at_def default_round_def split: option.splits)

lemma rounds_at_set: "rounds_at s \<Longrightarrow> round_at h r \<Longrightarrow> rounds_at (set_round h r s)"
  by (auto simp: rounds_at_def)

lemma rounds_at_frame [simp]:
  "rounds_at (mark_voted h s) = rounds_at s" "rounds_at (update_validator_set E B s) = rounds_at s" "rounds_at (s\<lparr>bft_state := t\<rparr>) = rounds_at s"
  by (simp_all add: rounds_at_def)

lemma finalize_rounds_at:
  assumes "rounds_at s" "finalize E now bh s = (r, s')"
  shows "rounds_at s'"
proof -
  have "rounds_at t" if "try_finalize E h s = (b, t)" for h b t
    using that assms(1) by (auto simp: try_finalize_def Let_def rounds_at_def round_at_def split: option.splits if_splits)
  with assms show ?thesis by (auto simp: finalize_def Let_def split: option.splits if_splits prod.splits)
qed

lemma round_entry_frame [simp]:
  "round_entry (update_validator_set E B s) h = round_entry s h" "round_entry (s\<lparr>bft_state := t\<rparr>) h = round_entry s h"
  by (simp_all add: round_entry_def)

lemma round_at_proposed:
  assumes "round_at h r" "pp_height p = h" "bh_height (blk_header b) = h" "vote_height v = h" "vote_voter v = a"
  shows "round_at h (r\<lparr>rd_proposal := Some p, rd_block := Some b, rd_votes := om_insert a v (rd_votes r)\<rparr>)"
  using assms by (auto simp: round_at_def)

lemma propose_rounds_at:
  assumes "rounds_at s" "propose E B now h txs s = (r, s')"
  shows "rounds_at s'"
  using assms round_at_entry [OF assms(1), of h]
  by (auto simp: propose_def build_block_def act_run act_on_apply Let_def split: prod.splits sum.splits if_splits
      intro!: rounds_at_set round_at_proposed)

lemma step_rounds_at:
  assumes "bft_step E B s s'" "rounds_at s"
  shows "rounds_at s'"
  using assms(1)
proof (cases rule: bft_step.cases)
  case (step_propose now h txs r)
  then show ?thesis using propose_rounds_at [OF assms(2)] by blast
next
  case (step_block b r)
  then show ?thesis
    using assms(2) round_at_entry [OF assms(2), of "bh_height (blk_header b)"]
    by (auto simp: handle_block_def Proposal_from_block_def round_at_def Let_def split: sum.splits if_splits intro!: rounds_at_set)
next
  case (step_proposal p r)
  then show ?thesis
    using assms(2) round_at_entry [OF assms(2), of "pp_height p"]
    by (auto simp: handle_proposal_def round_at_def Let_def split: sum.splits if_splits intro!: rounds_at_set)
next
  case (step_vote v r)
  then show ?thesis
    using assms(2) round_at_entry [OF assms(2), of "vote_height v"]
    by (auto simp: handle_vote_def round_at_def Let_def split: sum.splits intro!: rounds_at_set)
next
  case (step_finalize now bh r)
  then show ?thesis using finalize_rounds_at [OF assms(2)] by blast
qed

lemma step_finalized_at:
  assumes "bft_step E B s s'" "rounds_at s" "\<forall>h b. om_get (bft_finalized s) h = Some b \<longrightarrow> bh_height (blk_header b) = h"
  shows "\<forall>h b. om_get (bft_finalized s') h = Some b \<longrightarrow> bh_height (blk_header b) = h"
proof -
  have "bft_finalized s' = bft_finalized s \<or> (\<exists>h b. bft_finalized s' = om_insert h b (bft_finalized s) \<and> bh_height (blk_header b) = h)"
    using assms(1)
  proof (cases rule: bft_step.cases)
    case (step_finalize now bh r)
    from finalize_frame [OF step_finalize(2)] show ?thesis
      using assms(2) unfolding same_chain_def extends_chain_def rounds_at_def round_at_def by blast
  qed (auto simp: same_chain_def dest!: propose_same_chain handle_block_frame handle_proposal_frame handle_vote_frame)
  then show ?thesis using assms(3) by (auto split: if_splits)
qed

text \<open>
  C11. The engine's tables are well-formed in every reachable state, whatever messages it was given: what is filed under a height is of that
  height, whether proposal, block, vote or finalized block, and a vote is filed under the address of its voter, so that nobody is counted twice.
\<close>

theorem engine_well_formed:
  assumes "bft_reachable E B s"
  shows "(\<forall>h r. om_get (bft_rounds s) h = Some r \<longrightarrow>
            (\<forall>p. rd_proposal r = Some p \<longrightarrow> pp_height p = h) \<and> (\<forall>b. rd_block r = Some b \<longrightarrow> bh_height (blk_header b) = h)
          \<and> (\<forall>a v. om_get (rd_votes r) a = Some v \<longrightarrow> vote_voter v = a \<and> vote_height v = h))
       \<and> (\<forall>h b. om_get (bft_finalized s) h = Some b \<longrightarrow> bh_height (blk_header b) = h)"
proof -
  have "rounds_at s \<and> (\<forall>h b. om_get (bft_finalized s) h = Some b \<longrightarrow> bh_height (blk_header b) = h)"
    using assms
  proof (induction rule: bft_reachable.induct)
    case (init local vs st prev s)
    then show ?case by (auto simp: Bft_new_with_store_def rounds_at_def split: if_splits)
  next
    case (step s s')
    then show ?case using step_rounds_at step_finalized_at by blast
  qed
  then show ?thesis by (simp add: rounds_at_def round_at_def)
qed

end
