(* ===== verification/Network.thy ===== *)
theory Network
  imports Primitives "HOL-Library.Sublist"
begin

text \<open>
  Model of src/crates/pemrix-network: messages and events, the length-prefixed frames of tcp.rs, the
  table of connection slots with its tie-break between crossing dials, and the transports. Sockets
  are byte streams: a writer appends to one, a reader consumes one until it ends, and the end of the
  stream is the error \<open>read_exact\<close> returns. Tasks are sequential; the operations on the slot table are the
  critical sections under its lock, and the theorems quantify over their order. An
  \<open>Arc<()>\<close> token is a number that is fresh when the slot is made.

  The locale \<open>transport\<close> states what the trait \<open>Transport\<close> promises for connected peers; the TCP, mock
  and QUIC transports interpret it.
\<close>

section \<open>Messages, peers and events\<close>

type_synonym PeerId = bytes32

definition PeerId_from_public_key_hash :: "hash \<Rightarrow> PeerId" where
  "PeerId_from_public_key_hash h = array32 (bytes_of h)"

text \<open>The text of a peer id in JSON; \<open>None\<close> is an error of the deserializer.\<close>

definition PeerId_serialize :: "externs \<Rightarrow> PeerId \<Rightarrow> string" where
  "PeerId_serialize E p = hex_encode E (bytes_of p)"

definition PeerId_deserialize :: "externs \<Rightarrow> string \<Rightarrow> PeerId option" where
  "PeerId_deserialize E s =
     Option.bind (hex_decode E s) (\<lambda>bs. if length bs \<noteq> 32 then None else Some (array32 bs))"

datatype Message =
    MsgTransaction Transaction
  | MsgBlock Block
  | MsgBlockRequest hash
  | MsgBlockResponse "Block option"
  | MsgVote bytes
  | MsgProposal bytes
  | Ping
  | Pong

datatype NetworkEvent =
    PeerConnected PeerId
  | PeerDisconnected PeerId
  | MessageReceived PeerId Message

text \<open>\<open>serde_json\<close> at the type \<open>Message\<close>.\<close>

record message_codec =
  json_message :: "Message \<Rightarrow> bytes"
  unjson_message :: "bytes \<Rightarrow> Message option"

definition codec_reads :: "message_codec \<Rightarrow> Message \<Rightarrow> bool" where
  "codec_reads M m \<longleftrightarrow> unjson_message M (json_message M m) = Some m"

section \<open>Frames\<close>

unbundle bit_operations_syntax

definition u32_to_be_bytes :: "u32 \<Rightarrow> bytes" where
  "u32_to_be_bytes w = [ucast (drop_bit 24 w), ucast (drop_bit 16 w), ucast (drop_bit 8 w), ucast w]"

definition u32_from_be_bytes :: "bytes \<Rightarrow> u32" where
  "u32_from_be_bytes bs =
     push_bit 24 (ucast (bs ! 0)) OR push_bit 16 (ucast (bs ! 1)) OR push_bit 8 (ucast (bs ! 2)) OR ucast (bs ! 3)"

definition MAX_FRAME :: nat where "MAX_FRAME = 8 * 1024 * 1024"

text \<open>
  The writing half of a socket: the bytes it has sent, and how many more it accepts before it fails;
  \<open>write_all\<close> may send a part of its argument before it fails.
\<close>

record Writer =
  w_bytes :: bytes
  w_room :: nat

definition write_all :: "bytes \<Rightarrow> (Writer, unit, unit) action" where
  "write_all bs = (\<lambda>w.
     if length bs \<le> w_room w
     then (Inr (), w\<lparr>w_bytes := w_bytes w @ bs, w_room := w_room w - length bs\<rparr>)
     else (Inl (), w\<lparr>w_bytes := w_bytes w @ take (w_room w) bs, w_room := 0\<rparr>))"

definition write_message :: "message_codec \<Rightarrow> Message \<Rightarrow> (Writer, string, unit) action" where
  "write_message M m =
     (let bytes = encode (json_message M) m; len = (of_nat (length bytes) :: u32) in
      act_bind (act_map_err (\<lambda>_. ''write length failed'') (write_all (u32_to_be_bytes len))) (\<lambda>_.
      act_map_err (\<lambda>_. ''write payload failed'') (write_all bytes)))"

definition read_exact :: "nat \<Rightarrow> bytes \<Rightarrow> (bytes \<times> bytes) option" where
  "read_exact n bs = (if length bs < n then None else Some (take n bs, drop n bs))"

function read_messages :: "message_codec \<Rightarrow> bytes \<Rightarrow> Message list \<times> string" where
  "read_messages M stream =
     (case read_exact 4 stream of
        None \<Rightarrow> ([], ''read length failed'')
      | Some (len_bytes, stream1) \<Rightarrow>
          let len = unat (u32_from_be_bytes len_bytes) in
          if len > MAX_FRAME then ([], ''message too large'')
          else (case read_exact len stream1 of
                  None \<Rightarrow> ([], ''read payload failed'')
                | Some (buf, stream2) \<Rightarrow>
                    (case decode (unjson_message M) buf of
                       Inl _ \<Rightarrow> ([], ''decode failed'')
                     | Inr m \<Rightarrow> (case read_messages M stream2 of (ms, e) \<Rightarrow> (m # ms, e)))))"
  by pat_completeness auto
termination
  by (relation "measure (\<lambda>(_, s). length s)") (auto simp: read_exact_def split: if_splits)

declare read_messages.simps [simp del]

text \<open>
  The outbound task writes what the channel holds until the channel is empty or the socket fails; when it
  fails, the task ends and drops its receiver, which closes the channel.
\<close>

fun outbound_loop :: "message_codec \<Rightarrow> Message list \<Rightarrow> Writer \<Rightarrow> bool \<times> Writer" where
  "outbound_loop M [] w = (True, w)"
| "outbound_loop M (m # ms) w =
     (case write_message M m w of (Inl _, w') \<Rightarrow> (False, w') | (Inr _, w') \<Rightarrow> outbound_loop M ms w')"

subsection \<open>Reading what was written\<close>

text \<open>The bytes of one message on the wire.\<close>

definition frame :: "message_codec \<Rightarrow> Message \<Rightarrow> bytes" where
  "frame M m = u32_to_be_bytes (of_nat (length (json_message M m))) @ json_message M m"

lemma PeerId_roundtrip: "hex_ok E \<Longrightarrow> PeerId_deserialize E (PeerId_serialize E p) = Some p"
  by (simp add: PeerId_deserialize_def PeerId_serialize_def hex_okD)

lemma u32_be_bytes [simp]: "u32_from_be_bytes (u32_to_be_bytes w) = w"
proof (rule bit_word_eqI)
  fix n assume "n < LENGTH(32)"
  then have n: "n < 32" by simp
  consider "n < 8" | "8 \<le> n" "n < 16" | "16 \<le> n" "n < 24" | "24 \<le> n" by linarith
  then show "bit (u32_from_be_bytes (u32_to_be_bytes w)) n = bit w n"
    using n by cases (auto simp: u32_from_be_bytes_def u32_to_be_bytes_def bit_or_iff bit_push_bit_iff bit_unsigned_iff
        bit_drop_bit_eq)
qed

definition frame_fits :: "message_codec \<Rightarrow> Message \<Rightarrow> bool" where
  "frame_fits M m \<longleftrightarrow> length (json_message M m) \<le> MAX_FRAME"

lemma length_u32_to_be_bytes [simp]: "length (u32_to_be_bytes w) = 4"
  by (simp add: u32_to_be_bytes_def)

lemma frame_bytes:
  assumes "length (json_message M m) < 2 ^ 32"
  shows "frame M m = u32_to_be_bytes (of_nat (length (json_message M m))) @ json_message M m"
    "unat (of_nat (length (json_message M m)) :: u32) = length (json_message M m)"
  using assms by (simp_all add: frame_def unsigned_of_nat take_bit_nat_eq_self)

lemma write_message_frame:
  "write_message M m w =
     (if length (frame M m) \<le> w_room w
      then (Inr (), w\<lparr>w_bytes := w_bytes w @ frame M m, w_room := w_room w - length (frame M m)\<rparr>)
      else (Inl (if w_room w < 4 then ''write length failed'' else ''write payload failed''),
            w\<lparr>w_bytes := w_bytes w @ take (w_room w) (frame M m), w_room := 0\<rparr>))"
  by (auto simp: write_message_def write_all_def frame_def act_run Let_def)

lemma outbound_loop_bytes:
  "w_bytes (snd (outbound_loop M ms w)) = w_bytes w @ take (w_room w) (concat (map (frame M) ms))"
  by (induction M ms w rule: outbound_loop.induct) (auto simp: write_message_frame split: prod.splits)

lemma frame_fits_u32: "frame_fits M m \<Longrightarrow> length (json_message M m) < 2 ^ 32"
  by (simp add: frame_fits_def MAX_FRAME_def)

lemma read_frame:
  assumes "codec_reads M m" "frame_fits M m"
  shows "read_messages M (frame M m @ rest) = (m # fst (read_messages M rest), snd (read_messages M rest))"
proof -
  note w = frame_bytes [OF frame_fits_u32 [OF assms(2)]]
  have "\<not> MAX_FRAME < length (json_message M m)" using assms(2) by (simp add: frame_fits_def)
  moreover have "decode (unjson_message M) (json_message M m) = Inr m"
    using assms(1) by (simp add: decode_apply codec_reads_def)
  ultimately show ?thesis
    using w by (subst read_messages.simps) (simp add: read_exact_def split: prod.split)
qed

lemma read_cut_frame:
  assumes "frame_fits M m" "n < length (frame M m)"
  shows "fst (read_messages M (take n (frame M m))) = []"
proof -
  note w = frame_bytes [OF frame_fits_u32 [OF assms(1)]]
  show ?thesis
  proof (cases "n < 4")
    case True
    then show ?thesis by (subst read_messages.simps) (simp add: read_exact_def)
  next
    case False
    then have "take n (frame M m) =
        u32_to_be_bytes (of_nat (length (json_message M m))) @ take (n - 4) (json_message M m)"
      by (simp add: w(1))
    moreover have "n - 4 < length (json_message M m)" using assms(2) False by (simp add: w(1))
    ultimately show ?thesis
      by (subst read_messages.simps) (simp add: read_exact_def w(2) Let_def)
  qed
qed

lemma read_frames:
  assumes "\<forall>m\<in>set ms. codec_reads M m \<and> frame_fits M m"
  shows "read_messages M (concat (map (frame M) ms)) = (ms, ''read length failed'')"
  using assms
proof (induction ms)
  case Nil
  then show ?case by (simp add: read_messages.simps read_exact_def)
next
  case (Cons m ms)
  then show ?case by (simp add: read_frame)
qed

lemma read_cut_frames:
  assumes "\<forall>m\<in>set ms. codec_reads M m \<and> frame_fits M m"
  shows "prefix (fst (read_messages M (take n (concat (map (frame M) ms))))) ms"
  using assms
proof (induction ms arbitrary: n)
  case Nil
  then show ?case by (simp add: read_messages.simps read_exact_def)
next
  case (Cons m ms)
  then have m: "codec_reads M m" "frame_fits M m" by auto
  show ?case
  proof (cases "n < length (frame M m)")
    case True
    then show ?thesis using read_cut_frame [OF m(2) True] by simp
  next
    case False
    then show ?thesis using Cons by (simp add: read_frame [OF m])
  qed
qed

text \<open>
  C18. Framing: a reader that receives the frames of a sequence of messages whose encodings are within the limit of 8 MiB per frame, and
  read back as the messages, emits exactly these messages in order, however many, and then reports the end of the stream; and from a stream that is cut off at any
  byte it emits a prefix of them and nothing else.
\<close>

theorem frames_roundtrip:
  assumes "\<forall>m\<in>set ms. codec_reads M m \<and> frame_fits M m"
    and "w_bytes w = []"
  shows "read_messages M (w_bytes (snd (outbound_loop M ms (w\<lparr>w_room := length (concat (map (frame M) ms))\<rparr>)))) =
           (ms, ''read length failed'')
       \<and> prefix (fst (read_messages M (w_bytes (snd (outbound_loop M ms w))))) ms"
  using assms(2) read_frames [OF assms(1)] read_cut_frames [OF assms(1)] by (simp add: outbound_loop_bytes)

text \<open>
  The writer does not check the limit the reader enforces: a message whose encoding is between 8 MiB and
  4 GiB is written as a frame on which the reader gives up, and every message after it is lost.
\<close>

theorem oversized_frame_ends_stream:
  assumes "MAX_FRAME < length (json_message M m)" "length (json_message M m) < 2 ^ 32"
    and "write_message M m \<lparr>w_bytes = [], w_room = n\<rparr> = (Inr (), w)"
  shows "read_messages M (w_bytes w @ rest) = ([], ''message too large'')"
proof -
  note w = frame_bytes [OF assms(2)]
  have "w_bytes w = frame M m" using assms(3) by (auto simp: write_message_frame split: if_splits)
  then show ?thesis using assms(1) w by (subst read_messages.simps) (simp add: read_exact_def)
qed

section \<open>Connections\<close>

text \<open>
  Every connection makes one channel and one token, numbered together by the counter \<open>tcp_next\<close>.
  A channel holds what was sent and not yet taken by the outbound task; it is open until the
  receiver is dropped, which is when \<open>send\<close> starts to fail.
\<close>

record Channel =
  ch_queue :: "Message list"
  ch_open :: bool

record PeerConnection =
  pc_tx :: nat
  pc_token :: nat

definition PeerConnection_new :: "nat \<Rightarrow> PeerConnection" where
  "PeerConnection_new n = \<lparr>pc_tx = n, pc_token = n\<rparr>"

record TcpTransport =
  tcp_local_id :: PeerId
  tcp_peers :: "(PeerId, PeerConnection) omap"
  tcp_events :: "NetworkEvent list"
  tcp_channels :: "nat \<Rightarrow> Channel"
  tcp_next :: nat

definition TcpTransport_new :: "PeerId \<Rightarrow> TcpTransport" where
  "TcpTransport_new local_id =
     \<lparr>tcp_local_id = local_id, tcp_peers = om_empty, tcp_events = [],
      tcp_channels = (\<lambda>_. \<lparr>ch_queue = [], ch_open = False\<rparr>), tcp_next = 0\<rparr>"

definition chan_send :: "nat \<Rightarrow> Message \<Rightarrow> (TcpTransport, unit, unit) action" where
  "chan_send n m = (\<lambda>s.
     if ch_open (tcp_channels s n)
     then (Inr (), s\<lparr>tcp_channels := (tcp_channels s)(n := (tcp_channels s n)\<lparr>ch_queue := ch_queue (tcp_channels s n) @ [m]\<rparr>)\<rparr>)
     else (Inl (), s))"

definition send_event :: "NetworkEvent \<Rightarrow> TcpTransport \<Rightarrow> TcpTransport" where
  "send_event e s = s\<lparr>tcp_events := tcp_events s @ [e]\<rparr>"

definition peer_count :: "TcpTransport \<Rightarrow> nat" where
  "peer_count s = om_len (tcp_peers s)"

definition pending_dials ::
    "PeerId \<Rightarrow> (PeerId, PeerConnection) omap \<Rightarrow> PeerId oset \<Rightarrow> (PeerId, 'addr) omap \<Rightarrow> (PeerId \<times> 'addr) list" where
  "pending_dials retry_id connected dialing bootstrap =
     filter (\<lambda>(peer_id, _). peer_id \<noteq> retry_id \<and> \<not> om_contains connected peer_id \<and> \<not> os_member dialing peer_id)
       (om_entries bootstrap)"

definition wins_tie :: "PeerId \<Rightarrow> PeerId \<Rightarrow> bool \<Rightarrow> bool" where
  "wins_tie local_id remote_id is_outbound =
     (if is_outbound then local_id > remote_id else remote_id > local_id)"

definition handshake :: "PeerId \<Rightarrow> PeerId option \<Rightarrow> bytes \<Rightarrow> (Writer, string, PeerId \<times> bytes) action" where
  "handshake local_id known_peer stream =
     act_bind (act_map_err (\<lambda>_. ''handshake write failed'') (write_all (bytes_of local_id))) (\<lambda>_.
     act_lift (case read_exact 32 stream of
        None \<Rightarrow> Inl ''handshake read failed''
      | Some (remote_bytes, rest) \<Rightarrow>
          let remote_id = array32 remote_bytes in
          (case known_peer of
             Some expected \<Rightarrow> if expected \<noteq> remote_id then Inl ''peer id mismatch'' else Inr (remote_id, rest)
           | None \<Rightarrow> Inr (remote_id, rest))))"

definition register_slot :: "PeerId \<Rightarrow> bool \<Rightarrow> (TcpTransport, string, nat) action" where
  "register_slot remote_id is_outbound = (\<lambda>s.
     case om_get (tcp_peers s) remote_id of
       Some existing \<Rightarrow>
         if \<not> wins_tie (tcp_local_id s) remote_id is_outbound
         then (Inl ''duplicate connection closed'', s)
         else (let s = snd (chan_send (pc_tx existing) Ping s); n = tcp_next s in
               (Inr n, s\<lparr>tcp_peers := om_insert remote_id (PeerConnection_new n) (tcp_peers s),
                         tcp_channels := (tcp_channels s)(n := \<lparr>ch_queue = [], ch_open = True\<rparr>),
                         tcp_next := n + 1\<rparr>))
     | None \<Rightarrow>
         (let n = tcp_next s in
          (Inr n, s\<lparr>tcp_peers := om_insert remote_id (PeerConnection_new n) (tcp_peers s),
                    tcp_channels := (tcp_channels s)(n := \<lparr>ch_queue = [], ch_open = True\<rparr>),
                    tcp_next := n + 1\<rparr>)))"

definition release_slot :: "PeerId \<Rightarrow> nat \<Rightarrow> TcpTransport \<Rightarrow> TcpTransport" where
  "release_slot remote_id our_token s =
     (case om_get (tcp_peers s) remote_id of
        Some conn \<Rightarrow> if pc_token conn = our_token then s\<lparr>tcp_peers := om_remove remote_id (tcp_peers s)\<rparr> else s
      | None \<Rightarrow> s)"

definition abort_outbound :: "nat \<Rightarrow> TcpTransport \<Rightarrow> TcpTransport" where
  "abort_outbound n s = s\<lparr>tcp_channels := (tcp_channels s)(n := (tcp_channels s n)\<lparr>ch_open := False\<rparr>)\<rparr>"

text \<open>
  One connection, with its socket given by its writing half and the bytes the remote side sends. The first part
  runs up to the spawning of the outbound task, the last part after the read loop; between the two,
  other tasks run. \<open>run_connection\<close> is the composition when none does.
\<close>

definition connection_open :: "PeerId option \<Rightarrow> bytes \<Rightarrow> (Writer \<times> TcpTransport, string, PeerId \<times> nat \<times> bytes) action" where
  "connection_open known_peer stream =
     act_bind (act_gets (tcp_local_id \<circ> snd)) (\<lambda>local_id.
     act_bind (act_on fst (\<lambda>w s. (w, snd s)) (handshake local_id known_peer stream)) (\<lambda>(remote_id, rest).
     act_bind (act_on snd (\<lambda>t s. (fst s, t)) (register_slot remote_id (known_peer \<noteq> None))) (\<lambda>our_token.
     act_bind (act_modify (apsnd (send_event (PeerConnected remote_id)))) (\<lambda>_.
     act_return (remote_id, our_token, rest)))))"

definition connection_read :: "message_codec \<Rightarrow> PeerId \<Rightarrow> bytes \<Rightarrow> TcpTransport \<Rightarrow> string \<times> TcpTransport" where
  "connection_read M remote_id rest s =
     (case read_messages M rest of
        (ms, e) \<Rightarrow> (e, fold send_event (map (MessageReceived remote_id) ms) s))"

definition connection_close :: "PeerId \<Rightarrow> nat \<Rightarrow> TcpTransport \<Rightarrow> TcpTransport" where
  "connection_close remote_id our_token s = release_slot remote_id our_token (abort_outbound our_token s)"

definition run_connection ::
    "message_codec \<Rightarrow> PeerId option \<Rightarrow> bytes \<Rightarrow> (Writer \<times> TcpTransport, string, unit) action" where
  "run_connection M known_peer stream =
     act_bind (connection_open known_peer stream) (\<lambda>(remote_id, our_token, rest) (w, s).
       case connection_read M remote_id rest s of
         (e, s') \<Rightarrow> (Inl e, w, connection_close remote_id our_token s'))"

definition drain_outbound :: "message_codec \<Rightarrow> nat \<Rightarrow> Writer \<times> TcpTransport \<Rightarrow> Writer \<times> TcpTransport" where
  "drain_outbound M n = (\<lambda>(w, s).
     case outbound_loop M (ch_queue (tcp_channels s n)) w of
       (alive, w') \<Rightarrow>
         (w', s\<lparr>tcp_channels := (tcp_channels s)(n := \<lparr>ch_queue = [], ch_open = ch_open (tcp_channels s n) \<and> alive\<rparr>)\<rparr>))"

subsection \<open>The transport operations\<close>

fun tcp_send_each :: "Message \<Rightarrow> (PeerId \<times> PeerConnection) list \<Rightarrow> TcpTransport \<Rightarrow> TcpTransport" where
  "tcp_send_each m [] s = s"
| "tcp_send_each m ((_, conn) # conns) s = tcp_send_each m conns (snd (chan_send (pc_tx conn) m s))"

definition tcp_broadcast :: "Message \<Rightarrow> (TcpTransport, string, unit) action" where
  "tcp_broadcast m = (\<lambda>s.
     if om_is_empty (tcp_peers s) then (Inl ''no connected peers'', s)
     else (Inr (), tcp_send_each m (om_entries (tcp_peers s)) s))"

definition tcp_send_to :: "PeerId \<Rightarrow> Message \<Rightarrow> (TcpTransport, string, unit) action" where
  "tcp_send_to peer m =
     act_bind (act_query (\<lambda>s. ok_or ''peer not connected'' (om_get (tcp_peers s) peer))) (\<lambda>conn.
     act_map_err (\<lambda>_. ''peer channel closed'') (chan_send (pc_tx conn) m))"

text \<open>\<open>recv\<close> waits while the channel is empty; the model returns \<open>None\<close> there.\<close>

definition tcp_next_event :: "TcpTransport \<Rightarrow> NetworkEvent option \<times> TcpTransport" where
  "tcp_next_event s =
     (case tcp_events s of [] \<Rightarrow> (None, s) | e # es \<Rightarrow> (Some e, s\<lparr>tcp_events := es\<rparr>))"

section \<open>Mock and QUIC transports\<close>

text \<open>
  \<open>HashMap\<close> iterates in an order of its own: the table is a list in that order, and the place where a new key
  lands is an argument of \<open>add_peer\<close>.
\<close>

record MockTransport =
  mock_peers :: "(PeerId \<times> Message list) list"
  mock_events :: "NetworkEvent list"

definition MockTransport_new :: MockTransport where
  "MockTransport_new = \<lparr>mock_peers = [], mock_events = []\<rparr>"

definition mock_add_peer :: "nat \<Rightarrow> PeerId \<Rightarrow> MockTransport \<Rightarrow> MockTransport" where
  "mock_add_peer i peer s =
     s\<lparr>mock_peers := (if peer \<in> fst ` set (mock_peers s) then mock_peers s
                     else take i (mock_peers s) @ (peer, []) # drop i (mock_peers s)),
       mock_events := mock_events s @ [PeerConnected peer]\<rparr>"

definition mock_push :: "PeerId \<Rightarrow> Message \<Rightarrow> MockTransport \<Rightarrow> MockTransport" where
  "mock_push peer m s =
     s\<lparr>mock_peers := map (\<lambda>(p, ms). if p = peer then (p, ms @ [m]) else (p, ms)) (mock_peers s),
       mock_events := mock_events s @ [MessageReceived peer m]\<rparr>"

definition mock_broadcast :: "Message \<Rightarrow> (MockTransport, string, unit) action" where
  "mock_broadcast m = (\<lambda>s. (Inr (), fold (\<lambda>peer. mock_push peer m) (map fst (mock_peers s)) s))"

definition mock_send_to :: "PeerId \<Rightarrow> Message \<Rightarrow> (MockTransport, string, unit) action" where
  "mock_send_to peer m = (\<lambda>s.
     if peer \<in> fst ` set (mock_peers s) then (Inr (), mock_push peer m s) else (Inl ''peer not found'', s))"

definition mock_next_event :: "MockTransport \<Rightarrow> NetworkEvent option \<times> MockTransport" where
  "mock_next_event s =
     (if mock_events s = [] then (None, s)
      else (Some (mock_events s ! 0), s\<lparr>mock_events := drop 1 (mock_events s)\<rparr>))"

definition quic_broadcast :: "Message \<Rightarrow> (unit, string, unit) action" where
  "quic_broadcast m = act_throw ''QUIC transport not yet implemented''"

definition quic_send_to :: "PeerId \<Rightarrow> Message \<Rightarrow> (unit, string, unit) action" where
  "quic_send_to peer m = act_throw ''QUIC transport not yet implemented''"

definition quic_next_event :: "unit \<Rightarrow> NetworkEvent option \<times> unit" where
  "quic_next_event s = (None, s)"

section \<open>What a transport promises\<close>

text \<open>
  \<open>queue s p\<close> is what has been accepted for peer \<open>p\<close> and not yet taken, or \<open>None\<close> when nothing can be
  sent to \<open>p\<close>. Errors change nothing, and a broadcast fails only when there is nobody to reach.
\<close>

fun broadcast_all :: "('m \<Rightarrow> ('s, string, unit) action) \<Rightarrow> 'm list \<Rightarrow> 's \<Rightarrow> 's" where
  "broadcast_all b [] s = s"
| "broadcast_all b (m # ms) s = broadcast_all b ms (snd (b m s))"

locale transport =
  fixes ok :: "'s \<Rightarrow> bool"
    and queue :: "'s \<Rightarrow> PeerId \<Rightarrow> Message list option"
    and broadcast :: "Message \<Rightarrow> ('s, string, unit) action"
    and send_to :: "PeerId \<Rightarrow> Message \<Rightarrow> ('s, string, unit) action"
  assumes broadcast_ok: "ok s \<Longrightarrow> ok (snd (broadcast m s))"
    and broadcast_queue: "ok s \<Longrightarrow> queue (snd (broadcast m s)) p = map_option (\<lambda>q. q @ [m]) (queue s p)"
    and broadcast_error: "ok s \<Longrightarrow> fst (broadcast m s) = Inl e \<Longrightarrow> queue s p = None"
    and send_ok: "ok s \<Longrightarrow> ok (snd (send_to p m s))"
    and send_accepted: "ok s \<Longrightarrow> queue s p = Some q \<Longrightarrow>
          fst (send_to p m s) = Inr () \<and> queue (snd (send_to p m s)) = (queue s)(p \<mapsto> q @ [m])"
    and send_rejected: "ok s \<Longrightarrow> queue s p = None \<Longrightarrow> (\<exists>e. send_to p m s = (Inl e, s))"
begin

lemma broadcast_all_ok: "ok s \<Longrightarrow> ok (broadcast_all broadcast ms s)"
  by (induction ms arbitrary: s) (simp_all add: broadcast_ok)

lemma broadcast_all_queue:
  "ok s \<Longrightarrow> queue (broadcast_all broadcast ms s) p = map_option (\<lambda>q. q @ ms) (queue s p)"
  by (induction ms arbitrary: s) (simp_all add: broadcast_ok broadcast_queue option.map_comp comp_def option.map_id0 [unfolded id_def])

lemma send_other: "ok s \<Longrightarrow> p' \<noteq> p \<Longrightarrow> queue (snd (send_to p m s)) p' = queue s p'"
  using send_accepted [of s p _ m] send_rejected [of s p m] by (cases "queue s p") auto

end

subsection \<open>TCP\<close>

definition tcp_ok :: "TcpTransport \<Rightarrow> bool" where
  "tcp_ok s \<longleftrightarrow>
     (\<forall>p c. om_get (tcp_peers s) p = Some c \<longrightarrow> pc_token c = pc_tx c \<and> pc_tx c < tcp_next s) \<and>
     (\<forall>p q c d. om_get (tcp_peers s) p = Some c \<and> om_get (tcp_peers s) q = Some d \<and> pc_tx c = pc_tx d \<longrightarrow> p = q)"

definition tcp_queue :: "TcpTransport \<Rightarrow> PeerId \<Rightarrow> Message list option" where
  "tcp_queue s p =
     (case om_get (tcp_peers s) p of
        None \<Rightarrow> None
      | Some c \<Rightarrow> if ch_open (tcp_channels s (pc_tx c)) then Some (ch_queue (tcp_channels s (pc_tx c))) else None)"

lemma chan_send_frame [simp]:
  "tcp_peers (snd (chan_send n m s)) = tcp_peers s" "tcp_next (snd (chan_send n m s)) = tcp_next s"
  "tcp_local_id (snd (chan_send n m s)) = tcp_local_id s" "tcp_events (snd (chan_send n m s)) = tcp_events s"
  by (simp_all add: chan_send_def)

lemma chan_send_channel:
  "tcp_channels (snd (chan_send n m s)) k =
     (if k = n \<and> ch_open (tcp_channels s n) then (tcp_channels s n)\<lparr>ch_queue := ch_queue (tcp_channels s n) @ [m]\<rparr>
      else tcp_channels s k)"
  by (simp add: chan_send_def)

lemma tcp_send_each_frame [simp]:
  "tcp_peers (tcp_send_each m cs s) = tcp_peers s" "tcp_next (tcp_send_each m cs s) = tcp_next s"
  "tcp_events (tcp_send_each m cs s) = tcp_events s"
  by (induction m cs s rule: tcp_send_each.induct) simp_all

lemma tcp_send_each_channel:
  "distinct (map (pc_tx \<circ> snd) cs) \<Longrightarrow>
   tcp_channels (tcp_send_each m cs s) k =
     (if k \<in> (pc_tx \<circ> snd) ` set cs \<and> ch_open (tcp_channels s k)
      then (tcp_channels s k)\<lparr>ch_queue := ch_queue (tcp_channels s k) @ [m]\<rparr> else tcp_channels s k)"
  by (induction m cs s rule: tcp_send_each.induct) (auto simp: chan_send_channel image_iff)

lemma tcp_ok_distinct:
  assumes "tcp_ok s"
  shows "distinct (map (pc_tx \<circ> snd) (om_entries (tcp_peers s)))"
proof -
  have "distinct (om_entries (tcp_peers s))"
    using om_keys_distinct [of "tcp_peers s"] by (simp add: om_keys_def distinct_map)
  moreover have "inj_on (pc_tx \<circ> snd) (set (om_entries (tcp_peers s)))"
    using assms unfolding tcp_ok_def inj_on_def om_get_Some_iff [symmetric] comp_def
    by (metis om_get_Some_iff option.inject prod.collapse)
  ultimately show ?thesis by (simp add: distinct_map)
qed

interpretation tcp: transport tcp_ok tcp_queue tcp_broadcast tcp_send_to
proof
  fix s m p assume ok: "tcp_ok s"
  show "tcp_ok (snd (tcp_broadcast m s))" using ok unfolding tcp_broadcast_def tcp_ok_def by auto
  show "tcp_queue (snd (tcp_broadcast m s)) p = map_option (\<lambda>q. q @ [m]) (tcp_queue s p)"
  proof (cases "om_get (tcp_peers s) p")
    case None
    then show ?thesis by (simp add: tcp_broadcast_def tcp_queue_def)
  next
    case (Some c)
    then have "pc_tx c \<in> (pc_tx \<circ> snd) ` set (om_entries (tcp_peers s))"
      by (force simp: om_get_Some_iff)
    with Some show ?thesis
      by (auto simp: tcp_broadcast_def tcp_queue_def om_is_empty_iff tcp_send_each_channel [OF tcp_ok_distinct [OF ok]])
  qed
  show "tcp_ok (snd (tcp_send_to p m s))"
    using ok by (auto simp: tcp_send_to_def act_run tcp_ok_def chan_send_def ok_or_def split: option.splits)
  show "tcp_queue s p = None \<Longrightarrow> \<exists>e. tcp_send_to p m s = (Inl e, s)"
    by (auto simp: tcp_send_to_def act_run tcp_queue_def chan_send_def split: option.splits if_splits)
next
  fix s m e p assume "tcp_ok s" "fst (tcp_broadcast m s) = Inl e"
  then show "tcp_queue s p = None"
    by (auto simp: tcp_broadcast_def tcp_queue_def om_is_empty_iff split: if_splits)
next
  fix s m p q assume ok: "tcp_ok s" and q: "tcp_queue s p = Some q"
  obtain c where c: "om_get (tcp_peers s) p = Some c" "ch_open (tcp_channels s (pc_tx c))"
    "q = ch_queue (tcp_channels s (pc_tx c))"
    using q by (auto simp: tcp_queue_def split: option.splits if_splits)
  have other: "pc_tx d \<noteq> pc_tx c" if "om_get (tcp_peers s) p' = Some d" "p' \<noteq> p" for p' d
    using ok c(1) that unfolding tcp_ok_def by blast
  then show "fst (tcp_send_to p m s) = Inr () \<and> tcp_queue (snd (tcp_send_to p m s)) = (tcp_queue s)(p \<mapsto> q @ [m])"
    using c by (auto simp: tcp_send_to_def act_run tcp_queue_def chan_send_def fun_eq_iff split: option.splits)
qed

subsection \<open>Mock and QUIC\<close>

definition mock_ok :: "MockTransport \<Rightarrow> bool" where
  "mock_ok s \<longleftrightarrow> distinct (map fst (mock_peers s))"

definition mock_queue :: "MockTransport \<Rightarrow> PeerId \<Rightarrow> Message list option" where
  "mock_queue s = map_of (mock_peers s)"

lemma mock_push_keys [simp]: "map fst (mock_peers (mock_push p m s)) = map fst (mock_peers s)"
  by (simp add: mock_push_def comp_def case_prod_unfold if_distrib [of fst] cong: if_cong)

lemma mock_push_queue: "mock_queue (mock_push p m s) q = (if q = p then map_option (\<lambda>ms. ms @ [m]) (mock_queue s q) else mock_queue s q)"
proof -
  have "map_of (map (\<lambda>(p', ms). if p' = p then (p', ms @ [m]) else (p', ms)) xs) q =
      (if q = p then map_option (\<lambda>ms. ms @ [m]) (map_of xs q) else map_of xs q)" for xs :: "(PeerId \<times> Message list) list"
    by (induction xs) auto
  then show ?thesis by (simp add: mock_queue_def mock_push_def)
qed

lemma mock_push_all:
  "distinct ps \<Longrightarrow> mock_queue (fold (\<lambda>p. mock_push p m) ps s) q =
     (if q \<in> set ps then map_option (\<lambda>ms. ms @ [m]) (mock_queue s q) else mock_queue s q)"
  "map fst (mock_peers (fold (\<lambda>p. mock_push p m) ps s)) = map fst (mock_peers s)"
  by (induction ps arbitrary: s) (auto simp: mock_push_queue)

lemma mock_queue_None: "mock_queue s p = None \<longleftrightarrow> p \<notin> set (map fst (mock_peers s))"
  by (simp add: mock_queue_def map_of_eq_None_iff)

lemma mock_add_peer_ok:
  assumes "mock_ok s"
  shows "mock_ok (mock_add_peer i p s)"
proof -
  let ?ks = "map fst (mock_peers s)"
  have "distinct (take i ?ks @ p # drop i ?ks)" if "p \<notin> set ?ks"
    using assms that distinct_append [of "take i ?ks" "drop i ?ks"]
    by (auto simp: mock_ok_def simp del: set_map dest: in_set_takeD in_set_dropD)
  then show ?thesis using assms by (auto simp: mock_ok_def mock_add_peer_def take_map drop_map)
qed

interpretation mock: transport mock_ok mock_queue mock_broadcast mock_send_to
proof
  fix s m p assume ok: "mock_ok s"
  then show "mock_ok (snd (mock_broadcast m s))" by (simp add: mock_ok_def mock_broadcast_def mock_push_all)
  show "mock_queue (snd (mock_broadcast m s)) p = map_option (\<lambda>q. q @ [m]) (mock_queue s p)"
    using ok mock_queue_None [of s p] by (auto simp: mock_broadcast_def mock_push_all mock_ok_def)
  show "mock_ok (snd (mock_send_to p m s))" using ok by (simp add: mock_ok_def mock_send_to_def)
  show "mock_queue s p = None \<Longrightarrow> \<exists>e. mock_send_to p m s = (Inl e, s)"
    by (simp add: mock_send_to_def mock_queue_None)
next
  fix s m e p assume "fst (mock_broadcast m s) = Inl e"
  then show "mock_queue s p = None" by (simp add: mock_broadcast_def)
next
  fix s m p q assume "mock_queue s p = Some q"
  moreover from this have "p \<in> fst ` set (mock_peers s)" using mock_queue_None [of s p] by auto
  ultimately show "fst (mock_send_to p m s) = Inr () \<and> mock_queue (snd (mock_send_to p m s)) = (mock_queue s)(p \<mapsto> q @ [m])"
    by (simp add: mock_send_to_def mock_push_queue fun_eq_iff)
qed

interpretation quic: transport "\<lambda>_. True" "\<lambda>_ _. None" quic_broadcast quic_send_to
  by unfold_locales (simp_all add: quic_broadcast_def quic_send_to_def)

section \<open>The slot table under concurrent tasks\<close>

text \<open>
  The steps are the critical sections of the tasks of one node, in any order: connections open and
  close, the outbound tasks drain their channels, and the node sends and takes events.
\<close>

inductive tcp_step :: "message_codec \<Rightarrow> TcpTransport \<Rightarrow> TcpTransport \<Rightarrow> bool" for M where
  step_open: "connection_open known stream (w, s) = (r, w', s') \<Longrightarrow> tcp_step M s s'"
| step_read: "connection_read M p rest s = (e, s') \<Longrightarrow> tcp_step M s s'"
| step_close: "tcp_step M s (connection_close p t s)"
| step_drain: "drain_outbound M n (w, s) = (w', s') \<Longrightarrow> tcp_step M s s'"
| step_broadcast: "tcp_broadcast m s = (r, s') \<Longrightarrow> tcp_step M s s'"
| step_send: "tcp_send_to p m s = (r, s') \<Longrightarrow> tcp_step M s s'"
| step_event: "tcp_next_event s = (e, s') \<Longrightarrow> tcp_step M s s'"

text \<open>What a step does to the table: it leaves it, removes an entry, or adds one with a fresh token.\<close>

definition table_step :: "TcpTransport \<Rightarrow> TcpTransport \<Rightarrow> bool" where
  "table_step s s' \<longleftrightarrow>
     tcp_peers s' = tcp_peers s \<and> tcp_next s' = tcp_next s
   \<or> (\<exists>p. tcp_peers s' = om_remove p (tcp_peers s)) \<and> tcp_next s' = tcp_next s
   \<or> (\<exists>p. tcp_peers s' = om_insert p (PeerConnection_new (tcp_next s)) (tcp_peers s)) \<and> tcp_next s' = Suc (tcp_next s)"

lemma register_slot_table: "register_slot p out s = (r, s') \<Longrightarrow> table_step s s'"
  by (auto simp: register_slot_def table_step_def Let_def split: option.splits if_splits)

lemma table_step_events [simp]: "table_step s (send_event e s') = table_step s s'"
  by (simp add: table_step_def send_event_def)

lemma fold_send_event: "fold send_event es s = s\<lparr>tcp_events := tcp_events s @ es\<rparr>"
  by (induction es arbitrary: s) (simp_all add: send_event_def)

lemma connection_open_table: "connection_open k stream (w, s) = (r, w', s') \<Longrightarrow> table_step s s'"
  by (auto simp: connection_open_def act_run act_on_apply split: sum.splits prod.splits dest!: register_slot_table)
    (simp_all add: table_step_def)

lemma tcp_step_table: "tcp_step M s s' \<Longrightarrow> table_step s s'"
proof (induction rule: tcp_step.induct)
  case (step_open known stream w s r w' s')
  then show ?case by (rule connection_open_table)
next
  case (step_close s p t)
  then show ?case
    by (auto simp: table_step_def connection_close_def release_slot_def abort_outbound_def split: option.splits)
next
  case (step_send p m s r s')
  then show ?case
    by (auto simp: table_step_def tcp_send_to_def act_run ok_or_def chan_send_def split: option.splits if_splits)
qed (auto simp: table_step_def connection_read_def fold_send_event drain_outbound_def tcp_broadcast_def tcp_next_event_def
  split: prod.splits if_splits list.splits)

lemma table_step_ok:
  assumes "tcp_ok s" "table_step s s'"
  shows "tcp_ok s' \<and> tcp_next s \<le> tcp_next s'"
proof -
  consider "tcp_peers s' = tcp_peers s" "tcp_next s' = tcp_next s"
    | p where "tcp_peers s' = om_remove p (tcp_peers s)" "tcp_next s' = tcp_next s"
    | p where "tcp_peers s' = om_insert p (PeerConnection_new (tcp_next s)) (tcp_peers s)" "tcp_next s' = Suc (tcp_next s)"
    using assms(2) unfolding table_step_def by blast
  then show ?thesis
  proof cases
    case 1
    then show ?thesis using assms(1) unfolding tcp_ok_def by auto
  next
    case 2
    then show ?thesis using assms(1) unfolding tcp_ok_def by (auto split: if_splits)
  next
    case 3
    then show ?thesis using assms(1) unfolding tcp_ok_def
      by (auto simp: PeerConnection_new_def less_Suc_eq split: if_splits) (metis less_irrefl)+
  qed
qed

text \<open>A token that is not in the table and is not fresh never comes back.\<close>

definition retired :: "PeerId \<Rightarrow> nat \<Rightarrow> TcpTransport \<Rightarrow> bool" where
  "retired p t s \<longleftrightarrow> t < tcp_next s \<and> (\<forall>c. om_get (tcp_peers s) p = Some c \<longrightarrow> pc_token c \<noteq> t)"

lemma table_step_retired: "table_step s s' \<Longrightarrow> retired p t s \<Longrightarrow> retired p t s'"
  unfolding table_step_def retired_def by (auto simp: PeerConnection_new_def split: if_splits)

lemma run_retired: "(tcp_step M)\<^sup>*\<^sup>* s s' \<Longrightarrow> retired p t s \<Longrightarrow> retired p t s'"
  by (induction rule: rtranclp_induct) (auto dest: tcp_step_table table_step_retired)

lemma run_ok: "(tcp_step M)\<^sup>*\<^sup>* s s' \<Longrightarrow> tcp_ok s \<Longrightarrow> tcp_ok s' \<and> tcp_next s \<le> tcp_next s'"
  by (induction rule: rtranclp_induct) (auto dest!: tcp_step_table dest: table_step_ok intro: order_trans)

lemma retired_release: "retired p t s \<Longrightarrow> release_slot p t s = s"
  by (auto simp: retired_def release_slot_def split: option.splits)

lemma tcp_broadcast_all_peers: "tcp_peers (broadcast_all tcp_broadcast ms s) = tcp_peers s"
  by (induction ms arbitrary: s) (simp_all add: tcp_broadcast_def)

lemma tcp_step_events:
  "tcp_step M s s' \<Longrightarrow>
   set (tcp_events s') \<subseteq> set (tcp_events s) \<union> range PeerConnected \<union> {MessageReceived q m | q m. True}"
proof (induction rule: tcp_step.induct)
  case (step_open known stream w s r w' s')
  then show ?case
    by (auto simp: connection_open_def act_run act_on_apply register_slot_def send_event_def Let_def
        split: sum.splits prod.splits option.splits if_splits)
next
  case (step_close s p t)
  then show ?case
    by (auto simp: connection_close_def release_slot_def abort_outbound_def split: option.splits)
next
  case (step_send p m s r s')
  then show ?case
    by (auto simp: tcp_send_to_def act_run ok_or_def chan_send_def split: option.splits if_splits)
next
  case (step_broadcast m s r s')
  then show ?case by (auto simp: tcp_broadcast_def split: if_splits)
qed (auto simp: connection_read_def fold_send_event drain_outbound_def tcp_next_event_def
  split: prod.splits if_splits list.splits)

section \<open>Properties\<close>

text \<open>
  C25. A connection only ever removes its own slot: once the connection with token \<open>t\<close> has been replaced by a newer
  connection to the same peer, its clean-up leaves the table of peers unchanged, however the other tasks have
  run in between.
\<close>

theorem stale_release_is_harmless:
  assumes "tcp_ok s0" "register_slot p out s0 = (Inr t, s1)"
    and "(tcp_step M)\<^sup>*\<^sup>* s1 s2"
    and "register_slot p out' s2 = (Inr t', s3)" "(tcp_step M)\<^sup>*\<^sup>* s3 s4"
  shows "tcp_peers (connection_close p t s4) = tcp_peers s4"
proof -
  have fresh: "t = tcp_next s0" "tcp_next s1 = Suc (tcp_next s0)" if "register_slot p out s0 = (Inr t, s1)" for out s0 t s1
    using that by (auto simp: register_slot_def Let_def split: option.splits if_splits)
  have "tcp_ok s1" using table_step_ok [OF assms(1) register_slot_table [OF assms(2)]] by blast
  then have le: "tcp_next s1 \<le> tcp_next s2" using run_ok [OF assms(3)] by blast
  have "om_get (tcp_peers s3) p = Some (PeerConnection_new (tcp_next s2))"
    using assms(4) by (auto simp: register_slot_def Let_def split: option.splits if_splits)
  then have "retired p t s3"
    using le fresh [OF assms(2)] fresh [OF assms(4)] by (simp add: retired_def PeerConnection_new_def)
  then have "retired p t s4" by (rule run_retired [OF assms(5)])
  then have "retired p t (abort_outbound t s4)" by (simp add: retired_def abort_outbound_def)
  then show ?thesis by (simp add: connection_close_def retired_release abort_outbound_def)
qed

definition crossing :: "PeerId \<Rightarrow> bool \<Rightarrow> TcpTransport \<Rightarrow> (string + nat) \<times> (string + nat) \<times> TcpTransport" where
  "crossing remote_id outbound_first s =
     (if outbound_first then
        case register_slot remote_id True s of (out, s1) \<Rightarrow>
        case register_slot remote_id False s1 of (inb, s2) \<Rightarrow> (out, inb, s2)
      else
        case register_slot remote_id False s of (inb, s1) \<Rightarrow>
        case register_slot remote_id True s1 of (out, s2) \<Rightarrow> (out, inb, s2))"

text \<open>
  C24. Two peers that dial each other end with one connection, the same at both ends. Each endpoint handles two sockets, in any order; when it had
  no connection to the other, both keep the socket that the peer with the larger id dialed: it is registered at both, and the slot ends up
  with its token. The other socket is refused, or, where it was registered first, it is replaced and its clean-up leaves the table unchanged.
\<close>

theorem crossing_dials_keep_one_socket:
  assumes "tcp_local_id sa = a" "tcp_local_id sb = b" "a > b"
    and "om_get (tcp_peers sa) b = None" "om_get (tcp_peers sb) a = None"
    and "crossing b first_a sa = (out_a, in_a, sa')" "crossing a first_b sb = (out_b, in_b, sb')"
  shows "(\<exists>ca cb. out_a = Inr (pc_token ca) \<and> om_get (tcp_peers sa') b = Some ca
            \<and> in_b = Inr (pc_token cb) \<and> om_get (tcp_peers sb') a = Some cb)
       \<and> (in_a = Inl ''duplicate connection closed'' \<or> (\<exists>t. in_a = Inr t \<and> tcp_peers (connection_close b t sa') = tcp_peers sa'))
       \<and> (out_b = Inl ''duplicate connection closed'' \<or> (\<exists>t. out_b = Inr t \<and> tcp_peers (connection_close a t sb') = tcp_peers sb'))"
  using assms by (cases first_a; cases first_b)
    (auto simp: crossing_def register_slot_def wins_tie_def PeerConnection_new_def connection_close_def release_slot_def abort_outbound_def Let_def
      split: prod.splits if_splits)

text \<open>
  C17. Gossip is reliable and ordered over a connection for messages whose encodings are within the limit of 8 MiB per frame and read back as the
  messages, those already queued included: when a node broadcasts such messages one after the other,
  every peer with an open connection has exactly these messages appended in order; from the bytes the outbound
  task then puts on a fresh socket the peer reads a prefix of the queued messages, and all of them when the
  socket does not fail; and peers that are not connected get nothing.
\<close>

theorem tcp_gossip_delivers:
  assumes "tcp_ok s" "om_get (tcp_peers s) p = Some c" "tcp_queue s p = Some q"
    and "\<forall>m\<in>set (q @ ms). codec_reads M m \<and> frame_fits M m"
    and "s' = broadcast_all tcp_broadcast ms s"
    and "drain_outbound M (pc_tx c) (\<lparr>w_bytes = [], w_room = n\<rparr>, s') = (w, s'')"
  shows "tcp_queue s' p = Some (q @ ms)
       \<and> prefix (fst (read_messages M (w_bytes w))) (q @ ms)
       \<and> (length (concat (map (frame M) (q @ ms))) \<le> n \<longrightarrow> fst (read_messages M (w_bytes w)) = q @ ms)
       \<and> (\<forall>p'. tcp_queue s p' = None \<longrightarrow> tcp_queue s' p' = None)"
proof -
  have queues: "tcp_queue s' p' = map_option (\<lambda>q. q @ ms) (tcp_queue s p')" for p'
    using tcp.broadcast_all_queue [OF assms(1)] assms(5) by simp
  have "om_get (tcp_peers s') p = Some c" using assms(2,5) by (simp add: tcp_broadcast_all_peers)
  moreover have q': "tcp_queue s' p = Some (q @ ms)" using queues assms(3) by simp
  ultimately have "ch_queue (tcp_channels s' (pc_tx c)) = q @ ms"
    by (auto simp: tcp_queue_def split: if_splits)
  then have w: "w_bytes w = take n (concat (map (frame M) (q @ ms)))"
    using assms(6) outbound_loop_bytes [of M "q @ ms" "\<lparr>w_bytes = [], w_room = n\<rparr>"]
    by (auto simp: drain_outbound_def split: prod.splits)
  have "length (concat (map (frame M) (q @ ms))) \<le> n \<longrightarrow> fst (read_messages M (w_bytes w)) = q @ ms"
    using read_frames [OF assms(4)] unfolding w by (metis fst_conv take_all)
  moreover have "prefix (fst (read_messages M (w_bytes w))) (q @ ms)"
    using read_cut_frames [OF assms(4)] unfolding w .
  ultimately show ?thesis using queues q' by simp
qed

text \<open>
  The node is never told that a peer is gone: although connections close, no run of the transport
  emits the event \<open>PeerDisconnected\<close>.
\<close>

theorem disconnects_are_never_reported:
  assumes "(tcp_step M)\<^sup>*\<^sup>* (TcpTransport_new local_id) s"
  shows "PeerDisconnected p \<notin> set (tcp_events s)"
  using assms
proof (induction rule: rtranclp_induct)
  case base
  then show ?case by (simp add: TcpTransport_new_def)
next
  case (step s s')
  have "set (tcp_events s') \<subseteq> set (tcp_events s) \<union> range PeerConnected \<union> {MessageReceived q m | q m. True}"
    using step(2) by (rule tcp_step_events)
  then show ?case using step(3) by auto
qed

section \<open>Witnesses\<close>

definition demo_codec :: message_codec where
  "demo_codec =
     \<lparr>json_message = (\<lambda>m. if m = Ping then [1] else if m = Pong then [2] else []),
      unjson_message = (\<lambda>bs. if bs = [1] then Some Ping else if bs = [2] then Some Pong else None)\<rparr>"

definition long_codec :: message_codec where
  "long_codec = \<lparr>json_message = (\<lambda>_. replicate 9000000 0), unjson_message = (\<lambda>_. Some Ping)\<rparr>"

lemma demo_codec_reads [simp]:
  "codec_reads demo_codec Ping" "codec_reads demo_codec Pong" "frame_fits demo_codec Ping" "frame_fits demo_codec Pong"
  by (simp_all add: codec_reads_def frame_fits_def demo_codec_def MAX_FRAME_def)

theorem frames_roundtrip_witness:
  "read_messages demo_codec (w_bytes (snd (outbound_loop demo_codec [Ping, Pong] \<lparr>w_bytes = [], w_room = 10\<rparr>))) =
     ([Ping, Pong], ''read length failed'')"
  using frames_roundtrip [of "[Ping, Pong]" demo_codec "\<lparr>w_bytes = [], w_room = 0\<rparr>"]
  by (simp add: frame_def demo_codec_def [THEN arg_cong [of _ _ json_message]])

theorem oversized_frame_ends_stream_witness:
  "\<exists>w. write_message long_codec Pong \<lparr>w_bytes = [], w_room = 9000004\<rparr> = (Inr (), w) \<and>
     read_messages long_codec (w_bytes w @ [1]) = ([], ''message too large'')"
proof -
  have "\<exists>w. write_message long_codec Pong \<lparr>w_bytes = [], w_room = 9000004\<rparr> = (Inr (), w)"
    by (simp add: write_message_frame frame_def long_codec_def)
  then show ?thesis
    using oversized_frame_ends_stream [of long_codec Pong 9000004 _ "[1]"] by (auto simp: long_codec_def MAX_FRAME_def)
qed

definition demo_peer :: "u8 \<Rightarrow> PeerId" where "demo_peer b = array32 [b]"

lemma demo_peer_less: "demo_peer 1 < demo_peer 2"
  by (simp add: less_bytes32_def demo_peer_def bytes_of_array32_pad)

lemma new_ok: "tcp_ok (TcpTransport_new p)"
  by (simp add: tcp_ok_def TcpTransport_new_def)

text \<open>A node whose peers 1 and 2 have dialed in.\<close>

definition dial_in :: "PeerId \<Rightarrow> TcpTransport \<Rightarrow> TcpTransport" where
  "dial_in p s = snd (snd (connection_open None (bytes_of p) (\<lparr>w_bytes = [], w_room = 32\<rparr>, s)))"

definition demo_node :: TcpTransport where
  "demo_node = dial_in (demo_peer 2) (dial_in (demo_peer 1) (TcpTransport_new (demo_peer 3)))"

lemma dial_in_step: "tcp_step M s (dial_in p s)"
proof -
  obtain r w s' where "connection_open None (bytes_of p) (\<lparr>w_bytes = [], w_room = 32\<rparr>, s) = (r, w, s')"
    by (rule prod_cases3)
  then show ?thesis by (auto simp: dial_in_def intro: tcp_step.step_open)
qed

lemma demo_node_run: "(tcp_step M)\<^sup>*\<^sup>* (TcpTransport_new (demo_peer 3)) demo_node"
  unfolding demo_node_def by (rule converse_rtranclp_into_rtranclp, rule dial_in_step, rule r_into_rtranclp, rule dial_in_step)

lemma demo_node_peers:
  "om_get (tcp_peers demo_node) = [demo_peer 1 \<mapsto> PeerConnection_new 0, demo_peer 2 \<mapsto> PeerConnection_new 1]"
  "tcp_queue demo_node (demo_peer 1) = Some []"
  using demo_peer_less
  by (auto simp: demo_node_def dial_in_def connection_open_def act_run act_on_apply handshake_def write_all_def
      read_exact_def register_slot_def TcpTransport_new_def send_event_def tcp_queue_def PeerConnection_new_def)

text \<open>A node that dials peer 1 twice keeps the second connection when the first one closes.\<close>

definition demo_redial :: TcpTransport where
  "demo_redial = snd (register_slot (demo_peer 1) True (snd (register_slot (demo_peer 1) True (TcpTransport_new (demo_peer 2)))))"

theorem stale_release_is_harmless_witness:
  "tcp_peers (connection_close (demo_peer 1) 0 demo_redial) = tcp_peers demo_redial"
proof -
  let ?s1 = "snd (register_slot (demo_peer 1) True (TcpTransport_new (demo_peer 2)))"
  have "register_slot (demo_peer 1) True (TcpTransport_new (demo_peer 2)) = (Inr 0, ?s1)"
    by (simp add: register_slot_def TcpTransport_new_def)
  moreover have "register_slot (demo_peer 1) True ?s1 = (Inr 1, demo_redial)"
    using demo_peer_less
    by (simp add: demo_redial_def register_slot_def TcpTransport_new_def wins_tie_def PeerConnection_new_def chan_send_def)
  ultimately show ?thesis
    using stale_release_is_harmless [OF new_ok _ rtranclp.rtrancl_refl _ rtranclp.rtrancl_refl] by blast
qed

theorem crossing_dials_keep_one_socket_witness:
  "\<exists>in_a out_b sa sb ca cb. crossing (demo_peer 1) True (TcpTransport_new (demo_peer 2)) = (Inr (pc_token ca), in_a, sa)
       \<and> om_get (tcp_peers sa) (demo_peer 1) = Some ca
       \<and> crossing (demo_peer 2) False (TcpTransport_new (demo_peer 1)) = (out_b, Inr (pc_token cb), sb)
       \<and> om_get (tcp_peers sb) (demo_peer 2) = Some cb"
proof -
  obtain out_a in_a sa where a: "crossing (demo_peer 1) True (TcpTransport_new (demo_peer 2)) = (out_a, in_a, sa)"
    by (rule prod_cases3)
  obtain out_b in_b sb where b: "crossing (demo_peer 2) False (TcpTransport_new (demo_peer 1)) = (out_b, in_b, sb)"
    by (rule prod_cases3)
  show ?thesis
    using crossing_dials_keep_one_socket [OF _ _ demo_peer_less _ _ a b] a b by (auto simp: TcpTransport_new_def)
qed

theorem tcp_gossip_delivers_witness:
  "tcp_queue (broadcast_all tcp_broadcast [Ping, Pong] demo_node) (demo_peer 1) = Some [Ping, Pong] \<and>
   fst (read_messages demo_codec (w_bytes (fst (drain_outbound demo_codec 0
     (\<lparr>w_bytes = [], w_room = 20\<rparr>, broadcast_all tcp_broadcast [Ping, Pong] demo_node))))) = [Ping, Pong]"
proof -
  let ?s = "broadcast_all tcp_broadcast [Ping, Pong] demo_node"
  have "tcp_ok demo_node" using run_ok [OF demo_node_run [of demo_codec] new_ok] by blast
  moreover have "om_get (tcp_peers demo_node) (demo_peer 1) = Some (PeerConnection_new 0)"
    using demo_peer_less by (auto simp: demo_node_peers)
  moreover have "length (concat (map (frame demo_codec) ([] @ [Ping, Pong]))) \<le> 20"
    by (simp add: frame_def demo_codec_def)
  ultimately show ?thesis
    using tcp_gossip_delivers [OF _ _ demo_node_peers(2), of "PeerConnection_new 0" "[Ping, Pong]" demo_codec ?s 20,
        OF _ _ _ refl prod.collapse [symmetric]]
    by (simp add: PeerConnection_new_def)
qed

theorem disconnects_are_never_reported_witness:
  "PeerDisconnected (demo_peer 1) \<notin> set (tcp_events demo_node)"
  by (rule disconnects_are_never_reported [OF demo_node_run])

end
