(* ===== verification/Parse.thy ===== *)
theory Parse
  imports Prelude
begin

text \<open>
  Parsing unsigned integers the way the Rust standard library does (\<open>str::parse\<close> at an unsigned type): an
  optional leading plus sign, at least one digit, digits read from the left, the first offending
  character or overflow reported. Used for amounts in requests.
\<close>

datatype IntErrorKind = IntEmpty | IntInvalidDigit | IntPosOverflow

fun IntErrorKind_to_string :: "IntErrorKind \<Rightarrow> string" where
  "IntErrorKind_to_string IntEmpty = ''cannot parse integer from empty string''"
| "IntErrorKind_to_string IntInvalidDigit = ''invalid digit found in string''"
| "IntErrorKind_to_string IntPosOverflow = ''number too large to fit in target type''"

definition to_digit :: "char \<Rightarrow> nat option" where
  "to_digit c = (let n = (of_char c :: nat) in if 48 \<le> n \<and> n \<le> 57 then Some (n - 48) else None)"

fun parse_digits :: "nat \<Rightarrow> nat \<Rightarrow> string \<Rightarrow> IntErrorKind + nat" where
  "parse_digits bound acc [] = Inr acc"
| "parse_digits bound acc (c # cs) =
     (case to_digit c of
        None \<Rightarrow> Inl IntInvalidDigit
      | Some d \<Rightarrow> if acc * 10 \<ge> bound \<or> acc * 10 + d \<ge> bound then Inl IntPosOverflow
                  else parse_digits bound (acc * 10 + d) cs)"

definition parse_uint :: "string \<Rightarrow> IntErrorKind + 'a::len word" where
  "parse_uint s =
     (if s = [] then Inl IntEmpty
      else if s = ''+'' \<or> s = ''-'' then Inl IntInvalidDigit
      else map_sum id of_nat (parse_digits (2 ^ LENGTH('a)) 0 (if hd s = CHR ''+'' then tl s else s)))"

section \<open>Parsing what was printed\<close>

lemma to_digit_char [simp]: "d < 10 \<Longrightarrow> to_digit (char_of (48 + d)) = Some d"
  by (simp add: to_digit_def)

lemma parse_digits_append:
  "parse_digits bound acc (cs @ ds) =
     (case parse_digits bound acc cs of Inl e \<Rightarrow> Inl e | Inr n \<Rightarrow> parse_digits bound n ds)"
  by (induction bound acc cs rule: parse_digits.induct) (simp_all split: option.split)

lemma nat_to_string_digit: "n < 10 \<Longrightarrow> nat_to_string n = [char_of (48 + n)]"
  by (subst nat_to_string.simps) simp

lemma nat_to_string_step: "\<not> n < 10 \<Longrightarrow> nat_to_string n = nat_to_string (n div 10) @ [char_of (48 + n mod 10)]"
  by (subst nat_to_string.simps) simp

lemma parse_nat_to_string:
  "n < bound \<Longrightarrow> parse_digits bound 0 (nat_to_string n) = Inr n"
proof (induction n rule: nat_to_string.induct)
  case (1 n)
  show ?case
  proof (cases "n < 10")
    case True
    then show ?thesis using 1 by (simp add: nat_to_string_digit del: of_char_of)
  next
    case False
    then have "parse_digits bound 0 (nat_to_string (n div 10)) = Inr (n div 10)" using 1 by simp
    moreover have "n div 10 * 10 + n mod 10 = n" "n div 10 * 10 \<le> n" by simp_all
    ultimately show ?thesis
      using False 1(2) by (simp add: nat_to_string_step parse_digits_append)
  qed
qed

lemma nat_to_string_digits: "c \<in> set (nat_to_string n) \<Longrightarrow> to_digit c \<noteq> None"
proof (induction n rule: nat_to_string.induct)
  case (1 n)
  then show ?case by (cases "n < 10") (auto simp: nat_to_string_digit nat_to_string_step)
qed

lemma nat_to_string_nonempty [simp]: "nat_to_string n \<noteq> []"
  by (cases "n < 10") (simp_all add: nat_to_string_digit nat_to_string_step)

lemma signs_not_digits: "to_digit CHR ''+'' = None" "to_digit CHR ''-'' = None"
  by (simp_all add: to_digit_def)

theorem parse_uint_to_string [simp]: "parse_uint (word_to_string w) = Inr (w :: 'a::len word)"
proof -
  obtain c cs where s: "nat_to_string (unat w) = c # cs" by (cases "nat_to_string (unat w)") auto
  have "to_digit c \<noteq> None" using nat_to_string_digits [of c "unat w"] s by simp
  then have "c \<noteq> CHR ''+''" "c \<noteq> CHR ''-''" using signs_not_digits by auto
  then show ?thesis
    using parse_nat_to_string [OF unat_less_bound, of w] s
    by (simp add: parse_uint_def word_to_string_def)
qed

lemma parse_digits_bound: "parse_digits bound acc cs = Inr n \<Longrightarrow> acc < bound \<Longrightarrow> n < bound"
  by (induction bound acc cs rule: parse_digits.induct) (auto split: option.splits if_splits)

end
