(* ===== verification/Ports.thy ===== *)
theory Ports
  imports Crypto Parse
begin

text \<open>
  Model of src/crates/pemrix-ports and of the testnet preset of src/crates/pemrix-testnet. Port
  arithmetic is on 16-bit words and wraps; an address is printed with \<open>format!\<close>. The
  environment variable \<open>PEMRIX_BIND_HOST\<close> and the clock are arguments.
\<close>

section \<open>Ports\<close>

definition RPC_PORT :: u16 where "RPC_PORT = 61001"
definition GRPC_PORT :: u16 where "GRPC_PORT = 61002"
definition SERVICES_RPC :: u16 where "SERVICES_RPC = 61006"
definition FAUCET_PORT :: u16 where "FAUCET_PORT = 61003"
definition EXPLORER_PORT :: u16 where "EXPLORER_PORT = 61004"
definition WEBHOOKS_PORT :: u16 where "WEBHOOKS_PORT = 61005"
definition P2P_BASE :: u16 where "P2P_BASE = 61100"

definition host_port :: "string \<Rightarrow> u16 \<Rightarrow> string" where
  "host_port host port = host @ '':'' @ word_to_string port"

definition rpc_local :: string where "rpc_local = host_port ''127.0.0.1'' RPC_PORT"
definition rpc_public :: string where "rpc_public = host_port ''0.0.0.0'' RPC_PORT"
definition grpc_local :: string where "grpc_local = host_port ''127.0.0.1'' GRPC_PORT"
definition grpc_public :: string where "grpc_public = host_port ''0.0.0.0'' GRPC_PORT"
definition faucet_local :: string where "faucet_local = host_port ''127.0.0.1'' FAUCET_PORT"
definition faucet_public :: string where "faucet_public = host_port ''0.0.0.0'' FAUCET_PORT"
definition explorer_local :: string where "explorer_local = host_port ''127.0.0.1'' EXPLORER_PORT"
definition explorer_public :: string where "explorer_public = host_port ''0.0.0.0'' EXPLORER_PORT"
definition webhooks_local :: string where "webhooks_local = host_port ''127.0.0.1'' WEBHOOKS_PORT"
definition webhooks_public :: string where "webhooks_public = host_port ''0.0.0.0'' WEBHOOKS_PORT"
definition services_rpc_local :: string where "services_rpc_local = host_port ''127.0.0.1'' SERVICES_RPC"
definition services_rpc_public :: string where "services_rpc_public = host_port ''0.0.0.0'' SERVICES_RPC"
definition p2p_default :: string where "p2p_default = host_port ''0.0.0.0'' P2P_BASE"

definition p2p_local_offset :: "u16 \<Rightarrow> string" where
  "p2p_local_offset offset = host_port ''127.0.0.1'' (P2P_BASE + offset)"

definition p2p_public_offset :: "u16 \<Rightarrow> string" where
  "p2p_public_offset offset = host_port ''0.0.0.0'' (P2P_BASE + offset)"

definition rpc_internal_url :: string where
  "rpc_internal_url = ''http://'' @ host_port ''127.0.0.1'' RPC_PORT"

section \<open>The testnet preset\<close>

datatype TestnetPreset = LocalPreset

record TestnetConfig =
  tn_preset :: TestnetPreset
  tn_chain_name :: string
  tn_chain_id :: string
  tn_allocations :: "(address, Account) omap"
  tn_faucet_accounts :: "(address \<times> Account) list"
  tn_validators :: "address list"
  tn_bootstrap_nodes :: "string list"
  tn_rpc_listen :: string
  tn_faucet_listen :: string
  tn_explorer_listen :: string
  tn_grpc_listen :: string

definition string_bytes :: "string \<Rightarrow> bytes" where
  "string_bytes s = map of_char s"

definition LOCAL_FAUCET_SEED :: bytes where
  "LOCAL_FAUCET_SEED = string_bytes ''pemrix-local-testnet-faucet-v1''"

definition bind_host :: "string option \<Rightarrow> string" where
  "bind_host env = (case env of None \<Rightarrow> ''127.0.0.1'' | Some s \<Rightarrow> if s = [] then ''127.0.0.1'' else s)"

definition dev_address :: "externs \<Rightarrow> nat \<Rightarrow> address" where
  "dev_address E i = from_public_key_hash (hash_bytes E (string_bytes (''dev-'' @ nat_to_string i)))"

definition testnet_local :: "externs \<Rightarrow> string option \<Rightarrow> panic + TestnetConfig" where
  "testnet_local E env =
     (let allocations = fold (\<lambda>i. om_insert (dev_address E i) (Account_new 1000000 0)) [0..<10] om_empty in
      case keypair_from_seed E LOCAL_FAUCET_SEED of
        Inl _ \<Rightarrow> Inl (ExpectFailed ''deterministic faucet keypair should be valid'')
      | Inr faucet_keypair \<Rightarrow>
          let faucet_address = from_public_key_hash (hash_bytes E (kp_public faucet_keypair));
              faucet_account = Account_new 1000000000 0; host = bind_host env in
          Inr \<lparr>tn_preset = LocalPreset, tn_chain_name = ''PEMRIX Local Testnet'', tn_chain_id = ''pemrix-local-testnet'',
               tn_allocations = allocations, tn_faucet_accounts = [(faucet_address, faucet_account)],
               tn_validators = [faucet_address], tn_bootstrap_nodes = [host_port host (P2P_BASE + 3)],
               tn_rpc_listen = host_port host RPC_PORT, tn_faucet_listen = host_port host FAUCET_PORT,
               tn_explorer_listen = host_port host EXPLORER_PORT, tn_grpc_listen = host_port host GRPC_PORT\<rparr>)"

definition testnet_preset :: "externs \<Rightarrow> string option \<Rightarrow> TestnetPreset \<Rightarrow> panic + TestnetConfig" where
  "testnet_preset E env p = (case p of LocalPreset \<Rightarrow> testnet_local E env)"

definition rsplit_once :: "char \<Rightarrow> string \<Rightarrow> (string \<times> string) option" where
  "rsplit_once c s =
     (if c \<in> set s then
        let tail = takeWhile (\<lambda>x. x \<noteq> c) (rev s) in Some (take (length s - length tail - 1) s, rev tail)
      else None)"

definition tn_rpc_internal_url :: "TestnetConfig \<Rightarrow> string" where
  "tn_rpc_internal_url c =
     (let port = (case rsplit_once (CHR '':'') (tn_rpc_listen c) of None \<Rightarrow> ''61001'' | Some (_, p) \<Rightarrow> p)
      in ''http://127.0.0.1:'' @ port)"

definition tn_faucet_address :: "TestnetConfig \<Rightarrow> address option" where
  "tn_faucet_address c = (case tn_faucet_accounts c of [] \<Rightarrow> None | (a, _) # _ \<Rightarrow> Some a)"

definition tn_faucet_account :: "TestnetConfig \<Rightarrow> Account option" where
  "tn_faucet_account c = (case tn_faucet_accounts c of [] \<Rightarrow> None | (_, x) # _ \<Rightarrow> Some x)"

definition tn_faucet_keypair :: "externs \<Rightarrow> TestnetConfig \<Rightarrow> string + KeyPair" where
  "tn_faucet_keypair E c = map_err (\<lambda>_. ''failed to generate faucet keypair'') (keypair_from_seed E LOCAL_FAUCET_SEED)"

definition combined_allocations :: "TestnetConfig \<Rightarrow> (address, Account) omap" where
  "combined_allocations c = fold (\<lambda>(a, x). om_insert a x) (tn_faucet_accounts c) (tn_allocations c)"

definition genesis_timestamp :: "u64 \<Rightarrow> TestnetConfig \<Rightarrow> u64" where
  "genesis_timestamp now c = now"

section \<open>Lemmas\<close>

lemma word_to_string_inject [simp]: "word_to_string v = word_to_string w \<longleftrightarrow> v = w" for v w :: "'a::len word"
  by (metis Inr_inject parse_uint_to_string)

lemma colon_not_digit: "CHR '':'' \<notin> set (word_to_string w)"
  using nat_to_string_digits [of "CHR '':''"] by (auto simp: word_to_string_def to_digit_def)

lemma host_port_inject [simp]: "host_port h p = host_port h q \<longleftrightarrow> p = q"
  by (simp add: host_port_def)

text \<open>Below 4436 nodes the peer-to-peer addresses of a testnet are distinct and meet no service port.\<close>

lemma p2p_offsets_free:
  assumes "unat i < 4436"
  shows "P2P_BASE + i \<notin> {RPC_PORT, GRPC_PORT, SERVICES_RPC, FAUCET_PORT, EXPLORER_PORT, WEBHOOKS_PORT}"
    "p2p_local_offset i = p2p_local_offset j \<longleftrightarrow> i = j"
proof -
  have "unat (P2P_BASE + i) = 61100 + unat i" using assms by (simp add: unat_add_exact P2P_BASE_def)
  then have "P2P_BASE + i \<noteq> p" if "unat p < 61100" for p using that by auto
  then show "P2P_BASE + i \<notin> {RPC_PORT, GRPC_PORT, SERVICES_RPC, FAUCET_PORT, EXPLORER_PORT, WEBHOOKS_PORT}"
    by (simp add: RPC_PORT_def GRPC_PORT_def SERVICES_RPC_def FAUCET_PORT_def EXPLORER_PORT_def WEBHOOKS_PORT_def)
  show "p2p_local_offset i = p2p_local_offset j \<longleftrightarrow> i = j" by (simp add: p2p_local_offset_def)
qed

lemma rsplit_host_port: "rsplit_once (CHR '':'') (host_port h p) = Some (h, word_to_string p)"
proof -
  have "takeWhile (\<lambda>x. x \<noteq> CHR '':'') (rev (host_port h p)) = rev (word_to_string p)"
  proof -
    have "takeWhile (\<lambda>x. x \<noteq> CHR '':'') (rev (word_to_string p) @ CHR '':'' # rev h) =
        rev (word_to_string p) @ takeWhile (\<lambda>x. x \<noteq> CHR '':'') (CHR '':'' # rev h)"
      using colon_not_digit [of p] by (intro takeWhile_append2) auto
    then show ?thesis by (simp add: host_port_def)
  qed
  then show ?thesis by (simp add: rsplit_once_def host_port_def)
qed

text \<open>
  The local testnet is consistent whatever host it binds to: the faucet's key signs for the faucet account
  that the genesis funds and that is the only validator, and services
  on the host reach the RPC server at its port on the loopback address.
\<close>

theorem testnet_local_consistent:
  assumes "dalek_ok E"
  shows "\<exists>c kp. testnet_local E env = Inr c \<and> tn_faucet_keypair E c = Inr kp
       \<and> tn_faucet_address c = Some (from_public_key_hash (hash_bytes E (kp_public kp)))
       \<and> om_get (combined_allocations c) (from_public_key_hash (hash_bytes E (kp_public kp))) = Some (Account_new 1000000000 0)
       \<and> tn_validators c = [from_public_key_hash (hash_bytes E (kp_public kp))]
       \<and> tn_rpc_internal_url c = rpc_internal_url
       \<and> (\<forall>msg. \<exists>sig. ed25519_sign E (kp_secret kp) msg = Inr sig \<and> ed25519_verify E (kp_public kp) msg sig = Inr ())"
proof -
  define kp where "kp = keypair_of_secret E (blake3_hash E LOCAL_FAUCET_SEED)"
  have seed: "keypair_from_seed E LOCAL_FAUCET_SEED = Inr kp" by (simp add: keypair_from_seed_def kp_def)
  obtain c where c: "testnet_local E env = Inr c"
    "tn_faucet_accounts c = [(from_public_key_hash (hash_bytes E (kp_public kp)), Account_new 1000000000 0)]"
    "tn_validators c = [from_public_key_hash (hash_bytes E (kp_public kp))]" "tn_rpc_listen c = host_port (bind_host env) RPC_PORT"
    by (simp add: testnet_local_def seed Let_def)
  have "kp_secret kp = bytes_of (blake3_hash E LOCAL_FAUCET_SEED)" by (simp add: kp_def keypair_of_secret_def)
  then have "\<exists>sig. ed25519_sign E (kp_secret kp) msg = Inr sig \<and> ed25519_verify E (kp_public kp) msg sig = Inr ()" for msg
    using ed25519_sign_verify [OF assms] kp_def by auto
  moreover have "tn_rpc_internal_url c = rpc_internal_url"
    by (simp add: tn_rpc_internal_url_def c(4) rsplit_host_port rpc_internal_url_def) (simp add: host_port_def)
  ultimately show ?thesis
    using c by (auto simp: tn_faucet_keypair_def seed tn_faucet_address_def combined_allocations_def)
qed

end
