(* ===== verification/Genesis.thy ===== *)
theory Genesis
  imports Consensus Network Ports
begin

text \<open>
  Model of the configuration side of src/node/pemrix-node: genesis.rs, config.rs, keys.rs, bootstrap.rs, error.rs
  and the parts of node.rs and testnet.rs that read and write the data directory. The disk is a map from paths to contents
  with a predicate that says which paths can be written; serde_json and the address parser of the
  standard library are parameters, and so are the clock and the random generator.
\<close>

section \<open>Errors and files\<close>

datatype NodeError =
    Config string
  | NodeStorage StorageError
  | NodeConsensus
  | NodeRpc
  | NodeNetwork
  | NodeCrypto
  | NodeIo

record disk =
  dk_files :: "string \<rightharpoonup> string"
  dk_writable :: "string \<Rightarrow> bool"

definition path_join :: "string \<Rightarrow> string \<Rightarrow> string" where
  "path_join dir name = (if dir = [] then name else if last dir = CHR ''/'' then dir @ name else dir @ ''/'' @ name)"

definition create_dir_all :: "string \<Rightarrow> (disk, NodeError, unit) action" where
  "create_dir_all dir = (\<lambda>d. if dk_writable d dir then (Inr (), d) else (Inl NodeIo, d))"

definition fs_write :: "string \<Rightarrow> string \<Rightarrow> (disk, NodeError, unit) action" where
  "fs_write path contents = (\<lambda>d.
     if dk_writable d path then (Inr (), d\<lparr>dk_files := (dk_files d)(path \<mapsto> contents)\<rparr>) else (Inl NodeIo, d))"

definition read_to_string :: "string \<Rightarrow> disk \<Rightarrow> NodeError + string" where
  "read_to_string path d = ok_or NodeIo (dk_files d path)"

section \<open>Genesis\<close>

record GenesisConfig =
  gc_chain_id :: string
  gc_timestamp :: u64
  gc_allocations :: "(address, Account) omap"
  gc_validators :: "address list"

definition default_genesis :: GenesisConfig where
  "default_genesis = \<lparr>gc_chain_id = ''pemrix-local'', gc_timestamp = 0, gc_allocations = om_empty, gc_validators = []\<rparr>"

definition local_development :: "u64 \<Rightarrow> (address \<times> balance) list \<Rightarrow> GenesisConfig" where
  "local_development now funded =
     \<lparr>gc_chain_id = ''pemrix-local'', gc_timestamp = now,
      gc_allocations = fold (\<lambda>(a, b). om_insert a (Account_new b 0)) funded om_empty, gc_validators = []\<rparr>"

fun seed_accounts :: "'b StateBackend \<Rightarrow> (address \<times> Account) list \<Rightarrow> ('b, NodeError, unit) action" where
  "seed_accounts B [] = act_return ()"
| "seed_accounts B ((a, x) # xs) =
     act_bind (act_map_err NodeStorage (set_account B a x)) (\<lambda>_. seed_accounts B xs)"

definition first_validator :: "GenesisConfig \<Rightarrow> address" where
  "first_validator g = (case gc_validators g of [] \<Rightarrow> zero32 | v # _ \<Rightarrow> v)"

definition genesis_block :: "externs \<Rightarrow> GenesisConfig \<Rightarrow> NodeError + Block" where
  "genesis_block E g =
     (case seed_accounts (im_backend E) (om_entries (gc_allocations g)) InMemoryBackend_new of
        (Inl e, _) \<Rightarrow> Inl e
      | (Inr _, state) \<Rightarrow>
          bind_result (map_err NodeStorage (store_state_root (im_backend E) state)) (\<lambda>root.
          Inr \<lparr>blk_header = \<lparr>bh_height = 0, bh_timestamp = gc_timestamp g, bh_previous_hash = zero32, bh_state_root = root,
                 bh_tx_root = hash_bytes E [], bh_proposer = first_validator g\<rparr>,
               blk_body = \<lparr>bb_transactions = []\<rparr>\<rparr>))"

section \<open>Node configuration\<close>

record 'addr NodeConfig =
  nc_data_dir :: string
  nc_rpc_listen :: string
  nc_p2p_listen :: string
  nc_validator :: bool
  nc_bootstrap_nodes :: "(PeerId, 'addr) omap"
  nc_validator_set :: "ValidatorSet option"
  nc_local_validator_address :: "address option"

definition single_validator_set :: "address \<Rightarrow> ValidatorSet" where
  "single_validator_set a = from_validators [Validator_new a 1]"

definition default_node_config :: "'addr NodeConfig" where
  "default_node_config =
     \<lparr>nc_data_dir = ''./pemrix-data'', nc_rpc_listen = rpc_local, nc_p2p_listen = p2p_default, nc_validator = False,
      nc_bootstrap_nodes = om_empty, nc_validator_set = None, nc_local_validator_address = None\<rparr>"

definition for_data_dir :: "string \<Rightarrow> 'addr NodeConfig" where
  "for_data_dir dir = default_node_config\<lparr>nc_data_dir := dir\<rparr>"

record ValidatorKeyFile =
  vk_address :: string
  vk_public_key :: string
  vk_secret_key :: string

text \<open>\<open>to_string_pretty\<close> and \<open>from_str\<close> at the three file types; \<open>Inl\<close> is the printed error. The last field is the
  standard library's parser for socket addresses.\<close>

record 'addr files =
  print_genesis :: "GenesisConfig \<Rightarrow> string + string"
  scan_genesis :: "string \<Rightarrow> string + GenesisConfig"
  print_config :: "'addr NodeConfig \<Rightarrow> string + string"
  scan_config :: "string \<Rightarrow> string + 'addr NodeConfig"
  print_key :: "ValidatorKeyFile \<Rightarrow> string + string"
  scan_key :: "string \<Rightarrow> string + ValidatorKeyFile"
  parse_socket :: "string \<Rightarrow> 'addr option"

definition genesis_save :: "'addr files \<Rightarrow> string \<Rightarrow> GenesisConfig \<Rightarrow> (disk, NodeError, unit) action" where
  "genesis_save F dir g =
     act_bind (create_dir_all dir) (\<lambda>_.
     act_bind (act_lift (map_err Config (print_genesis F g))) (\<lambda>contents.
     fs_write (path_join dir ''genesis.json'') contents))"

definition genesis_load :: "'addr files \<Rightarrow> string \<Rightarrow> disk \<Rightarrow> NodeError + GenesisConfig" where
  "genesis_load F dir d =
     bind_result (read_to_string (path_join dir ''genesis.json'') d) (\<lambda>contents.
     map_err Config (scan_genesis F contents))"

definition config_load :: "'addr files \<Rightarrow> string \<Rightarrow> disk \<Rightarrow> NodeError + 'addr NodeConfig" where
  "config_load F dir d =
     (let path = path_join dir ''node.json'' in
      if dk_files d path \<noteq> None then
        bind_result (read_to_string path d) (\<lambda>contents. map_err Config (scan_config F contents))
      else Inr (for_data_dir dir))"

definition config_save :: "'addr files \<Rightarrow> 'addr NodeConfig \<Rightarrow> (disk, NodeError, unit) action" where
  "config_save F c =
     act_bind (create_dir_all (nc_data_dir c)) (\<lambda>_.
     act_bind (act_lift (map_err Config (print_config F c))) (\<lambda>contents.
     fs_write (path_join (nc_data_dir c) ''node.json'') contents))"

section \<open>Validator keys\<close>

definition KEY_FILE_NAME :: string where "KEY_FILE_NAME = ''validator_key.json''"

definition from_keypair :: "externs \<Rightarrow> KeyPair \<Rightarrow> ValidatorKeyFile" where
  "from_keypair E kp =
     \<lparr>vk_address = Address_to_string E (from_public_key_hash (hash_bytes E (kp_public kp))),
      vk_public_key = hex_encode E (kp_public kp), vk_secret_key = hex_encode E (kp_secret kp)\<rparr>"

text \<open>The printed hex errors are not part of the model of the hex crate: the message stops at its prefix.\<close>

definition to_keypair :: "externs \<Rightarrow> ValidatorKeyFile \<Rightarrow> NodeError + KeyPair" where
  "to_keypair E k =
     bind_result (ok_or (Config ''invalid public key hex: '') (hex_decode E (vk_public_key k))) (\<lambda>public.
     bind_result (ok_or (Config ''invalid secret key hex: '') (hex_decode E (vk_secret_key k))) (\<lambda>secret.
     Inr \<lparr>kp_public = public, kp_secret = secret\<rparr>))"

definition key_address :: "externs \<Rightarrow> ValidatorKeyFile \<Rightarrow> NodeError + address" where
  "key_address E k = map_err (\<lambda>e. Config (''invalid validator address: '' @ e)) (Address_from_str E (vk_address k))"

definition node_generate_keypair :: "externs \<Rightarrow> bytes32 \<Rightarrow> NodeError + KeyPair" where
  "node_generate_keypair E rng = map_err (\<lambda>_. NodeCrypto) (ed25519_generate_keypair E rng)"

definition generate_and_save :: "externs \<Rightarrow> 'addr files \<Rightarrow> bytes32 \<Rightarrow> string \<Rightarrow> (disk, NodeError, ValidatorKeyFile) action" where
  "generate_and_save E F rng dir =
     act_bind (create_dir_all dir) (\<lambda>_.
     act_bind (act_lift (node_generate_keypair E rng)) (\<lambda>keypair.
     let key_file = from_keypair E keypair in
     act_bind (act_lift (map_err Config (print_key F key_file))) (\<lambda>contents.
     act_bind (fs_write (path_join dir KEY_FILE_NAME) contents) (\<lambda>_.
     act_return key_file))))"

definition key_load :: "'addr files \<Rightarrow> string \<Rightarrow> disk \<Rightarrow> NodeError + ValidatorKeyFile" where
  "key_load F dir d =
     bind_result (read_to_string (path_join dir KEY_FILE_NAME) d) (\<lambda>contents.
     map_err (\<lambda>e. Config (''failed to parse validator key file: '' @ e)) (scan_key F contents))"

definition key_status :: "'addr files \<Rightarrow> string \<Rightarrow> disk \<Rightarrow> NodeError + string" where
  "key_status F dir d =
     (let path = path_join dir KEY_FILE_NAME in
      if dk_files d path = None then
        Inr (''No validator key found at '' @ path @ ''. Run `pemrix init --validator` to create one.'')
      else
        bind_result (key_load F dir d) (\<lambda>k.
        Inr (''Validator key found at '' @ path @ [CHR 0x0A] @ ''Address: '' @ vk_address k @ [CHR 0x0A] @
             ''Public key: '' @ vk_public_key k @ [CHR 0x0A] @ ''Secret key: [stored in file - protect it]'')))"

section \<open>Initialising and starting a node\<close>

definition node_init :: "'addr files \<Rightarrow> u64 \<Rightarrow> string \<Rightarrow> bool \<Rightarrow> (disk, NodeError, unit) action" where
  "node_init F now dir validator =
     act_bind (create_dir_all dir) (\<lambda>_.
     act_bind (config_save F ((for_data_dir dir)\<lparr>nc_validator := validator\<rparr>)) (\<lambda>_.
     genesis_save F dir (local_development now [])))"

datatype ('addr) start_mode = StartBft "'addr NodeConfig" GenesisConfig | StartSolo "'addr NodeConfig" GenesisConfig

definition node_start :: "externs \<Rightarrow> 'addr files \<Rightarrow> string \<Rightarrow> disk \<Rightarrow> NodeError + 'addr start_mode" where
  "node_start E F dir d =
     bind_result (config_load F dir d) (\<lambda>config.
     bind_result (genesis_load F dir d) (\<lambda>genesis.
     bind_result
       (if nc_validator config then
          bind_result (key_load F dir d) (\<lambda>key_file.
          bind_result (key_address E key_file) (\<lambda>local_address.
          let config = config\<lparr>nc_local_validator_address := Some local_address\<rparr> in
          Inr (if nc_validator_set config = None
               then config\<lparr>nc_validator_set := Some (single_validator_set local_address)\<rparr> else config)))
        else Inr config) (\<lambda>config.
     Inr (if nc_validator_set config \<noteq> None \<and> nc_local_validator_address config \<noteq> None
          then StartBft config genesis else StartSolo config genesis))))"

definition start_validator :: "externs \<Rightarrow> 'addr files \<Rightarrow> string \<Rightarrow> (disk, NodeError, 'addr start_mode) action" where
  "start_validator E F dir =
     act_bind (act_query (config_load F dir)) (\<lambda>config.
     act_bind (config_save F (config\<lparr>nc_validator := True\<rparr>)) (\<lambda>_.
     act_query (node_start E F dir)))"

definition node_status :: "'addr files \<Rightarrow> string \<Rightarrow> disk \<Rightarrow> NodeError + string" where
  "node_status F dir d =
     bind_result (config_load F dir d) (\<lambda>config.
     bind_result (genesis_load F dir d) (\<lambda>genesis.
     Inr (''PEMRIX Node Status'' @ [CHR 0x0A] @ ''Chain ID: '' @ gc_chain_id genesis @ [CHR 0x0A] @
          ''Data Directory: '' @ nc_data_dir config @ [CHR 0x0A] @
          ''Validator: '' @ (if nc_validator config then ''true'' else ''false'') @ [CHR 0x0A] @
          ''RPC: '' @ nc_rpc_listen config @ [CHR 0x0A] @ ''P2P: '' @ nc_p2p_listen config)))"

section \<open>Bootstrapping a network\<close>

record BootstrapValidator =
  bv_address :: address
  bv_p2p :: string
  bv_name :: "string option"

definition unit_validator_set :: "address list \<Rightarrow> ValidatorSet" where
  "unit_validator_set as = from_validators (map (\<lambda>a. Validator_new a 1) as)"

definition bootstrap_allocations :: "BootstrapValidator list \<Rightarrow> (address \<times> balance) list \<Rightarrow> (address, Account) omap" where
  "bootstrap_allocations vs allocations =
     fold (\<lambda>v m. if om_contains m (bv_address v) then m else om_insert (bv_address v) (Account_new 1000000 0) m) vs
       (fold (\<lambda>(a, b). om_insert a (Account_new b 0)) allocations om_empty)"

definition peer_id_of :: "externs \<Rightarrow> address \<Rightarrow> PeerId" where
  "peer_id_of E a = PeerId_from_public_key_hash (hash_bytes E (bytes_of a))"

fun socket_addrs :: "'addr files \<Rightarrow> BootstrapValidator list \<Rightarrow> NodeError + (address \<times> 'addr) list" where
  "socket_addrs F [] = Inr []"
| "socket_addrs F (v # vs) =
     bind_result (ok_or (Config (''invalid p2p address: '' @ bv_p2p v)) (parse_socket F (bv_p2p v))) (\<lambda>addr.
     bind_result (socket_addrs F vs) (\<lambda>rest. Inr ((bv_address v, addr) # rest)))"

text \<open>The entry of the previous validator in the chain; indexing a map panics for a missing key, which cannot happen
  here because the map has every validator.\<close>

definition bootstrap_peers ::
    "externs \<Rightarrow> BootstrapValidator list \<Rightarrow> (address, 'addr) omap \<Rightarrow> nat \<Rightarrow> (PeerId, 'addr) omap" where
  "bootstrap_peers E vs p2p_addrs i =
     (if i > 0 then
        let peer = vs ! (i - 1) in
        (case om_get p2p_addrs (bv_address peer) of
           Some addr \<Rightarrow> om_insert (peer_id_of E (bv_address peer)) addr om_empty
         | None \<Rightarrow> om_empty)
      else om_empty)"

definition bootstrap_config ::
    "externs \<Rightarrow> BootstrapValidator list \<Rightarrow> (address, 'addr) omap \<Rightarrow> string \<Rightarrow> nat \<Rightarrow> 'addr NodeConfig" where
  "bootstrap_config E vs p2p_addrs out i =
     \<lparr>nc_data_dir = path_join out (''validator-'' @ nat_to_string i), nc_rpc_listen = rpc_public,
      nc_p2p_listen = bv_p2p (vs ! i), nc_validator = True, nc_bootstrap_nodes = bootstrap_peers E vs p2p_addrs i,
      nc_validator_set = Some (unit_validator_set (map bv_address vs)),
      nc_local_validator_address = Some (bv_address (vs ! i))\<rparr>"

fun save_configs :: "'addr files \<Rightarrow> 'addr NodeConfig list \<Rightarrow> (disk, NodeError, unit) action" where
  "save_configs F [] = act_return ()"
| "save_configs F (c # cs) =
     act_bind (create_dir_all (nc_data_dir c)) (\<lambda>_.
     act_bind (config_save F c) (\<lambda>_. save_configs F cs))"

definition bootstrap_genesis ::
    "u64 \<Rightarrow> string \<Rightarrow> BootstrapValidator list \<Rightarrow> (address \<times> balance) list \<Rightarrow> GenesisConfig" where
  "bootstrap_genesis now chain_id vs allocations =
     \<lparr>gc_chain_id = chain_id, gc_timestamp = now, gc_allocations = bootstrap_allocations vs allocations,
      gc_validators = map bv_address vs\<rparr>"

definition bootstrap_bft_network ::
    "externs \<Rightarrow> 'addr files \<Rightarrow> u64 \<Rightarrow> string \<Rightarrow> BootstrapValidator list \<Rightarrow> (address \<times> balance) list \<Rightarrow> string
       \<Rightarrow> (disk, NodeError, unit) action" where
  "bootstrap_bft_network E F now chain_id vs allocations out =
     (if length vs < 2 then act_throw (Config ''BFT network requires at least 2 validators'')
      else
        act_bind (create_dir_all out) (\<lambda>_.
        act_bind (genesis_save F out (bootstrap_genesis now chain_id vs allocations)) (\<lambda>_.
        act_bind (act_lift (socket_addrs F vs)) (\<lambda>addrs.
        let p2p_addrs = fold (\<lambda>(a, addr). om_insert a addr) addrs om_empty in
        save_configs F (map (bootstrap_config E vs p2p_addrs out) [0..<length vs])))))"

fun manifest_from_key_files ::
    "externs \<Rightarrow> 'addr files \<Rightarrow> (string \<times> string) list \<Rightarrow> disk \<Rightarrow> NodeError + BootstrapValidator list" where
  "manifest_from_key_files E F [] d = Inr []"
| "manifest_from_key_files E F ((path, p2p) # rest) d =
     bind_result (ok_or (Config (''failed to read '' @ path @ '': '')) (dk_files d path)) (\<lambda>contents.
     bind_result (map_err (\<lambda>e. Config (''failed to parse '' @ path @ '': '' @ e)) (scan_key F contents)) (\<lambda>key_file.
     bind_result (key_address E key_file) (\<lambda>a.
     bind_result (manifest_from_key_files E F rest d) (\<lambda>vs.
     Inr (\<lparr>bv_address = a, bv_p2p = p2p, bv_name = None\<rparr> # vs)))))"

section \<open>The genesis state\<close>

text \<open>Seeding a backend with allocations leaves the accounts of the allocations and no raw entries.\<close>

lemma seed_accounts_im:
  "\<exists>s'. seed_accounts (im_backend E) xs s = (Inr (), s') \<and> om_get (im_accounts s') = om_get (im_accounts s) ++ map_of (rev xs)
     \<and> im_raw s' = im_raw s"
proof (induction xs arbitrary: s)
  case (Cons p xs)
  then show ?case
    by (cases p) (force simp: act_run set_account_def im_backend_def im_put_account_def map_add_def fun_eq_iff split: option.split)
qed simp

lemma seed_entries_im:
  "\<exists>s'. seed_accounts (im_backend E) (om_entries m) InMemoryBackend_new = (Inr (), s') \<and> im_accounts s' = m \<and> im_raw s' = om_empty"
proof -
  obtain s' where s': "seed_accounts (im_backend E) (om_entries m) InMemoryBackend_new = (Inr (), s')"
    "om_get (im_accounts s') = map_of (rev (om_entries m))" "im_raw s' = om_empty"
    using seed_accounts_im [of E "om_entries m" InMemoryBackend_new] by (auto simp: InMemoryBackend_new_def)
  have "distinct (map fst (om_entries m))" using om_keys_distinct [of m] by (simp add: om_keys_def)
  then have "map_of (rev (om_entries m)) = om_get m" by (simp add: om_get_def map_of_inject_set rev_map [symmetric])
  with s' show ?thesis by (auto intro: om_eqI)
qed

text \<open>
  The genesis block of a configuration. For allocations that fit a balance, the genesis block exists, has height zero and no predecessor, and its
  state root is the root of a fresh in-memory store after the allocations were written to it; in that store the ledger's value is the sum of the
  allocations and the invariant of the conservation theorem holds.
\<close>

theorem genesis_state_agrees:
  assumes "sum_list (map (unat \<circ> acc_balance) (om_values (gc_allocations g))) < 2 ^ 128"
  shows "\<exists>b s. genesis_block E g = Inr b \<and> bh_height (blk_header b) = 0 \<and> bh_previous_hash (blk_header b) = zero32
       \<and> seed_accounts (im_backend E) (om_entries (gc_allocations g)) InMemoryBackend_new = (Inr (), s)
       \<and> store_state_root (im_backend E) s = Inr (bh_state_root (blk_header b))
       \<and> im_ok E s \<and> ledger_ok (im_ledger E s) \<and> lg_acct (im_ledger E s) = om_get (gc_allocations g)
       \<and> wealth (im_ledger E s) = sum_list (map (unat \<circ> acc_balance) (om_values (gc_allocations g)))"
proof -
  obtain s where s: "seed_accounts (im_backend E) (om_entries (gc_allocations g)) InMemoryBackend_new = (Inr (), s)"
    "im_accounts s = gc_allocations g" "im_raw s = om_empty"
    using seed_entries_im by blast
  obtain root where root: "store_state_root (im_backend E) s = Inr root"
    by (simp add: store_state_root_def im_backend_def im_state_root_def)
  have ledger: "im_ledger E s = ledger_view E (om_get (gc_allocations g)) Map.empty" by (simp add: im_ledger_def s)
  have "im_ok E s" by (simp add: im_ok_def im_inv_def s)
  then show ?thesis
    using s(1) root ledger_ok_accounts [OF assms, of E] by (simp add: genesis_block_def ledger)
qed

section \<open>The data directory\<close>

text \<open>serde_json reads back the value it has printed.\<close>

definition genesis_file_ok :: "'addr files \<Rightarrow> GenesisConfig \<Rightarrow> bool" where
  "genesis_file_ok F g \<longleftrightarrow> (\<exists>str. print_genesis F g = Inr str \<and> scan_genesis F str = Inr g)"

definition config_file_ok :: "'addr files \<Rightarrow> 'addr NodeConfig \<Rightarrow> bool" where
  "config_file_ok F c \<longleftrightarrow> (\<exists>str. print_config F c = Inr str \<and> scan_config F str = Inr c)"

definition key_file_ok :: "'addr files \<Rightarrow> ValidatorKeyFile \<Rightarrow> bool" where
  "key_file_ok F k \<longleftrightarrow> (\<exists>str. print_key F k = Inr str \<and> scan_key F str = Inr k)"

lemma path_join_inject [simp]: "path_join dir a = path_join dir b \<longleftrightarrow> a = b"
  by (simp add: path_join_def)

lemma config_load_cong:
  "dk_files d (path_join dir ''node.json'') = dk_files d' (path_join dir ''node.json'') \<Longrightarrow> config_load F dir d = config_load F dir d'"
  by (simp add: config_load_def read_to_string_def Let_def)

lemma genesis_load_cong:
  "dk_files d (path_join dir ''genesis.json'') = dk_files d' (path_join dir ''genesis.json'') \<Longrightarrow> genesis_load F dir d = genesis_load F dir d'"
  by (simp add: genesis_load_def read_to_string_def)

lemma run_create_dir: "create_dir_all dir d = (if dk_writable d dir then (Inr (), d) else (Inl NodeIo, d))"
  by (simp add: create_dir_all_def)

lemma genesis_save_load:
  assumes "genesis_file_ok F g" "genesis_save F dir g d = (Inr (), d')"
  shows "genesis_load F dir d' = Inr g" "dk_files d' p = (if p = path_join dir ''genesis.json'' then dk_files d' p else dk_files d p)"
    "dk_writable d' = dk_writable d"
proof -
  obtain str where "print_genesis F g = Inr str" "scan_genesis F str = Inr g" using assms(1) unfolding genesis_file_ok_def by blast
  with assms(2) show "genesis_load F dir d' = Inr g"
    "dk_files d' p = (if p = path_join dir ''genesis.json'' then dk_files d' p else dk_files d p)" "dk_writable d' = dk_writable d"
    by (auto simp: genesis_save_def act_run run_create_dir fs_write_def genesis_load_def read_to_string_def split: if_splits)
qed

lemma config_save_load:
  assumes "config_file_ok F c" "config_save F c d = (Inr (), d')"
  shows "config_load F (nc_data_dir c) d' = Inr c"
    "dk_files d' p = (if p = path_join (nc_data_dir c) ''node.json'' then dk_files d' p else dk_files d p)"
    "dk_writable d' = dk_writable d"
proof -
  obtain str where "print_config F c = Inr str" "scan_config F str = Inr c" using assms(1) unfolding config_file_ok_def by blast
  with assms(2) show "config_load F (nc_data_dir c) d' = Inr c"
    "dk_files d' p = (if p = path_join (nc_data_dir c) ''node.json'' then dk_files d' p else dk_files d p)"
    "dk_writable d' = dk_writable d"
    by (auto simp: config_save_def act_run run_create_dir fs_write_def config_load_def read_to_string_def Let_def split: if_splits)
qed

lemma key_save_load:
  assumes "key_file_ok F (from_keypair E (keypair_of_secret E rng))" "generate_and_save E F rng dir d = (Inr k, d')"
  shows "key_load F dir d' = Inr k" "k = from_keypair E (keypair_of_secret E rng)"
    "dk_files d' p = (if p = path_join dir KEY_FILE_NAME then dk_files d' p else dk_files d p)"
proof -
  let ?k = "from_keypair E (keypair_of_secret E rng)"
  obtain str where "print_key F ?k = Inr str" "scan_key F str = Inr ?k" using assms(1) unfolding key_file_ok_def by blast
  with assms(2) show "key_load F dir d' = Inr k" "k = from_keypair E (keypair_of_secret E rng)"
    "dk_files d' p = (if p = path_join dir KEY_FILE_NAME then dk_files d' p else dk_files d p)"
    by (auto simp: generate_and_save_def act_run run_create_dir fs_write_def key_load_def read_to_string_def Let_def
        node_generate_keypair_def ed25519_generate_keypair_def split: if_splits)
qed

text \<open>
  C29. The data directory round trip: after \<open>init\<close> a node loads the configuration and the genesis that were written;
  without validator mode it starts the solo engine, and with validator mode and a generated key it starts the BFT engine as
  the only member of its committee, under the address of the key in the file.
\<close>

theorem init_then_start:
  assumes "config_file_ok F ((for_data_dir dir)\<lparr>nc_validator := validator\<rparr>)" "genesis_file_ok F (local_development now [])"
    and "key_file_ok F (from_keypair E (keypair_of_secret E rng))"
    and "hex_ok E" "node_init F now dir validator d0 = (Inr (), d1)"
    and "generate_and_save E F rng dir d1 = (Inr k, d2)"
  shows "(\<not> validator \<longrightarrow> node_start E F dir d1 =
            Inr (StartSolo ((for_data_dir dir)\<lparr>nc_validator := False\<rparr>) (local_development now [])))
       \<and> (validator \<longrightarrow> (\<exists>c a. node_start E F dir d2 = Inr (StartBft c (local_development now []))
            \<and> nc_local_validator_address c = Some a \<and> nc_validator_set c = Some (single_validator_set a)
            \<and> a = from_public_key_hash (hash_bytes E (kp_public (keypair_of_secret E rng)))
            \<and> to_keypair E k = Inr (keypair_of_secret E rng)))"
proof -
  let ?c = "(for_data_dir dir)\<lparr>nc_validator := validator\<rparr>"
  obtain d where save: "config_save F ?c d0 = (Inr (), d)" "genesis_save F dir (local_development now []) d = (Inr (), d1)"
    using assms(5) by (auto simp: node_init_def act_run run_create_dir split: if_splits prod.splits sum.splits)
  note cfg = config_save_load [OF assms(1) save(1)] and gen = genesis_save_load [OF assms(2) save(2)]
    and key = key_save_load [OF assms(3,6)]
  have dir: "nc_data_dir ?c = dir" by (simp add: for_data_dir_def)
  have "dk_files d1 (path_join dir ''node.json'') = dk_files d (path_join dir ''node.json'')"
    using gen(2) [of "path_join dir ''node.json''"] by simp
  then have c1: "config_load F dir d1 = Inr ?c" using cfg(1) config_load_cong dir by metis
  have same: "dk_files d2 (path_join dir n) = dk_files d1 (path_join dir n)" if "n \<noteq> KEY_FILE_NAME" for n
    using key(3) [of "path_join dir n"] that by simp
  have c2: "config_load F dir d2 = Inr ?c" "genesis_load F dir d2 = Inr (local_development now [])"
    using c1 gen(1) config_load_cong [OF same, of F] genesis_load_cong [OF same, of F] by (simp_all add: KEY_FILE_NAME_def)
  have "node_start E F dir d1 = Inr (StartSolo ((for_data_dir dir)\<lparr>nc_validator := False\<rparr>) (local_development now []))"
    if "\<not> validator"
    using that c1 gen(1) by (simp add: node_start_def for_data_dir_def default_node_config_def)
  moreover have "\<exists>c a. node_start E F dir d2 = Inr (StartBft c (local_development now []))
      \<and> nc_local_validator_address c = Some a \<and> nc_validator_set c = Some (single_validator_set a)
      \<and> a = from_public_key_hash (hash_bytes E (kp_public (keypair_of_secret E rng)))" if "validator"
    using that c2 key(1,2)
    by (simp add: node_start_def for_data_dir_def default_node_config_def key_address_def from_keypair_def
        Address_roundtrip [OF assms(4)] Let_def)
  moreover have "to_keypair E k = Inr (keypair_of_secret E rng)"
    using assms(4) by (simp add: key(2) to_keypair_def from_keypair_def hex_ok_def)
  ultimately show ?thesis by blast
qed

section \<open>Witnesses\<close>

theorem genesis_state_agrees_witness:
  "\<exists>b s. genesis_block demo_externs (local_development 0 [(demo_address, 7)]) = Inr b \<and>
     store_state_root (im_backend demo_externs) s = Inr (bh_state_root (blk_header b)) \<and> wealth (im_ledger demo_externs s) = 7"
  using genesis_state_agrees [of "local_development 0 [(demo_address, 7)]" demo_externs]
  by (auto simp: local_development_def om_values_def om_insert.rep_eq om_empty.rep_eq Account_new_def)

definition demo_files :: "unit files" where
  "demo_files =
     \<lparr>print_genesis = (\<lambda>_. Inr ''g''), scan_genesis = (\<lambda>_. Inr (local_development 0 [])),
      print_config = (\<lambda>_. Inr ''c''), scan_config = (\<lambda>_. Inr ((for_data_dir ''x'')\<lparr>nc_validator := True\<rparr>)),
      print_key = (\<lambda>_. Inr ''k''), scan_key = (\<lambda>_. Inr (from_keypair demo_externs (keypair_of_secret demo_externs zero32))),
      parse_socket = (\<lambda>_. Some ())\<rparr>"

definition demo_disk :: disk where "demo_disk = \<lparr>dk_files = Map.empty, dk_writable = (\<lambda>_. True)\<rparr>"

theorem init_then_start_witness:
  "\<exists>d1 k d2 c. node_init demo_files 0 ''x'' True demo_disk = (Inr (), d1) \<and>
     generate_and_save demo_externs demo_files zero32 ''x'' d1 = (Inr k, d2) \<and>
     node_start demo_externs demo_files ''x'' d2 = Inr (StartBft c (local_development 0 []))"
proof -
  obtain d1 where d1: "node_init demo_files 0 ''x'' True demo_disk = (Inr (), d1)" "dk_writable d1 = (\<lambda>_. True)"
    by (simp add: node_init_def act_run run_create_dir config_save_def genesis_save_def fs_write_def demo_disk_def demo_files_def)
  obtain k d2 where d2: "generate_and_save demo_externs demo_files zero32 ''x'' d1 = (Inr k, d2)"
    by (simp add: generate_and_save_def act_run run_create_dir fs_write_def d1(2) Let_def node_generate_keypair_def
        ed25519_generate_keypair_def demo_files_def)
  have "config_file_ok demo_files ((for_data_dir ''x'')\<lparr>nc_validator := True\<rparr>)"
    "genesis_file_ok demo_files (local_development 0 [])"
    "key_file_ok demo_files (from_keypair demo_externs (keypair_of_secret demo_externs zero32))"
    by (simp_all add: config_file_ok_def genesis_file_ok_def key_file_ok_def demo_files_def)
  from init_then_start [OF this demo_hex_ok d1(1) d2] show ?thesis using d1(1) d2 by blast
qed

end
