(* ===== verification/Rpc.thy ===== *)
theory Rpc
  imports Ledger Parse
begin

text \<open>
  Model of src/crates/pemrix-rpc: the state shared by the REST and gRPC servers, the REST handlers with the
  admission check for transactions, the gRPC service and the test handler. Routing, sockets and the
  rendering of answers are axum and tonic; a handler is the function of the state and its decoded
  arguments, and what it returns is the value passed to \<open>Json\<close> or \<open>Response\<close>. The hash maps are never
  iterated here, so they are partial maps.
\<close>

section \<open>Types\<close>

datatype StatusCode =
    HTTP_OK | HTTP_CREATED | HTTP_NO_CONTENT | BAD_REQUEST | PAYMENT_REQUIRED | NOT_FOUND | CONFLICT
  | TOO_MANY_REQUESTS | METHOD_NOT_ALLOWED | INTERNAL_SERVER_ERROR

record BalanceResponse =
  br_address :: address
  br_balance :: balance

record 'v BlockResponse =
  blr_hash :: hash
  blr_height :: u64
  blr_payload :: 'v

record 'v TransactionResponse =
  tr_hash :: hash
  tr_status :: string
  tr_payload :: 'v

record NonceResponse =
  nr_address :: address
  nr_nonce :: u64

record ValidatorResponse =
  vrs_address :: address
  vrs_validator :: ValidatorRecord

record DelegationResponse =
  dr_delegator :: address
  dr_validator :: address
  dr_delegation :: Delegation

record SendTransactionRequest =
  str_transaction :: Transaction

datatype RpcError =
    TransactionNotFound
  | BlockNotFound
  | AccountNotFound
  | InvalidRequest
  | RpcInternal string

text \<open>\<open>serde_json::to_value\<close> (\<open>None\<close> where it fails) and the value \<open>null\<close>.\<close>

record 'v json_values =
  value_block :: "Block \<Rightarrow> 'v option"
  value_tx :: "Transaction \<Rightarrow> 'v option"
  value_null :: 'v

definition unwrap_or_default :: "'v json_values \<Rightarrow> 'v option \<Rightarrow> 'v" where
  "unwrap_or_default J x = (case x of None \<Rightarrow> value_null J | Some v \<Rightarrow> v)"

section \<open>State\<close>

record RpcState =
  rpc_accounts :: "address \<rightharpoonup> Account"
  rpc_blocks :: "u64 \<rightharpoonup> Block"
  rpc_blocks_by_hash :: "hash \<rightharpoonup> Block"
  rpc_transactions :: "hash \<rightharpoonup> Transaction"
  rpc_pending :: "Transaction list"
  rpc_height :: u64
  rpc_validators :: "address \<rightharpoonup> ValidatorRecord"
  rpc_delegations :: "address \<times> address \<rightharpoonup> Delegation"

definition RpcState_new :: RpcState where
  "RpcState_new =
     \<lparr>rpc_accounts = Map.empty, rpc_blocks = Map.empty, rpc_blocks_by_hash = Map.empty,
      rpc_transactions = Map.empty, rpc_pending = [], rpc_height = 0, rpc_validators = Map.empty,
      rpc_delegations = Map.empty\<rparr>"

definition rpc_set_account :: "address \<Rightarrow> Account \<Rightarrow> RpcState \<Rightarrow> RpcState" where
  "rpc_set_account a x s = s\<lparr>rpc_accounts := (rpc_accounts s)(a \<mapsto> x)\<rparr>"

definition rpc_get_account :: "address \<Rightarrow> RpcState \<Rightarrow> Account option" where
  "rpc_get_account a s = rpc_accounts s a"

definition rpc_store_block :: "externs \<Rightarrow> Block \<Rightarrow> RpcState \<Rightarrow> RpcState" where
  "rpc_store_block E b s =
     (let h = block_hash E b; height = bh_height (blk_header b);
          s1 = s\<lparr>rpc_blocks := (rpc_blocks s)(height \<mapsto> b), rpc_blocks_by_hash := (rpc_blocks_by_hash s)(h \<mapsto> b)\<rparr>
      in if height > rpc_height s1 then s1\<lparr>rpc_height := height\<rparr> else s1)"

definition rpc_get_block_by_height :: "u64 \<Rightarrow> RpcState \<Rightarrow> Block option" where
  "rpc_get_block_by_height height s = rpc_blocks s height"

definition rpc_get_block_by_hash :: "hash \<Rightarrow> RpcState \<Rightarrow> Block option" where
  "rpc_get_block_by_hash h s = rpc_blocks_by_hash s h"

definition rpc_store_transaction :: "hash \<Rightarrow> Transaction \<Rightarrow> RpcState \<Rightarrow> RpcState" where
  "rpc_store_transaction h tx s = s\<lparr>rpc_transactions := (rpc_transactions s)(h \<mapsto> tx)\<rparr>"

definition rpc_get_transaction :: "hash \<Rightarrow> RpcState \<Rightarrow> Transaction option" where
  "rpc_get_transaction h s = rpc_transactions s h"

definition rpc_submit_transaction :: "Transaction \<Rightarrow> RpcState \<Rightarrow> RpcState" where
  "rpc_submit_transaction tx s = s\<lparr>rpc_pending := rpc_pending s @ [tx]\<rparr>"

definition rpc_pending_transactions :: "RpcState \<Rightarrow> Transaction list" where
  "rpc_pending_transactions s = rpc_pending s"

definition rpc_set_validator :: "address \<Rightarrow> ValidatorRecord \<Rightarrow> RpcState \<Rightarrow> RpcState" where
  "rpc_set_validator a r s = s\<lparr>rpc_validators := (rpc_validators s)(a \<mapsto> r)\<rparr>"

definition rpc_get_validator :: "address \<Rightarrow> RpcState \<Rightarrow> ValidatorRecord option" where
  "rpc_get_validator a s = rpc_validators s a"

definition rpc_set_delegation :: "address \<Rightarrow> address \<Rightarrow> Delegation \<Rightarrow> RpcState \<Rightarrow> RpcState" where
  "rpc_set_delegation d v x s = s\<lparr>rpc_delegations := (rpc_delegations s)((d, v) \<mapsto> x)\<rparr>"

definition rpc_get_delegation :: "address \<Rightarrow> address \<Rightarrow> RpcState \<Rightarrow> Delegation option" where
  "rpc_get_delegation d v s = rpc_delegations s (d, v)"

definition rpc_delete_delegation :: "address \<Rightarrow> address \<Rightarrow> RpcState \<Rightarrow> RpcState" where
  "rpc_delete_delegation d v s = s\<lparr>rpc_delegations := (rpc_delegations s)((d, v) := None)\<rparr>"

section \<open>REST handlers\<close>

definition CARGO_PKG_VERSION :: string where "CARGO_PKG_VERSION = ''0.1.0''"

definition status_handler :: "RpcState \<Rightarrow> string \<times> u64 \<times> string" where
  "status_handler s = (''ok'', rpc_height s, CARGO_PKG_VERSION)"

definition block_raw_handler :: "u64 \<Rightarrow> RpcState \<Rightarrow> StatusCode + Block" where
  "block_raw_handler height s = ok_or NOT_FOUND (rpc_get_block_by_height height s)"

definition block_by_height_handler :: "externs \<Rightarrow> 'v json_values \<Rightarrow> u64 \<Rightarrow> RpcState \<Rightarrow> StatusCode + 'v BlockResponse" where
  "block_by_height_handler E J height s =
     ok_or NOT_FOUND
       (map_option (\<lambda>b. \<lparr>blr_hash = block_hash E b, blr_height = height,
          blr_payload = unwrap_or_default J (value_block J b)\<rparr>) (rpc_get_block_by_height height s))"

definition block_by_hash_handler :: "externs \<Rightarrow> 'v json_values \<Rightarrow> string \<Rightarrow> RpcState \<Rightarrow> StatusCode + 'v BlockResponse" where
  "block_by_hash_handler E J str s =
     bind_result (map_err (\<lambda>_. BAD_REQUEST) (Hash_from_str E str)) (\<lambda>h.
     ok_or NOT_FOUND
       (map_option (\<lambda>b. \<lparr>blr_hash = h, blr_height = bh_height (blk_header b),
          blr_payload = unwrap_or_default J (value_block J b)\<rparr>) (rpc_get_block_by_hash h s)))"

definition transaction_handler :: "externs \<Rightarrow> 'v json_values \<Rightarrow> string \<Rightarrow> RpcState \<Rightarrow> StatusCode + 'v TransactionResponse" where
  "transaction_handler E J str s =
     bind_result (map_err (\<lambda>_. BAD_REQUEST) (Hash_from_str E str)) (\<lambda>h.
     ok_or NOT_FOUND
       (map_option (\<lambda>tx. \<lparr>tr_hash = h, tr_status = ''confirmed'', tr_payload = unwrap_or_default J (value_tx J tx)\<rparr>)
         (rpc_get_transaction h s)))"

definition balance_handler :: "externs \<Rightarrow> string \<Rightarrow> RpcState \<Rightarrow> StatusCode + BalanceResponse" where
  "balance_handler E str s =
     bind_result (map_err (\<lambda>_. BAD_REQUEST) (Address_from_str E str)) (\<lambda>a.
     Inr \<lparr>br_address = a, br_balance = (case rpc_get_account a s of None \<Rightarrow> 0 | Some x \<Rightarrow> acc_balance x)\<rparr>)"

definition nonce_handler :: "externs \<Rightarrow> string \<Rightarrow> RpcState \<Rightarrow> StatusCode + NonceResponse" where
  "nonce_handler E str s =
     bind_result (map_err (\<lambda>_. BAD_REQUEST) (Address_from_str E str)) (\<lambda>a.
     Inr \<lparr>nr_address = a, nr_nonce = (case rpc_get_account a s of None \<Rightarrow> 0 | Some x \<Rightarrow> acc_nonce x)\<rparr>)"

definition validator_handler :: "externs \<Rightarrow> string \<Rightarrow> RpcState \<Rightarrow> StatusCode + ValidatorResponse" where
  "validator_handler E str s =
     bind_result (map_err (\<lambda>_. BAD_REQUEST) (Address_from_str E str)) (\<lambda>a.
     ok_or NOT_FOUND (map_option (\<lambda>v. \<lparr>vrs_address = a, vrs_validator = v\<rparr>) (rpc_get_validator a s)))"

definition delegation_handler :: "externs \<Rightarrow> string \<Rightarrow> string \<Rightarrow> RpcState \<Rightarrow> StatusCode + DelegationResponse" where
  "delegation_handler E dstr vstr s =
     bind_result (map_err (\<lambda>_. BAD_REQUEST) (Address_from_str E dstr)) (\<lambda>d.
     bind_result (map_err (\<lambda>_. BAD_REQUEST) (Address_from_str E vstr)) (\<lambda>v.
     ok_or NOT_FOUND
       (map_option (\<lambda>x. \<lparr>dr_delegator = d, dr_validator = v, dr_delegation = x\<rparr>) (rpc_get_delegation d v s))))"

definition validate_transaction :: "externs \<Rightarrow> RpcState \<Rightarrow> Transaction \<Rightarrow> StatusCode + hash" where
  "validate_transaction E s tx =
     (if length (tx_public_key tx) \<noteq> 32 \<or> length (tx_signature tx) \<noteq> 64 then Inl BAD_REQUEST
      else if from_public_key_hash (hash_bytes E (tx_public_key tx)) \<noteq> tx_sender tx then Inl BAD_REQUEST
      else bind_result (map_err (\<lambda>_. BAD_REQUEST)
          (ed25519_verify E (tx_public_key tx) (bytes_of (signing_hash E tx)) (tx_signature tx))) (\<lambda>_.
        let tot = saturating_add (tx_amount tx) (tx_fee tx) in
        case rpc_get_account (tx_sender tx) s of
          Some account \<Rightarrow>
            if acc_balance account < tot then Inl PAYMENT_REQUIRED
            else if acc_nonce account \<noteq> tx_nonce tx then Inl CONFLICT
            else Inr (tx_hash E tx)
        | None \<Rightarrow> Inl PAYMENT_REQUIRED))"

definition send_transaction_handler ::
    "externs \<Rightarrow> 'v json_values \<Rightarrow> SendTransactionRequest \<Rightarrow> (RpcState, StatusCode, 'v TransactionResponse) action" where
  "send_transaction_handler E J request =
     (let tx = str_transaction request in
      act_bind (act_query (\<lambda>s. validate_transaction E s tx)) (\<lambda>h.
      act_bind (act_modify (rpc_store_transaction h tx)) (\<lambda>_.
      act_bind (act_modify (rpc_submit_transaction tx)) (\<lambda>_.
      act_return \<lparr>tr_hash = h, tr_status = ''pending'', tr_payload = value_null J\<rparr>))))"

definition StatusCode_from_RpcError :: "RpcError \<Rightarrow> StatusCode" where
  "StatusCode_from_RpcError e = INTERNAL_SERVER_ERROR"

section \<open>gRPC service\<close>

datatype Status =
    Status_invalid_argument string
  | Status_not_found string

record ProtoTransaction =
  pt_sender :: string
  pt_recipient :: string
  pt_amount :: string
  pt_nonce :: u64
  pt_fee :: string
  pt_payload :: bytes

record ProtoBlockHeader =
  pbh_height :: u64
  pbh_timestamp :: u64
  pbh_previous_hash :: string
  pbh_state_root :: string
  pbh_tx_root :: string
  pbh_proposer :: string

record ProtoBlockResponse =
  pbr_hash :: string
  pbr_height :: u64
  pbr_header :: "ProtoBlockHeader option"
  pbr_body :: "ProtoTransaction list option"

definition parse_hash :: "externs \<Rightarrow> string \<Rightarrow> Status + hash" where
  "parse_hash E s = map_err (\<lambda>e. Status_invalid_argument (''invalid hash: '' @ e)) (Hash_from_str E s)"

definition parse_address :: "externs \<Rightarrow> string \<Rightarrow> Status + address" where
  "parse_address E s = map_err (\<lambda>e. Status_invalid_argument (''invalid address: '' @ e)) (Address_from_str E s)"

definition transaction_to_proto :: "externs \<Rightarrow> Transaction \<Rightarrow> ProtoTransaction" where
  "transaction_to_proto E tx =
     \<lparr>pt_sender = Address_to_string E (tx_sender tx), pt_recipient = Address_to_string E (tx_recipient tx),
      pt_amount = word_to_string (tx_amount tx), pt_nonce = tx_nonce tx, pt_fee = word_to_string (tx_fee tx),
      pt_payload = tx_payload tx\<rparr>"

definition proto_to_transaction :: "externs \<Rightarrow> ProtoTransaction \<Rightarrow> Status + Transaction" where
  "proto_to_transaction E p =
     bind_result (parse_address E (pt_sender p)) (\<lambda>sender.
     bind_result (parse_address E (pt_recipient p)) (\<lambda>recipient.
     bind_result (map_err (\<lambda>e. Status_invalid_argument (''invalid amount: '' @ IntErrorKind_to_string e))
       (parse_uint (pt_amount p))) (\<lambda>amount.
     bind_result (map_err (\<lambda>e. Status_invalid_argument (''invalid fee: '' @ IntErrorKind_to_string e))
       (parse_uint (pt_fee p))) (\<lambda>fee.
     Inr \<lparr>tx_sender = sender, tx_recipient = recipient, tx_amount = amount, tx_nonce = pt_nonce p, tx_fee = fee,
          tx_public_key = [], tx_signature = [], tx_payload = pt_payload p\<rparr>))))"

definition block_to_proto :: "externs \<Rightarrow> Block \<Rightarrow> ProtoBlockResponse" where
  "block_to_proto E b =
     \<lparr>pbr_hash = Hash_to_string E (block_hash E b), pbr_height = bh_height (blk_header b),
      pbr_header = Some
        \<lparr>pbh_height = bh_height (blk_header b), pbh_timestamp = bh_timestamp (blk_header b),
         pbh_previous_hash = Hash_to_string E (bh_previous_hash (blk_header b)),
         pbh_state_root = Hash_to_string E (bh_state_root (blk_header b)),
         pbh_tx_root = Hash_to_string E (bh_tx_root (blk_header b)),
         pbh_proposer = hex_encode E (bytes_of (bh_proposer (blk_header b)))\<rparr>,
      pbr_body = Some (map (transaction_to_proto E) (bb_transactions (blk_body b)))\<rparr>"

definition grpc_status :: "RpcState \<Rightarrow> Status + string \<times> u64 \<times> string" where
  "grpc_status s = Inr (''ok'', rpc_height s, CARGO_PKG_VERSION)"

definition grpc_get_block_by_height :: "externs \<Rightarrow> u64 \<Rightarrow> RpcState \<Rightarrow> Status + ProtoBlockResponse" where
  "grpc_get_block_by_height E height s =
     bind_result (ok_or (Status_not_found (''block at height '' @ word_to_string height @ '' not found''))
       (rpc_get_block_by_height height s)) (\<lambda>b. Inr (block_to_proto E b))"

definition grpc_get_block_by_hash :: "externs \<Rightarrow> string \<Rightarrow> RpcState \<Rightarrow> Status + ProtoBlockResponse" where
  "grpc_get_block_by_hash E str s =
     bind_result (parse_hash E str) (\<lambda>h.
     bind_result (ok_or (Status_not_found (''block with hash '' @ Hash_to_string E h @ '' not found''))
       (rpc_get_block_by_hash h s)) (\<lambda>b. Inr (block_to_proto E b)))"

definition grpc_get_transaction :: "externs \<Rightarrow> string \<Rightarrow> RpcState \<Rightarrow> Status + string \<times> string \<times> ProtoTransaction option" where
  "grpc_get_transaction E str s =
     bind_result (parse_hash E str) (\<lambda>h.
     bind_result (ok_or (Status_not_found (''transaction '' @ Hash_to_string E h @ '' not found''))
       (rpc_get_transaction h s)) (\<lambda>tx.
     Inr (Hash_to_string E h, ''confirmed'', Some (transaction_to_proto E tx))))"

definition grpc_get_balance :: "externs \<Rightarrow> string \<Rightarrow> RpcState \<Rightarrow> Status + string \<times> string" where
  "grpc_get_balance E str s =
     bind_result (parse_address E str) (\<lambda>a.
     let bal = (case rpc_get_account a s of None \<Rightarrow> 0 | Some x \<Rightarrow> acc_balance x) in
     Inr (Address_to_string E a, word_to_string bal))"

definition grpc_send_transaction :: "externs \<Rightarrow> ProtoTransaction option \<Rightarrow> (RpcState, Status, string \<times> string) action" where
  "grpc_send_transaction E request =
     act_bind (act_lift (ok_or (Status_invalid_argument ''transaction is required'') request)) (\<lambda>proto_tx.
     act_bind (act_lift (proto_to_transaction E proto_tx)) (\<lambda>tx.
     let h = tx_hash E tx in
     act_bind (act_modify (rpc_store_transaction h tx)) (\<lambda>_.
     act_bind (act_modify (rpc_submit_transaction tx)) (\<lambda>_.
     act_return (Hash_to_string E h, ''pending'')))))"

section \<open>Test handler\<close>

datatype HashOrHeight = ByHash hash | ByHeight u64

record SimpleRpcHandler =
  sh_balance :: u128

definition simple_get_balance :: "SimpleRpcHandler \<Rightarrow> address \<Rightarrow> RpcError + BalanceResponse" where
  "simple_get_balance self a = Inr \<lparr>br_address = a, br_balance = sh_balance self\<rparr>"

definition simple_get_block :: "SimpleRpcHandler \<Rightarrow> HashOrHeight \<Rightarrow> RpcError + 'v BlockResponse" where
  "simple_get_block self q = Inl BlockNotFound"

definition simple_get_transaction :: "SimpleRpcHandler \<Rightarrow> hash \<Rightarrow> RpcError + 'v TransactionResponse" where
  "simple_get_transaction self h = Inl TransactionNotFound"

definition simple_send_transaction ::
    "externs \<Rightarrow> 'v json_values \<Rightarrow> SimpleRpcHandler \<Rightarrow> SendTransactionRequest \<Rightarrow> RpcError + 'v TransactionResponse" where
  "simple_send_transaction E J self request =
     Inr \<lparr>tr_hash = tx_hash E (str_transaction request), tr_status = ''pending'', tr_payload = value_null J\<rparr>"

section \<open>Consistency of the indexes\<close>

definition rpc_ok :: "externs \<Rightarrow> RpcState \<Rightarrow> bool" where
  "rpc_ok E s \<longleftrightarrow>
     (\<forall>n b. rpc_blocks s n = Some b \<longrightarrow> bh_height (blk_header b) = n \<and> n \<le> rpc_height s
        \<and> rpc_blocks_by_hash s (block_hash E b) \<noteq> None) \<and>
     (\<forall>h b. rpc_blocks_by_hash s h = Some b \<longrightarrow> block_hash E b = h \<and> bh_height (blk_header b) \<le> rpc_height s) \<and>
     (rpc_height s \<noteq> 0 \<longrightarrow> rpc_blocks s (rpc_height s) \<noteq> None) \<and>
     (\<forall>h tx. rpc_transactions s h = Some tx \<longrightarrow> tx_hash E tx = h) \<and>
     (\<forall>tx\<in>set (rpc_pending s). rpc_transactions s (tx_hash E tx) \<noteq> None)"

text \<open>The state changes: what the servers, the faucet and the block stream of a node call.\<close>

inductive rpc_step :: "externs \<Rightarrow> RpcState \<Rightarrow> RpcState \<Rightarrow> bool" for E where
  rs_account: "rpc_step E s (rpc_set_account a x s)"
| rs_block: "rpc_step E s (rpc_store_block E b s)"
| rs_transaction: "rpc_step E s (rpc_store_transaction (tx_hash E tx) tx s)"
| rs_validator: "rpc_step E s (rpc_set_validator a r s)"
| rs_delegation: "rpc_step E s (rpc_set_delegation d v x s)"
| rs_undelegation: "rpc_step E s (rpc_delete_delegation d v s)"
| rs_rest: "send_transaction_handler E (J :: bytes json_values) request s = (r, s') \<Longrightarrow> rpc_step E s s'"
| rs_grpc: "grpc_send_transaction E proto s = (r', s') \<Longrightarrow> rpc_step E s s'"

lemma rpc_store_block_ok:
  assumes "rpc_ok E s"
  shows "rpc_ok E (rpc_store_block E b s)"
proof -
  have "n \<le> rpc_height s \<Longrightarrow> rpc_height s < bh_height (blk_header b) \<Longrightarrow> n \<le> bh_height (blk_header b)" for n
    by (rule order.strict_implies_order, rule order.strict_trans1)
  then show ?thesis
    using assms unfolding rpc_ok_def rpc_store_block_def Let_def
    by (auto simp: not_less)
qed

lemma accept_transaction_ok:
  assumes "rpc_ok E s"
  shows "rpc_ok E (rpc_submit_transaction tx (rpc_store_transaction (tx_hash E tx) tx s))"
  using assms unfolding rpc_ok_def by (auto simp: rpc_submit_transaction_def rpc_store_transaction_def)

lemma validate_transaction_hash: "validate_transaction E s tx = Inr h \<Longrightarrow> h = tx_hash E tx"
  by (auto simp: validate_transaction_def bind_result_eq_Inr Let_def split: if_splits option.splits)

lemma send_transaction_run:
  "send_transaction_handler E J request s =
     (let tx = str_transaction request in
      case validate_transaction E s tx of
        Inl e \<Rightarrow> (Inl e, s)
      | Inr h \<Rightarrow> (Inr \<lparr>tr_hash = h, tr_status = ''pending'', tr_payload = value_null J\<rparr>,
                  rpc_submit_transaction tx (rpc_store_transaction h tx s)))"
  by (simp add: send_transaction_handler_def act_run Let_def split: sum.split)

lemma grpc_send_run:
  "grpc_send_transaction E request s =
     (case request of
        None \<Rightarrow> (Inl (Status_invalid_argument ''transaction is required''), s)
      | Some p \<Rightarrow>
          (case proto_to_transaction E p of
             Inl e \<Rightarrow> (Inl e, s)
           | Inr tx \<Rightarrow> (Inr (Hash_to_string E (tx_hash E tx), ''pending''),
                        rpc_submit_transaction tx (rpc_store_transaction (tx_hash E tx) tx s))))"
  by (simp add: grpc_send_transaction_def act_run Let_def split: option.split sum.split)

lemma rpc_step_ok: "rpc_step E s s' \<Longrightarrow> rpc_ok E s \<Longrightarrow> rpc_ok E s'"
proof (induction rule: rpc_step.induct)
  case (rs_rest J request s r s')
  then show ?case
    by (auto simp: send_transaction_run Let_def accept_transaction_ok split: sum.splits dest: validate_transaction_hash)
next
  case (rs_grpc proto s r' s')
  then show ?case by (auto simp: grpc_send_run accept_transaction_ok split: option.splits sum.splits)
qed (auto simp: rpc_store_block_ok, auto simp: rpc_ok_def rpc_set_account_def rpc_store_transaction_def rpc_set_validator_def
   rpc_set_delegation_def rpc_delete_delegation_def)

lemma rpc_new_ok: "rpc_ok E RpcState_new"
  by (simp add: rpc_ok_def RpcState_new_def)

lemma rpc_run_ok: "(rpc_step E)\<^sup>*\<^sup>* s s' \<Longrightarrow> rpc_ok E s \<Longrightarrow> rpc_ok E s'"
  by (induction rule: rtranclp_induct) (auto dest: rpc_step_ok)

section \<open>Properties\<close>

text \<open>
  C30. What the servers answer is what was asked for. In every state the servers can reach: the block answered for a hash is one whose own
  hash is that hash; the block answered for a height has that height, the answer names its own hash, and under that hash a block with the
  same hash is found; the transaction answered for a hash is one with that hash, and every queued transaction is found. No block
  is above the reported height, and when it is not zero there is a block of that height.
\<close>

theorem rpc_indexes_consistent:
  assumes "hex_ok E" "(rpc_step E)\<^sup>*\<^sup>* RpcState_new s"
  shows "(\<forall>str r. block_by_hash_handler E J str s = Inr r \<longrightarrow>
            (\<exists>b. Hash_from_str E str = Inr (block_hash E b) \<and> blr_height r = bh_height (blk_header b) \<and> blr_height r \<le> rpc_height s
               \<and> blr_payload r = unwrap_or_default J (value_block J b)))
       \<and> (\<forall>n r. block_by_height_handler E J n s = Inr r \<longrightarrow> n \<le> rpc_height s \<and>
            (\<exists>b. block_raw_handler n s = Inr b \<and> bh_height (blk_header b) = n \<and> blr_hash r = block_hash E b
               \<and> blr_payload r = unwrap_or_default J (value_block J b)
               \<and> (\<exists>b'. rpc_get_block_by_hash (block_hash E b) s = Some b' \<and> block_hash E b' = block_hash E b)))
       \<and> (\<forall>str r. transaction_handler E J str s = Inr r \<longrightarrow>
            (\<exists>tx. Hash_from_str E str = Inr (tx_hash E tx) \<and> tr_payload r = unwrap_or_default J (value_tx J tx)))
       \<and> (\<forall>tx\<in>set (rpc_pending s). \<exists>r. transaction_handler E J (Hash_to_string E (tx_hash E tx)) s = Inr r)
       \<and> (rpc_height s \<noteq> 0 \<longrightarrow> (\<exists>b. block_raw_handler (rpc_height s) s = Inr b \<and> bh_height (blk_header b) = rpc_height s))"
proof -
  have ok: "rpc_ok E s" by (rule rpc_run_ok [OF assms(2) rpc_new_ok])
  have blocks: "\<And>n b. rpc_blocks s n = Some b \<Longrightarrow> bh_height (blk_header b) = n \<and> n \<le> rpc_height s \<and> (\<exists>b'. rpc_blocks_by_hash s (block_hash E b) = Some b')"
    and hashes: "\<And>h b. rpc_blocks_by_hash s h = Some b \<Longrightarrow> block_hash E b = h \<and> bh_height (blk_header b) \<le> rpc_height s"
    and top: "rpc_height s \<noteq> 0 \<Longrightarrow> \<exists>b. rpc_blocks s (rpc_height s) = Some b"
    and txs: "\<And>h tx. rpc_transactions s h = Some tx \<Longrightarrow> tx_hash E tx = h"
    and pending: "\<And>tx. tx \<in> set (rpc_pending s) \<Longrightarrow> \<exists>tx'. rpc_transactions s (tx_hash E tx) = Some tx'"
    using ok unfolding rpc_ok_def by blast+
  show ?thesis
  proof (intro conjI allI impI ballI)
    fix str r assume "block_by_hash_handler E J str s = Inr r"
    then show "\<exists>b. Hash_from_str E str = Inr (block_hash E b) \<and> blr_height r = bh_height (blk_header b) \<and> blr_height r \<le> rpc_height s
        \<and> blr_payload r = unwrap_or_default J (value_block J b)"
      using hashes by (fastforce simp: block_by_hash_handler_def rpc_get_block_by_hash_def bind_result_eq_Inr map_err_eq_Inr)
  next
    fix n r assume r: "block_by_height_handler E J n s = Inr r"
    then obtain b where b: "rpc_blocks s n = Some b" by (auto simp: block_by_height_handler_def rpc_get_block_by_height_def)
    then show "n \<le> rpc_height s" using blocks by blast
    show "\<exists>b. block_raw_handler n s = Inr b \<and> bh_height (blk_header b) = n \<and> blr_hash r = block_hash E b
        \<and> blr_payload r = unwrap_or_default J (value_block J b)
        \<and> (\<exists>b'. rpc_get_block_by_hash (block_hash E b) s = Some b' \<and> block_hash E b' = block_hash E b)"
      using r b blocks [OF b] hashes
      by (intro exI [of _ b]) (auto simp: block_by_height_handler_def block_raw_handler_def rpc_get_block_by_height_def rpc_get_block_by_hash_def)
  next
    fix str r assume "transaction_handler E J str s = Inr r"
    then show "\<exists>tx. Hash_from_str E str = Inr (tx_hash E tx) \<and> tr_payload r = unwrap_or_default J (value_tx J tx)"
      using txs by (fastforce simp: transaction_handler_def rpc_get_transaction_def bind_result_eq_Inr map_err_eq_Inr)
  next
    fix tx assume "tx \<in> set (rpc_pending s)"
    then show "\<exists>r. transaction_handler E J (Hash_to_string E (tx_hash E tx)) s = Inr r"
      using pending by (fastforce simp: transaction_handler_def Hash_roundtrip [OF assms(1)] rpc_get_transaction_def)
  next
    assume "rpc_height s \<noteq> 0"
    then show "\<exists>b. block_raw_handler (rpc_height s) s = Inr b \<and> bh_height (blk_header b) = rpc_height s"
      using top blocks by (fastforce simp: block_raw_handler_def rpc_get_block_by_height_def)
  qed
qed

text \<open>The admission check against the executor, on the specification.\<close>

lemma validate_iff:
  assumes "rpc_accounts s (tx_sender tx) = Some account"
  shows "(\<exists>h. validate_transaction E s tx = Inr h) \<longleftrightarrow>
     verify_signature E tx = Inr () \<and> acc_nonce account = tx_nonce tx
     \<and> saturating_add (tx_amount tx) (tx_fee tx) \<le> acc_balance account"
  using assms
  by (auto simp: validate_transaction_def verify_signature_def rpc_get_account_def from_public_key_hash_def bytes32_eq_iff
      bind_result_eq_Inr Let_def split: if_splits)

lemma spec_transfer_result:
  assumes "ledger_ok L"
  shows "fst (spec_transfer tx L) =
     (if acc_balance (lg_account L (tx_sender tx)) < tx_amount tx
      then Inr (failure ''insufficient balance for transfer'') else Inr (success 21000 ''ok''))"
proof -
  obtain r L' where r: "spec_transfer tx L = (r, L')" by fastforce
  then have "r \<noteq> Inl StorageFailure" using transfer_conserves [OF assms] by blast
  with r show ?thesis by (auto simp: spec_transfer_def Let_def split: if_splits)
qed

lemma spec_transfer_success:
  assumes "ledger_ok L" "acc_nonce (lg_account L (tx_sender tx)) = tx_nonce tx" "tx_payload tx = []"
    "verify_signature E tx = Inr ()"
  shows "fst (spec_execute E tx L) = Inr (success 21000 ''ok'') \<longleftrightarrow>
     unat (tx_amount tx) + unat (tx_fee tx) \<le> bal L (tx_sender tx)"
proof (cases "acc_balance (lg_account L (tx_sender tx)) < tx_fee tx")
  case True
  then show ?thesis using assms by (auto simp: spec_execute_def bal_def word_less_nat_alt success_def failure_def)
next
  case False
  let ?bal = "acc_balance (lg_account L (tx_sender tx))"
  have fee: "unat (?bal - tx_fee tx) = unat ?bal - unat (tx_fee tx)" "unat (tx_fee tx) \<le> unat ?bal"
    using False by (simp_all add: unat_sub_exact word_le_nat_alt not_less)
  then have less: "?bal - tx_fee tx < tx_amount tx \<longleftrightarrow> unat ?bal < unat (tx_amount tx) + unat (tx_fee tx)"
    by (auto simp: word_less_nat_alt)
  show ?thesis
    using assms False charge_conserves [OF assms(1) False]
    by (simp add: spec_execute_def spec_transfer_result less bal_def) (auto simp: success_def failure_def)
qed

text \<open>
  C15. Admission agrees with execution. When the server knows the sender's account as the ledger has it and the
  ledger's value leaves the top balance unused, the REST endpoint accepts a transfer exactly when
  the block executor carries it out successfully on that ledger; for a rejected one nothing is stored.
\<close>

theorem rest_admission_matches_execution:
  assumes "json_ok E" "im_ok E b" "ledger_ok (im_ledger E b)" "wealth (im_ledger E b) + 1 < 2 ^ 128"
    and "rpc_accounts s (tx_sender tx) = Some (lg_account (im_ledger E b) (tx_sender tx))" "tx_payload tx = []"
    and "send_transaction_handler E J \<lparr>str_transaction = tx\<rparr> s = (r, s')"
  shows "((\<exists>x. r = Inr x) \<longleftrightarrow> fst (block_execute E (im_backend E) tx b) = Inr (success 21000 ''ok''))
       \<and> ((\<exists>e. r = Inl e) \<longrightarrow> s' = s)"
proof -
  let ?L = "im_ledger E b" and ?x = "lg_account (im_ledger E b) (tx_sender tx)"
  obtain q b' where run: "block_execute E (im_backend E) tx b = (q, b')" by fastforce
  have spec: "fst (spec_execute E tx ?L) = q" using im_refines(1) [OF assms(1,2) run] by simp
  have top: "unat (acc_balance ?x) + 1 < 2 ^ 128"
    using assms(4) member_le_sum_UNIV [of "bal ?L" "tx_sender tx"] by (simp add: wealth_def bal_def)
  have total: "saturating_add (tx_amount tx) (tx_fee tx) \<le> acc_balance ?x \<longleftrightarrow>
      unat (tx_amount tx) + unat (tx_fee tx) \<le> bal ?L (tx_sender tx)"
    using top unat_saturating_add [of "tx_amount tx" "tx_fee tx"] by (auto simp: word_le_nat_alt bal_def min_def split: if_splits)
  have "q = Inr (success 21000 ''ok'') \<longleftrightarrow> (\<exists>h. validate_transaction E s tx = Inr h)"
  proof (cases "verify_signature E tx = Inr () \<and> acc_nonce ?x = tx_nonce tx")
    case True
    then show ?thesis
      using spec_transfer_success [OF assms(3) _ assms(6), of E] spec total validate_iff [OF assms(5), of E] by simp
  next
    case False
    then have "\<not> (\<exists>h. validate_transaction E s tx = Inr h)" using validate_iff [OF assms(5)] by blast
    moreover have "q \<noteq> Inr (success 21000 ''ok'')"
      using False spec by (auto simp: spec_execute_def success_def failure_def split: if_splits)
    ultimately show ?thesis by blast
  qed
  then show ?thesis using assms(7) run by (auto simp: send_transaction_run split: sum.splits)
qed

lemma grpc_queues_unsigned:
  assumes "grpc_send_transaction E request s = (Inr r, s')"
  shows "\<exists>tx. rpc_pending s' = rpc_pending s @ [tx] \<and> tx_signature tx = [] \<and> verify_signature E tx = Inl InvalidSignature"
proof -
  obtain p tx where p: "proto_to_transaction E p = Inr tx" and s': "rpc_pending s' = rpc_pending s @ [tx]"
    using assms by (auto simp: grpc_send_run rpc_submit_transaction_def rpc_store_transaction_def
        split: option.splits sum.splits)
  have "tx_public_key tx = []" "tx_signature tx = []"
    using p by (auto simp: proto_to_transaction_def bind_result_eq_Inr)
  then show ?thesis using s' by (simp add: verify_signature_def)
qed

text \<open>
  The gRPC endpoint drops what makes a transaction valid. Every transaction it accepts, whoever sends it,
  is queued without key and signature, and the block executor answers it with a signature error that changes
  nothing, on every backend.
\<close>

theorem grpc_transactions_never_execute:
  assumes "grpc_send_transaction E request s = (Inr r, s')"
  shows "\<exists>tx. rpc_pending s' = rpc_pending s @ [tx] \<and> tx_signature tx = []
       \<and> (\<forall>B (b :: 'b). block_execute E B tx b = (Inl InvalidSignature, b))"
  using grpc_queues_unsigned [OF assms] by (auto simp: block_execute_def act_run)

text \<open>
  A transaction is reported as confirmed as soon as it is accepted: right after the endpoint answered
  with status pending, and with the transaction still in the pending list, a query for it answers confirmed.
\<close>

theorem pending_reported_confirmed:
  assumes "hex_ok E" "send_transaction_handler E J \<lparr>str_transaction = tx\<rparr> s = (Inr r, s')"
  shows "tr_status r = ''pending'' \<and> tx \<in> set (rpc_pending s')
       \<and> (\<exists>q. transaction_handler E J (Hash_to_string E (tr_hash r)) s' = Inr q \<and> tr_status q = ''confirmed'')"
  using assms(2)
  by (auto simp: send_transaction_run rpc_submit_transaction_def rpc_store_transaction_def transaction_handler_def
      Hash_roundtrip [OF assms(1)] rpc_get_transaction_def split: sum.splits)

section \<open>Witnesses\<close>

definition demo_values :: "unit json_values" where
  "demo_values = \<lparr>value_block = (\<lambda>_. None), value_tx = (\<lambda>_. None), value_null = ()\<rparr>"

definition demo_block :: "u64 \<Rightarrow> Block" where
  "demo_block n =
     \<lparr>blk_header = \<lparr>bh_height = n, bh_timestamp = 0, bh_previous_hash = zero32, bh_state_root = zero32,
        bh_tx_root = zero32, bh_proposer = zero32\<rparr>, blk_body = \<lparr>bb_transactions = []\<rparr>\<rparr>"

definition demo_block_values :: "Block json_values" where
  "demo_block_values = \<lparr>value_block = Some, value_tx = (\<lambda>_. None), value_null = demo_block 0\<rparr>"

theorem rpc_indexes_consistent_witness:
  "\<exists>r. block_by_hash_handler demo_externs demo_block_values (Hash_to_string demo_externs (block_hash demo_externs (demo_block 1)))
       (rpc_store_block demo_externs (demo_block 1) RpcState_new) = Inr r
     \<and> block_hash demo_externs (blr_payload r) = block_hash demo_externs (demo_block 1) \<and> blr_height r \<le> 1"
proof -
  let ?s = "rpc_store_block demo_externs (demo_block 1) RpcState_new" and ?x = "Hash_to_string demo_externs (block_hash demo_externs (demo_block 1))"
  have run: "(rpc_step demo_externs)\<^sup>*\<^sup>* RpcState_new ?s" by (rule r_into_rtranclp) (rule rpc_step.rs_block)
  obtain r where r: "block_by_hash_handler demo_externs demo_block_values ?x ?s = Inr r"
    by (simp add: block_by_hash_handler_def Hash_roundtrip [OF demo_hex_ok] rpc_get_block_by_hash_def rpc_store_block_def Let_def)
  have "rpc_height ?s = 1" by (simp add: rpc_store_block_def demo_block_def RpcState_new_def Let_def)
  moreover obtain b where "Hash_from_str demo_externs ?x = Inr (block_hash demo_externs b)" "blr_height r \<le> rpc_height ?s" "blr_payload r = b"
    using rpc_indexes_consistent [OF demo_hex_ok run, of demo_block_values, THEN conjunct1, rule_format, OF r]
    by (auto simp: demo_block_values_def unwrap_or_default_def)
  ultimately show ?thesis using r by (simp add: Hash_roundtrip [OF demo_hex_ok])
qed

definition demo_rpc :: RpcState where
  "demo_rpc = rpc_set_account demo_address (Account_new 1000 0) RpcState_new"

lemma demo_ledger_account: "lg_account (im_ledger demo_externs demo_store) demo_address = Account_new 1000 0"
  by (simp add: im_ledger_def demo_store_def lg_account_def unwrap_account_def)

lemma demo_rpc_accepts:
  assumes "verify_signature demo_externs tx = Inr ()" "tx_sender tx = demo_address" "tx_amount tx = 100"
    "tx_nonce tx = 0" "tx_fee tx = 1"
  shows "\<exists>r s'. send_transaction_handler demo_externs demo_values \<lparr>str_transaction = tx\<rparr> demo_rpc = (Inr r, s')"
proof -
  have "rpc_accounts demo_rpc (tx_sender tx) = Some (Account_new 1000 0)"
    using assms(2) by (simp add: demo_rpc_def rpc_set_account_def)
  moreover have "saturating_add (100 :: u128) 1 \<le> 1000" by (simp add: saturating_add_def)
  ultimately have "\<exists>h. validate_transaction demo_externs demo_rpc tx = Inr h"
    using assms validate_iff by (simp add: Account_new_def)
  then show ?thesis by (auto simp: send_transaction_run)
qed

theorem rest_admission_matches_execution_witness:
  "\<exists>tx r s'. send_transaction_handler demo_externs demo_values \<lparr>str_transaction = tx\<rparr> demo_rpc = (Inr r, s') \<and>
     fst (block_execute demo_externs (im_backend demo_externs) tx demo_store) = Inr (success 21000 ''ok'')"
proof -
  obtain tx where tx: "verify_signature demo_externs tx = Inr ()" "tx_sender tx = demo_address"
    "tx_amount tx = 100" "tx_nonce tx = 0" "tx_fee tx = 1" "tx_payload tx = []"
    using demo_signed_transfer by metis
  obtain r s' where run: "send_transaction_handler demo_externs demo_values \<lparr>str_transaction = tx\<rparr> demo_rpc = (Inr r, s')"
    using demo_rpc_accepts [OF tx(1-5)] by blast
  have "wealth (im_ledger demo_externs demo_store) + 1 < 2 ^ 128"
    using ledger_ok_accounts(2) [of "im_accounts demo_store" demo_externs]
    by (simp add: im_ledger_def demo_store_def om_values_def om_insert.rep_eq om_empty.rep_eq Account_new_def)
  then show ?thesis
    using rest_admission_matches_execution [OF demo_json_ok demo_store_ok _ _ tx(6) run] run
    by (auto simp: tx(2) demo_ledger_account demo_rpc_def rpc_set_account_def)
qed

theorem grpc_transactions_never_execute_witness:
  "\<exists>r s' tx. grpc_send_transaction demo_externs
       (Some (transaction_to_proto demo_externs (Transaction_transfer demo_address zero32 5 0 1))) RpcState_new = (Inr r, s') \<and>
     rpc_pending s' = [tx] \<and> block_execute demo_externs (im_backend demo_externs) tx demo_store = (Inl InvalidSignature, demo_store)"
proof -
  let ?tx = "Transaction_transfer demo_address zero32 5 0 1"
  obtain r s' where run: "grpc_send_transaction demo_externs (Some (transaction_to_proto demo_externs ?tx)) RpcState_new = (Inr r, s')"
    by (simp add: grpc_send_run proto_to_transaction_def transaction_to_proto_def parse_address_def
        Address_roundtrip [OF demo_hex_ok])
  then show ?thesis
    using grpc_transactions_never_execute [where ?'b = InMemoryBackend, OF run] run by (auto simp: RpcState_new_def)
qed

theorem pending_reported_confirmed_witness:
  "\<exists>tx r s' q. send_transaction_handler demo_externs demo_values \<lparr>str_transaction = tx\<rparr> demo_rpc = (Inr r, s') \<and>
     transaction_handler demo_externs demo_values (Hash_to_string demo_externs (tr_hash r)) s' = Inr q \<and>
     tr_status q = ''confirmed''"
proof -
  obtain tx where tx: "verify_signature demo_externs tx = Inr ()" "tx_sender tx = demo_address"
    "tx_amount tx = 100" "tx_nonce tx = 0" "tx_fee tx = 1"
    using demo_signed_transfer by metis
  obtain r s' where run: "send_transaction_handler demo_externs demo_values \<lparr>str_transaction = tx\<rparr> demo_rpc = (Inr r, s')"
    using demo_rpc_accepts [OF tx] by blast
  then show ?thesis using pending_reported_confirmed [OF demo_hex_ok run] by blast
qed

end
