(* ===== verification/Node.thy ===== *)
theory Node
  imports Bft Genesis Rpc
begin

text \<open>
  Model of src/node/pemrix-node/src/node.rs: the validator's network event loop, its block production loop, the stream
  of finalized blocks into the RPC state and the solo start-up. One pass through a loop is a function of the
  engine; what it hands to \<open>transport.broadcast\<close> and to the two channels of finalized blocks is part of
  its result. \<open>event_pass\<close> and \<open>produce_pass\<close> put a pass together with the TCP transport. Readings of the clock are arguments.
\<close>

section \<open>One pass of the event loop\<close>

definition node_finalize :: "externs \<Rightarrow> u64 \<Rightarrow> 'b BftConsensus \<Rightarrow> Block list \<times> 'b BftConsensus" where
  "node_finalize E now c =
     (case finalize_pending E now c of (Some block, c') \<Rightarrow> ([block], c') | (None, c') \<Rightarrow> ([], c'))"

definition node_event ::
    "externs \<Rightarrow> u64 \<Rightarrow> NetworkEvent \<Rightarrow> 'b BftConsensus \<Rightarrow> Message list \<times> Block list \<times> 'b BftConsensus" where
  "node_event E now event c =
     (case event of
        PeerConnected _ \<Rightarrow> ([], [], c)
      | PeerDisconnected _ \<Rightarrow> ([], [], c)
      | MessageReceived _ (MsgBlock block) \<Rightarrow>
          (case handle_block E block c of
             (Inr vote, c1) \<Rightarrow>
               (case node_finalize E now c1 of (blocks, c2) \<Rightarrow> ([MsgVote (encode (json_vote E) vote)], blocks, c2))
           | (Inl _, c1) \<Rightarrow> (case node_finalize E now c1 of (blocks, c2) \<Rightarrow> ([], blocks, c2)))
      | MessageReceived _ (MsgVote bytes) \<Rightarrow>
          (case decode (unjson_vote E) bytes of
             Inr vote \<Rightarrow> (case node_finalize E now (snd (handle_vote vote c)) of (blocks, c2) \<Rightarrow> ([], blocks, c2))
           | Inl _ \<Rightarrow> ([], [], c))
      | MessageReceived _ _ \<Rightarrow> ([], [], c))"

section \<open>One pass of the block production loop\<close>

record Producer =
  pr_height :: u64
  pr_last_proposed_height :: "u64 option"

definition Producer_new :: Producer where
  "Producer_new = \<lparr>pr_height = 1, pr_last_proposed_height = None\<rparr>"

text \<open>Re-broadcast the proposal and the vote of the current height, then finalize.\<close>

definition rebroadcast :: "externs \<Rightarrow> u64 \<Rightarrow> u64 \<Rightarrow> 'b BftConsensus \<Rightarrow> Message list \<times> Block list \<times> 'b BftConsensus" where
  "rebroadcast E now height c =
     (let proposal = (case own_proposal c height of None \<Rightarrow> [] | Some block \<Rightarrow> [MsgBlock block]);
          vote = (case own_vote c height of None \<Rightarrow> [] | Some v \<Rightarrow> [MsgVote (encode (json_vote E) v)])
      in case node_finalize E now c of (blocks, c') \<Rightarrow> (proposal @ vote, blocks, c'))"

definition next_height :: "'b BftConsensus \<Rightarrow> Producer \<Rightarrow> Producer" where
  "next_height c pr =
     (if bft_height c \<ge> pr_height pr then \<lparr>pr_height = bft_height c + 1, pr_last_proposed_height = None\<rparr> else pr)"

definition node_produce ::
    "externs \<Rightarrow> 'b StateBackend \<Rightarrow> u64 \<Rightarrow> u64 \<Rightarrow> address \<Rightarrow> nat \<Rightarrow> Producer \<Rightarrow> 'b BftConsensus
       \<Rightarrow> Message list \<times> Block list \<times> Producer \<times> 'b BftConsensus" where
  "node_produce E B now1 now2 local_address peers pr c =
     (if peers = 0 then ([], [], pr, c)
      else if proposer (bft_validator_set c) (pr_height pr) 0 = Some local_address then
        (case (if pr_last_proposed_height pr \<noteq> Some (pr_height pr)
               then (case propose E B now1 (pr_height pr) [] c of (r, c1) \<Rightarrow> (map_sum id (\<lambda>_. ()) r, c1))
               else (Inr (), c)) of
           (Inl _, c1) \<Rightarrow> ([], [], pr, c1)
         | (Inr _, c1) \<Rightarrow>
             (case rebroadcast E now2 (pr_height pr) c1 of
                (ms, blocks, c2) \<Rightarrow>
                  (ms, blocks, next_height c2 (pr\<lparr>pr_last_proposed_height := Some (pr_height pr)\<rparr>), c2)))
      else ([], [], next_height c pr, c))"

section \<open>The validator\<close>

record 'b Validator_Node =
  vn_local_address :: address
  vn_consensus :: "'b BftConsensus"
  vn_transport :: TcpTransport
  vn_producer :: Producer
  vn_finalized :: "Block list"
  vn_rpc_finalized :: "Block list"
  vn_rpc_state :: RpcState

definition send_all :: "Message list \<Rightarrow> TcpTransport \<Rightarrow> TcpTransport" where
  "send_all ms t = broadcast_all tcp_broadcast ms t"

definition emit :: "Block list \<Rightarrow> 'b Validator_Node \<Rightarrow> 'b Validator_Node" where
  "emit blocks n = n\<lparr>vn_finalized := vn_finalized n @ blocks, vn_rpc_finalized := vn_rpc_finalized n @ blocks\<rparr>"

definition event_pass :: "externs \<Rightarrow> u64 \<Rightarrow> 'b Validator_Node \<Rightarrow> 'b Validator_Node" where
  "event_pass E now n =
     (case tcp_next_event (vn_transport n) of
        (None, _) \<Rightarrow> n
      | (Some event, t) \<Rightarrow>
          (case node_event E now event (vn_consensus n) of
             (ms, blocks, c) \<Rightarrow> emit blocks (n\<lparr>vn_transport := send_all ms t, vn_consensus := c\<rparr>)))"

definition produce_pass :: "externs \<Rightarrow> 'b StateBackend \<Rightarrow> u64 \<Rightarrow> u64 \<Rightarrow> 'b Validator_Node \<Rightarrow> 'b Validator_Node" where
  "produce_pass E B now1 now2 n =
     (case node_produce E B now1 now2 (vn_local_address n) (peer_count (vn_transport n)) (vn_producer n) (vn_consensus n) of
        (ms, blocks, pr, c) \<Rightarrow>
          emit blocks (n\<lparr>vn_transport := send_all ms (vn_transport n), vn_producer := pr, vn_consensus := c\<rparr>))"

definition rpc_pass :: "externs \<Rightarrow> 'b Validator_Node \<Rightarrow> 'b Validator_Node" where
  "rpc_pass E n =
     (case vn_rpc_finalized n of
        [] \<Rightarrow> n
      | block # rest \<Rightarrow> n\<lparr>vn_rpc_finalized := rest, vn_rpc_state := rpc_store_block E block (vn_rpc_state n)\<rparr>)"

text \<open>Start-up: \<open>store\<close> is what \<open>open_state_store\<close> returned, \<open>bind_ok\<close> whether the listener could be bound.\<close>

definition seed_rpc :: "(address, Account) omap \<Rightarrow> RpcState \<Rightarrow> RpcState" where
  "seed_rpc allocations s = fold (\<lambda>(a, x). rpc_set_account a x) (om_entries allocations) s"

definition run_bft_validator ::
    "externs \<Rightarrow> 'b StateBackend \<Rightarrow> 'addr files \<Rightarrow> bool \<Rightarrow> 'b \<Rightarrow> 'addr NodeConfig \<Rightarrow> GenesisConfig
       \<Rightarrow> NodeError + (panic + 'b Validator_Node)" where
  "run_bft_validator E B F bind_ok store config genesis =
     bind_result (ok_or (Config ''validator_set required for BFT validator'') (nc_validator_set config)) (\<lambda>vs.
     bind_result (ok_or (Config ''local_validator_address required for BFT validator'') (nc_local_validator_address config)) (\<lambda>local_address.
     bind_result (genesis_block E genesis) (\<lambda>block.
     let genesis_hash = block_hash E block in
     bind_result (ok_or (Config ''invalid p2p_listen address'') (parse_socket F (nc_p2p_listen config))) (\<lambda>_.
     if \<not> bind_ok then Inl NodeNetwork
     else
       let transport = TcpTransport_new (peer_id_of E local_address) in
       case Bft_new_with_store local_address vs store genesis_hash of
         Inl p \<Rightarrow> Inr (Inl p)
       | Inr consensus \<Rightarrow>
           (case seed_accounts B (om_entries (gc_allocations genesis)) (bft_state consensus) of
              (Inl e, _) \<Rightarrow> Inl e
            | (Inr _, state) \<Rightarrow>
                Inr (Inr \<lparr>vn_local_address = local_address, vn_consensus = consensus\<lparr>bft_state := state\<rparr>,
                          vn_transport = transport, vn_producer = Producer_new, vn_finalized = [], vn_rpc_finalized = [],
                          vn_rpc_state = seed_rpc (gc_allocations genesis) RpcState_new\<rparr>))))))"

definition block_interval_ms :: "u64 option \<Rightarrow> u64" where
  "block_interval_ms env = max (case env of None \<Rightarrow> 1000 | Some n \<Rightarrow> n) 50"

text \<open>The solo node proposes three empty blocks; the clock of each is an argument.\<close>

fun solo_blocks :: "externs \<Rightarrow> (u64 \<times> u64) list \<Rightarrow> (SoloConsensus, NodeError, unit) action" where
  "solo_blocks E [] = act_return ()"
| "solo_blocks E ((height, now) # rest) =
     act_bind (act_map_err (\<lambda>_. NodeConsensus) (solo_propose E now height [])) (\<lambda>_. solo_blocks E rest)"

definition start_solo :: "externs \<Rightarrow> u64 \<Rightarrow> u64 \<Rightarrow> u64 \<Rightarrow> GenesisConfig \<Rightarrow> NodeError + SoloConsensus" where
  "start_solo E t1 t2 t3 genesis =
     bind_result (genesis_block E genesis) (\<lambda>block.
     let consensus = Solo_new_with_previous_hash (first_validator genesis) (block_hash E block) in
     case seed_accounts (im_backend E) (om_entries (gc_allocations genesis)) (so_state consensus) of
       (Inl e, _) \<Rightarrow> Inl e
     | (Inr _, state) \<Rightarrow>
         (case solo_blocks E [(1, t1), (2, t2), (3, t3)] (consensus\<lparr>so_state := state\<rparr>) of
            (Inl e, _) \<Rightarrow> Inl e
          | (Inr _, c) \<Rightarrow> Inr c))"

end
