(* ===== verification/Bft_Examples.thy ===== *)
theory Bft_Examples
  imports Bft
begin

text \<open>
  Concrete runs of the BFT engine with a committee of one validator: the witnesses for the theorems of
  the theory Bft, and a run that finalizes a chain whose blocks are not linked.
\<close>

definition demo_vs :: ValidatorSet where
  "demo_vs = vs_add zero32 1 ValidatorSet_new"

definition demo_bft :: "InMemoryBackend BftConsensus" where
  "demo_bft =
     \<lparr>bft_local_address = zero32, bft_validator_set = demo_vs, bft_state = demo_store, bft_height = 0,
      bft_previous_hash = zero32, bft_rounds = om_empty, bft_finalized = om_empty, bft_voted_this_height = om_empty\<rparr>"

definition demo_block :: "u64 \<Rightarrow> Block" where
  "demo_block ts = \<lparr>blk_header = default_header\<lparr>bh_height := 1, bh_timestamp := ts\<rparr>, blk_body = \<lparr>bb_transactions = []\<rparr>\<rparr>"

lemma demo_vs_facts:
  "vs_validators demo_vs = om_insert zero32 1 om_empty" "is_validator demo_vs zero32" "proposer demo_vs h r = Some zero32"
  "quorum_threshold demo_vs = 1" "vote_power demo_vs zero32 = 1" "total_nat demo_vs = 1"
proof -
  show vs: "vs_validators demo_vs = om_insert zero32 1 om_empty"
    by (simp add: demo_vs_def vs_add_def ValidatorSet_new_def)
  have entries: "om_entries (om_insert zero32 (1 :: u64) om_empty) = [(zero32, 1)]"
    by (simp add: om_insert.rep_eq om_empty.rep_eq)
  then show "is_validator demo_vs zero32" "proposer demo_vs h r = Some zero32" "quorum_threshold demo_vs = 1"
    "vote_power demo_vs zero32 = 1" "total_nat demo_vs = 1"
    by (simp_all add: vs is_validator_def om_contains_def proposer_def vs_is_empty_def om_is_empty_def om_keys_def
        quorum_threshold_def total_power_def om_values_def vote_power_def validators_def Validator_new_def
        total_nat_values Let_def)
qed

lemma demo_bft_new: "Bft_new_with_store zero32 demo_vs demo_store zero32 = Inr demo_bft"
  by (simp add: Bft_new_with_store_def demo_vs_facts demo_bft_def)

lemma demo_bft_facts [simp]:
  "bft_local_address demo_bft = zero32" "bft_validator_set demo_bft = demo_vs" "bft_state demo_bft = demo_store"
  "bft_height demo_bft = 0" "bft_previous_hash demo_bft = zero32" "bft_rounds demo_bft = om_empty"
  by (simp_all add: demo_bft_def)

lemma demo_block_facts:
  "bh_height (blk_header (demo_block ts)) = 1" "bh_proposer (blk_header (demo_block ts)) = zero32"
  "block_hash demo_externs (demo_block 1) \<noteq> block_hash demo_externs (demo_block 2)"
proof -
  show "bh_height (blk_header (demo_block ts)) = 1" "bh_proposer (blk_header (demo_block ts)) = zero32"
    by (simp_all add: demo_block_def default_header_def)
  have "bytes_of (block_hash demo_externs (demo_block 1)) ! 1 \<noteq> bytes_of (block_hash demo_externs (demo_block 2)) ! 1"
    by (simp add: block_hash_def hash_bytes_def demo_externs_def demo_header_def demo_block_def default_header_def
        bytes_of_array32_pad)
  then show "block_hash demo_externs (demo_block 1) \<noteq> block_hash demo_externs (demo_block 2)" by auto
qed

text \<open>The state after the engine has handled a block or a proposal for height 1.\<close>

definition demo_vote_for :: "hash \<Rightarrow> Vote" where
  "demo_vote_for h = \<lparr>vote_block_hash = h, vote_height = 1, vote_round = 0, vote_voter = zero32\<rparr>"

definition demo_round :: "u64 \<Rightarrow> Block option \<Rightarrow> RoundState" where
  "demo_round ts blk =
     \<lparr>rd_proposal = Some (Proposal_from_block demo_externs (demo_block ts)), rd_block = blk,
      rd_votes = om_insert zero32 (demo_vote_for (block_hash demo_externs (demo_block ts))) om_empty,
      rd_finalized = False\<rparr>"

definition demo_voted :: "u64 \<Rightarrow> Block option \<Rightarrow> InMemoryBackend BftConsensus" where
  "demo_voted ts blk = mark_voted 1 (set_round 1 (demo_round ts blk) demo_bft)"

lemma demo_valid: "bft_height s = 0 \<Longrightarrow> bft_validator_set s = demo_vs \<Longrightarrow>
    validate_proposal s (Proposal_from_block demo_externs (demo_block ts)) = Inr ()"
  by (simp add: validate_proposal_def Proposal_from_block_def demo_block_facts demo_vs_facts)

lemma demo_handle_block:
  "handle_block demo_externs (demo_block ts) demo_bft =
     (Inr (demo_vote_for (block_hash demo_externs (demo_block ts))), demo_voted ts (Some (demo_block ts)))"
  using demo_valid [of demo_bft ts]
  by (simp add: handle_block_def demo_voted_def demo_round_def demo_vote_for_def demo_bft_def round_entry_def default_round_def
      has_voted_def Let_def) (simp add: Proposal_from_block_def demo_block_facts)

lemma demo_voted_facts:
  "bft_height (demo_voted ts blk) = 0" "bft_validator_set (demo_voted ts blk) = demo_vs"
  "has_quorum (demo_voted ts blk) 1" "has_voted (demo_voted ts blk) 1"
  "om_get (bft_rounds (demo_voted ts blk)) 1 = Some (demo_round ts blk)"
  by (simp_all add: demo_voted_def demo_round_def demo_bft_def has_quorum_def om_keys_def om_insert.rep_eq om_empty.rep_eq demo_vs_facts
      has_voted_def mark_voted_def)

lemma demo_finalize:
  "\<exists>s'. finalize demo_externs now (block_hash demo_externs (demo_block ts)) (demo_voted ts (Some (demo_block ts))) =
     (Inr \<lparr>fin_block = demo_block ts, fin_timestamp = now\<rparr>, s') \<and> bft_height s' = 1"
  using demo_voted_facts [of ts "Some (demo_block ts)"]
  by (simp add: finalize_def try_finalize_def Let_def demo_round_def) (simp add: Proposal_from_block_def)

section \<open>Witnesses\<close>

theorem finality_irrevocable_witness:
  "\<exists>s s'. bft_reachable demo_externs (im_backend demo_externs) s \<and> bft_step demo_externs (im_backend demo_externs) s s'
     \<and> bft_height s = 0 \<and> bft_height s' = 1 \<and> om_get (bft_finalized s') 0 = om_get (bft_finalized s) 0"
proof -
  let ?s = "demo_voted 1 (Some (demo_block 1))"
  have "bft_reachable demo_externs (im_backend demo_externs) ?s"
    by (rule bft_reachable.step [OF bft_reachable.init [OF demo_bft_new] bft_step.step_block [OF demo_handle_block]])
  moreover obtain s' where s': "finalize demo_externs 9 (block_hash demo_externs (demo_block 1)) ?s =
     (Inr \<lparr>fin_block = demo_block 1, fin_timestamp = 9\<rparr>, s')" "bft_height s' = 1"
    using demo_finalize by blast
  moreover have "bft_step demo_externs (im_backend demo_externs) ?s s'"
    using s'(1) demo_voted_facts(1) by (intro bft_step.step_finalize) simp_all
  ultimately show ?thesis
    using finality_irrevocable [of demo_externs "im_backend demo_externs" ?s s'] demo_voted_facts(1) [of 1 "Some (demo_block 1)"]
    by auto
qed

theorem finalize_needs_quorum_witness:
  "\<exists>(s :: InMemoryBackend BftConsensus) s' r rd. finalize demo_externs 9 (block_hash demo_externs (demo_block 1)) s = (r, s')
     \<and> bft_height s' \<noteq> bft_height s \<and> om_get (bft_rounds s) 1 = Some rd
     \<and> 2 * total_nat (bft_validator_set s) < 3 * sum (power_nat (bft_validator_set s)) (voters rd)"
proof -
  let ?s = "demo_voted 1 (Some (demo_block 1))"
  obtain s' where s': "finalize demo_externs 9 (block_hash demo_externs (demo_block 1)) ?s =
     (Inr \<lparr>fin_block = demo_block 1, fin_timestamp = 9\<rparr>, s')" "bft_height s' = 1"
    using demo_finalize by blast
  with finalize_needs_quorum [OF s'(1)] demo_voted_facts(1,2) [of 1 "Some (demo_block 1)"] demo_vs_facts(6)
  have "\<exists>rd. om_get (bft_rounds ?s) 1 = Some rd \<and> 2 * total_nat demo_vs < 3 * sum (power_nat demo_vs) (voters rd)"
    by auto
  with s' demo_voted_facts(1,2) [of 1 "Some (demo_block 1)"] show ?thesis
    by (metis zero_neq_one)
qed

theorem conflicting_quorums_need_double_votes_witness:
  "\<exists>(s1 :: InMemoryBackend BftConsensus) (s2 :: InMemoryBackend BftConsensus) r1 r2. has_quorum s1 1 \<and> has_quorum s2 1
     \<and> om_get (bft_rounds s1) 1 = Some r1 \<and> om_get (bft_rounds s2) 1 = Some r2
     \<and> 1 < 3 * sum (power_nat demo_vs) {a. \<exists>v1 v2. om_get (rd_votes r1) a = Some v1 \<and> om_get (rd_votes r2) a = Some v2
             \<and> vote_block_hash v1 \<noteq> vote_block_hash v2}"
proof -
  let ?s = "\<lambda>ts. demo_voted ts (Some (demo_block ts))"
  let ?r = "\<lambda>ts. demo_round ts (Some (demo_block ts))"
  have votes: "\<forall>a v. om_get (rd_votes (?r ts)) a = Some v \<longrightarrow> vote_block_hash v = block_hash demo_externs (demo_block ts)" for ts
    by (simp add: demo_round_def demo_vote_for_def)
  have "1 < 3 * sum (power_nat demo_vs) {a. \<exists>v1 v2. om_get (rd_votes (?r 1)) a = Some v1 \<and> om_get (rd_votes (?r 2)) a = Some v2
             \<and> vote_block_hash v1 \<noteq> vote_block_hash v2}"
    using conflicting_quorums_need_double_votes [OF demo_voted_facts(2) demo_voted_facts(2) _ _ demo_voted_facts(3)
      demo_voted_facts(3) demo_voted_facts(5) demo_voted_facts(5) votes votes, of 1 2] demo_vs_facts(6) demo_block_facts(3)
    by simp
  with demo_voted_facts(3,5) show ?thesis by blast
qed

lemma demo_no_records: "validator_records demo_externs (im_backend demo_externs) s = Inr []" if "im_raw s = om_empty"
  using that by (simp add: validator_records_def im_backend_def im_iter_raw_prefix_filter om_empty.rep_eq)

text \<open>A height with a proposed block the local validator has voted for.\<close>

definition pending :: "'b BftConsensus \<Rightarrow> u64 \<Rightarrow> Block \<Rightarrow> bool" where
  "pending s h b \<longleftrightarrow> (\<exists>r p. om_get (bft_rounds s) h = Some r \<and> rd_proposal r = Some p
     \<and> pp_block_hash p = block_hash demo_externs b \<and> rd_block r = Some b \<and> \<not> rd_finalized r
     \<and> om_get (rd_votes r) zero32 \<noteq> None)"

lemma pending_cong:
  fixes s s' :: "'b BftConsensus"
  shows "om_get (bft_rounds s') h = om_get (bft_rounds s) h \<Longrightarrow> pending s' h b = pending s h b"
  by (simp add: pending_def)

lemma demo_propose:
  assumes "bft_local_address s = zero32" "bft_validator_set s = demo_vs"
    and "execute_all demo_externs (im_backend demo_externs) txs (bft_state s) = (Inr (), t)"
    and "validator_records demo_externs (im_backend demo_externs) t = Inr []" "om_get (bft_rounds s) h = None"
  shows "\<exists>b s'. propose demo_externs (im_backend demo_externs) now h txs s = (Inr b, s') \<and> bft_state s' = t
     \<and> bft_local_address s' = zero32 \<and> bft_validator_set s' = demo_vs \<and> same_chain s s'
     \<and> bh_previous_hash (blk_header b) = bft_previous_hash s
     \<and> (\<forall>h'. h' \<noteq> h \<longrightarrow> om_get (bft_rounds s') h' = om_get (bft_rounds s) h') \<and> pending s' h b"
proof -
  have "vs_is_empty (committee [])"
    by (simp add: committee_def active_candidates_def vs_is_empty_def om_is_empty_def ValidatorSet_new_def om_empty.rep_eq)
  then have "update_validator_set demo_externs (im_backend demo_externs) (s\<lparr>bft_state := t\<rparr>) = s\<lparr>bft_state := t\<rparr>"
    using assms(4) by (simp add: update_validator_set_def Let_def)
  moreover obtain root where "store_state_root (im_backend demo_externs) t = Inr root"
    by (simp add: store_state_root_def im_backend_def im_state_root_def)
  ultimately show ?thesis
    using assms(1-3,5) by (simp add: propose_def build_block_def act_run act_on_apply demo_vs_facts Let_def
        round_entry_def default_round_def pending_def)
qed

lemma demo_propose_empty:
  assumes "bft_local_address s = zero32" "bft_validator_set s = demo_vs" "bft_state s = demo_store" "om_get (bft_rounds s) h = None"
  shows "\<exists>b s'. propose demo_externs (im_backend demo_externs) now h [] s = (Inr b, s') \<and> bft_state s' = demo_store
     \<and> bft_local_address s' = zero32 \<and> bft_validator_set s' = demo_vs \<and> same_chain s s'
     \<and> bh_previous_hash (blk_header b) = bft_previous_hash s
     \<and> (\<forall>h'. h' \<noteq> h \<longrightarrow> om_get (bft_rounds s') h' = om_get (bft_rounds s) h') \<and> pending s' h b"
  using assms by (intro demo_propose demo_no_records) (simp_all add: demo_store_def)

theorem only_propose_changes_state_witness:
  "\<exists>s'. bft_step demo_externs (im_backend demo_externs) demo_bft s' \<and> bft_state s' \<noteq> bft_state demo_bft
     \<and> (\<exists>now h txs r. propose demo_externs (im_backend demo_externs) now h txs demo_bft = (r, s'))"
proof -
  obtain tx t where run: "block_execute demo_externs (im_backend demo_externs) tx demo_store = (Inr (success 21000 ''ok''), t)"
    "im_ledger demo_externs t \<noteq> im_ledger demo_externs demo_store" "im_ok demo_externs t" "lg_val (im_ledger demo_externs t) = Map.empty"
    by (metis demo_signed_transfer demo_transfer_runs)
  have "validator_records demo_externs (im_backend demo_externs) t = Inr []"
  proof -
    have "\<exists>rs. validator_records demo_externs (im_backend demo_externs) t = Inr rs \<and> (\<forall>a r. (a, r) \<notin> set rs)"
      using im.validator_records_law [of t demo_externs demo_externs] run(3,4) demo_json_ok
      by (auto simp: im_ok_def im_ledger_def fun_eq_iff)
    then show ?thesis by (metis list.set_sel(1) prod.exhaust)
  qed
  moreover have exec: "execute_all demo_externs (im_backend demo_externs) [tx] (bft_state demo_bft) = (Inr (), t)"
    using run(1) by (simp add: act_run demo_bft_def)
  ultimately obtain b s' where "propose demo_externs (im_backend demo_externs) 3 1 [tx] demo_bft = (Inr b, s')" "bft_state s' = t"
    using demo_propose [of demo_bft "[tx]" t 1 3] by auto
  moreover from this(1) have step: "bft_step demo_externs (im_backend demo_externs) demo_bft s'"
    by (rule bft_step.step_propose)
  moreover have "bft_state s' \<noteq> bft_state demo_bft"
    using run(2) \<open>bft_state s' = t\<close> by (auto simp: demo_bft_def)
  moreover note only_propose_changes_state [OF step this]
  ultimately show ?thesis by blast
qed

theorem equivocating_proposer_splits_finality_witness:
  "\<exists>sA sB s2. finalize demo_externs 9 (block_hash demo_externs (demo_block 1)) (demo_voted 1 (Some (demo_block 1))) =
       (Inr \<lparr>fin_block = demo_block 1, fin_timestamp = 9\<rparr>, sA)
     \<and> handle_block demo_externs (demo_block 2) (demo_voted 1 (Some (demo_block 1))) = (Inl InvalidVote, s2)
     \<and> finalize demo_externs 9 (block_hash demo_externs (demo_block 2)) s2 = (Inr \<lparr>fin_block = demo_block 2, fin_timestamp = 9\<rparr>, sB)"
proof -
  let ?s = "demo_voted 1 (Some (demo_block 1))"
  have "\<forall>a v. om_get (rd_votes (demo_round 1 (Some (demo_block 1)))) a = Some v \<longrightarrow>
      vote_block_hash v = block_hash demo_externs (demo_block 1)"
    by (simp add: demo_round_def demo_vote_for_def)
  with equivocating_proposer_splits_finality [of ?s 1 "demo_round 1 (Some (demo_block 1))" demo_externs "demo_block 1" "demo_block 2" 9]
    demo_voted_facts [of 1 "Some (demo_block 1)"] demo_valid [of ?s 1] demo_block_facts
  show ?thesis by (auto simp: demo_round_def)
qed

theorem finalize_before_block_stalls_witness:
  "\<exists>s1 s2. finalize demo_externs 9 (block_hash demo_externs (demo_block 1)) (demo_voted 1 None) = (Inl InvalidProposal, s1)
     \<and> handle_block demo_externs (demo_block 1) s1 = (Inl InvalidVote, s2)
     \<and> finalize demo_externs 10 (block_hash demo_externs (demo_block 1)) s2 = (Inr \<lparr>fin_block = demo_block 1, fin_timestamp = 10\<rparr>, s2)
     \<and> bft_height s2 = 0"
proof -
  let ?s = "demo_voted 1 None"
  have "\<exists>s1 s2. finalize demo_externs 9 (block_hash demo_externs (demo_block 1)) ?s = (Inl InvalidProposal, s1)
     \<and> handle_block demo_externs (demo_block 1) s1 = (Inl InvalidVote, s2)
     \<and> finalize demo_externs 10 (block_hash demo_externs (demo_block 1)) s2 = (Inr \<lparr>fin_block = demo_block 1, fin_timestamp = 10\<rparr>, s2)
     \<and> same_chain ?s s2"
    using demo_voted_facts [of 1 None] demo_valid [of ?s 1] demo_block_facts
    by (intro finalize_before_block_stalls [of ?s 1 "demo_round 1 None"]) (simp_all add: demo_round_def)
  with demo_voted_facts(1) [of 1 None] show ?thesis by (auto simp: same_chain_def)
qed

definition demo_records :: "(address \<times> ValidatorRecord) list" where
  "demo_records =
     [(zero32, ValidatorRecord_new zero32 [1] 200000000000000 0), (demo_address, ValidatorRecord_new demo_address [2] 5 0)]"

lemma zero32_not_demo: "zero32 \<noteq> demo_address"
proof -
  have "hd (bytes_of zero32) \<noteq> hd (bytes_of demo_address)"
    by (simp add: zero32_def demo_address_def bytes_of_array32_pad)
  then show ?thesis by auto
qed

theorem committee_is_top_by_stake_witness:
  "vs_power (committee demo_records) zero32 = Some 200000000000000 \<and> vs_len (committee demo_records) \<le> 100"
proof -
  have cand: "active_candidates demo_records = [(zero32, 200000000000000)]"
    by (simp add: active_candidates_def demo_records_def ValidatorRecord_new_def total_stake_def saturating_add_def
        MIN_ACTIVE_STAKE_def ONE_PMX_def min_def)
  have "distinct (map fst demo_records)"
    using zero32_not_demo by (simp add: demo_records_def)
  from committee_is_top_by_stake [OF this] committee_power [OF this, of zero32] show ?thesis
    by (simp add: elected_def cand MAX_ACTIVE_VALIDATORS_def)
qed

lemma singleton_list:
  assumes "distinct (map fst rs)" "\<And>p. p \<in> set rs \<longleftrightarrow> p = y"
  shows "rs = [y]"
proof (cases rs)
  case (Cons x xs)
  then have "x = y" using assms(2) [of x] by simp
  moreover have "xs = []" using assms(1) assms(2) [of "hd xs"] Cons \<open>x = y\<close> by (cases xs) auto
  ultimately show ?thesis using Cons by simp
qed (use assms(2) [of y] in simp)

theorem committee_power_within_supply_witness:
  "\<exists>records. validator_records demo_externs (im_backend demo_externs) demo_staked = Inr records
     \<and> total_nat (committee records) = 200000000000300 \<and> total_nat (committee records) \<le> wealth (im_ledger demo_externs demo_staked)
     \<and> total_nat (committee records) < 2 ^ 63"
proof -
  let ?rec = "(ValidatorRecord_new zero32 [1] 200000000000000 0)\<lparr>vr_delegated_stake := 300\<rparr>"
  have ok: "im_inv demo_staked" "decodable demo_externs (om_get (im_raw demo_staked))"
    using demo_staked_facts(1) demo_json_ok by (simp_all add: im_ok_def)
  obtain rs where rs: "validator_records demo_externs (im_backend demo_externs) demo_staked = Inr rs"
    "sorted_wrt (<) (map (\<lambda>p. validator_key (fst p)) rs)" "\<forall>a r. (a, r) \<in> set rs \<longleftrightarrow> lg_val (im_ledger demo_externs demo_staked) a = Some r"
    using im.validator_records_law [OF ok, of demo_externs] by (auto simp: im_ledger_def)
  have "rs = [(zero32, ?rec)]"
    using rs(3) by (intro singleton_list sorted_keys_distinct [OF rs(2)]) (metis (no_types, lifting) demo_staked_facts(5) fun_upd_apply option.distinct(1) option.inject surj_pair)
  have cand: "active_candidates [(zero32, ?rec)] = [(zero32, 200000000000300)]"
    by (simp add: active_candidates_def ValidatorRecord_new_def total_stake_def saturating_add_def
        MIN_ACTIVE_STAKE_def ONE_PMX_def min_def)
  have power: "power_nat (committee [(zero32, ?rec)]) a = (if a = zero32 then 200000000000300 else 0)" for a
    by (simp add: power_nat_def committee_power elected_def cand MAX_ACTIVE_VALIDATORS_def)
  note \<open>rs = [(zero32, ?rec)]\<close>
  moreover have "wealth (im_ledger demo_externs demo_staked) \<le> unat MAX_SUPPLY"
    by (simp add: demo_staked_facts(3) MAX_SUPPLY_def GENESIS_SUPPLY_def MAX_PROTOCOL_ISSUANCE_def ONE_PMX_def)
  moreover have "total_nat (committee [(zero32, ?rec)]) = 200000000000300"
    by (simp add: total_nat_def power sum.If_cases)
  ultimately show ?thesis
    using committee_power_within_supply [OF demo_json_ok demo_staked_facts(1) _ rs(1)] rs(1) by simp
qed

section \<open>An unlinked chain\<close>

lemma demo_finalize_next:
  assumes "bft_validator_set s = demo_vs" "bft_height s + 1 = h" "pending s h b"
  shows "\<exists>f s'. finalize demo_externs now (block_hash demo_externs b) s = (Inr f, s') \<and> extends_chain demo_externs s s' b
     \<and> bft_validator_set s' = demo_vs \<and> (\<forall>h'. h' \<noteq> h \<longrightarrow> om_get (bft_rounds s') h' = om_get (bft_rounds s) h')"
proof -
  obtain r p where r: "om_get (bft_rounds s) h = Some r" "rd_proposal r = Some p" "pp_block_hash p = block_hash demo_externs b"
    "rd_block r = Some b" "\<not> rd_finalized r" "om_get (rd_votes r) zero32 \<noteq> None"
    using assms(3) by (auto simp: pending_def)
  have "zero32 \<in> voters r" using r(6) by (auto simp: voters_def set_om_keys)
  then have "power_nat demo_vs zero32 \<le> sum (power_nat demo_vs) (voters r)" by (intro member_le_sum) simp_all
  moreover have "power_nat demo_vs zero32 = 1" by (simp add: power_nat_def vs_power_def demo_vs_facts(1))
  ultimately have "has_quorum s h"
    using assms(1) r(1) has_quorum_voters [of s h] by (simp add: demo_vs_facts)
  with assms r show ?thesis
    by (simp add: finalize_def try_finalize_def Let_def extends_chain_def)
qed

text \<open>
  Blocks are not required to extend the chain. A committee of one that proposes heights 1 and 2
  before finalizing them reaches a state in which both blocks are finalized and the second does not
  name the first as its predecessor: the previous hash is fixed when the block is built and checked
  nowhere. (The hash function of the example maps no block to the all-zero hash.)
\<close>

theorem unlinked_chain_reachable:
  "\<exists>s b1 b2. bft_reachable demo_externs (im_backend demo_externs) s
     \<and> om_get (bft_finalized s) 1 = Some b1 \<and> om_get (bft_finalized s) 2 = Some b2
     \<and> bh_previous_hash (blk_header b2) \<noteq> block_hash demo_externs b1"
proof -
  let ?E = demo_externs and ?B = "im_backend demo_externs"
  obtain b1 s1 where s1: "propose ?E ?B 3 1 [] demo_bft = (Inr b1, s1)" "bft_state s1 = demo_store" "bft_local_address s1 = zero32"
    "bft_validator_set s1 = demo_vs" "same_chain demo_bft s1" "pending s1 1 b1" "om_get (bft_rounds s1) 2 = None"
    using demo_propose_empty [of demo_bft 1 3] by auto
  obtain b2 s2 where s2: "propose ?E ?B 4 2 [] s1 = (Inr b2, s2)" "bft_validator_set s2 = demo_vs" "same_chain s1 s2"
    "bh_previous_hash (blk_header b2) = bft_previous_hash s1" "om_get (bft_rounds s2) 1 = om_get (bft_rounds s1) 1" "pending s2 2 b2"
    using demo_propose_empty [OF s1(3,4,2,7), of 4] by auto
  have p1: "pending s2 1 b1" using pending_cong [OF s2(5)] s1(6) by simp
  have h2: "bft_height s2 = 0" "bft_previous_hash s1 = zero32"
    using s1(5) s2(3) by (simp_all add: same_chain_def demo_bft_def)
  obtain f3 s3 where s3: "finalize ?E 5 (block_hash ?E b1) s2 = (Inr f3, s3)" "extends_chain ?E s2 s3 b1"
    "bft_validator_set s3 = demo_vs" "om_get (bft_rounds s3) 2 = om_get (bft_rounds s2) 2"
    using demo_finalize_next [OF s2(2) _ p1, of 5] h2(1) by auto
  have p2: "pending s3 2 b2" using pending_cong [OF s3(4)] s2(6) by simp
  have h3: "bft_height s3 = 1" using s3(2) h2(1) by (simp add: extends_chain_def)
  obtain f4 s4 where s4: "finalize ?E 6 (block_hash ?E b2) s3 = (Inr f4, s4)" "extends_chain ?E s3 s4 b2"
    using demo_finalize_next [OF s3(3) _ p2, of 6] h3 by auto
  have "bft_reachable ?E ?B s4"
    by (intro bft_reachable.step [OF bft_reachable.step [OF bft_reachable.step [OF bft_reachable.step [OF
          bft_reachable.init [OF demo_bft_new] bft_step.step_propose [OF s1(1)]] bft_step.step_propose [OF s2(1)]]
          bft_step.step_finalize [OF _ s3(1)]] bft_step.step_finalize [OF _ s4(1)]]) (simp_all add: h2 h3)
  moreover have "om_get (bft_finalized s4) 1 = Some b1" "om_get (bft_finalized s4) 2 = Some b2"
    using s3(2) s4(2) h2(1) h3 by (simp_all add: extends_chain_def)
  moreover have "block_hash ?E b1 \<noteq> zero32"
  proof -
    have "bh_height (blk_header b1) = 1"
      using s1(1) by (auto simp: propose_def build_block_def act_run act_on_apply Let_def split: sum.splits if_splits prod.splits)
    then have "hd (bytes_of (block_hash ?E b1)) = 1"
      by (simp add: block_hash_def hash_bytes_def demo_externs_def demo_header_def bytes_of_array32_pad)
    moreover have "hd (bytes_of zero32) = 0" by (simp add: zero32_def bytes_of_array32_pad)
    ultimately show ?thesis by auto
  qed
  ultimately show ?thesis using s2(4) h2(2) by metis
qed

theorem engine_well_formed_witness:
  "\<exists>r. om_get (bft_rounds (demo_voted 1 (Some (demo_block 1)))) 1 = Some r \<and> rd_block r = Some (demo_block 1)
     \<and> (\<forall>a v. om_get (rd_votes r) a = Some v \<longrightarrow> vote_voter v = a \<and> vote_height v = 1)"
proof -
  let ?s = "demo_voted 1 (Some (demo_block 1))"
  have "bft_reachable demo_externs (im_backend demo_externs) ?s"
    by (rule bft_reachable.step [OF bft_reachable.init [OF demo_bft_new] bft_step.step_block [OF demo_handle_block]])
  from engine_well_formed [OF this] show ?thesis
    using demo_voted_facts [of 1 "Some (demo_block 1)"] by (auto simp: demo_round_def)
qed

end
