(* ===== verification/Chain_Network.thy ===== *)
theory Chain_Network
  imports Node Bft_Examples
begin

text \<open>
  Engines composed to a network: what happens to a network that bootstrap.rs or testnet.rs sets up. Every node
  dials the validator before it in the list, so node \<open>i\<close> is connected to \<open>i - 1\<close> and \<open>i + 1\<close>; and the event loop of
  node.rs forwards nothing, so a node only handles what a directly connected peer has itself broadcast. The
  network here is as kind as it can be: a broadcast message may reach every connected peer, at any
  time, in any order and any number of times.
\<close>

section \<open>The network\<close>

record 'b net =
  net_nodes :: "nat \<Rightarrow> 'b BftConsensus"
  net_producers :: "nat \<Rightarrow> Producer"
  net_sent :: "nat \<Rightarrow> Message set"

definition adjacent :: "nat \<Rightarrow> nat \<Rightarrow> bool" where
  "adjacent i j \<longleftrightarrow> j = i + 1 \<or> i = j + 1"

text \<open>
  \<open>conn\<close> tells which nodes are connected. The production loop reads \<open>peer_count\<close> and waits while it is 0: at the time of a
  pass some of the connected nodes have been dialed, so a node without any connection always waits.
\<close>

inductive net_step :: "externs \<Rightarrow> 'b StateBackend \<Rightarrow> (nat \<Rightarrow> nat \<Rightarrow> bool) \<Rightarrow> nat \<Rightarrow> 'b net \<Rightarrow> 'b net \<Rightarrow> bool" for E B conn n where
  net_event: "i < n \<Longrightarrow> j < n \<Longrightarrow> conn i j \<Longrightarrow> m \<in> net_sent s i \<Longrightarrow>
     node_event E now (MessageReceived p m) (net_nodes s j) = (ms, blocks, c) \<Longrightarrow>
     net_step E B conn n s (s\<lparr>net_nodes := (net_nodes s)(j := c), net_sent := (net_sent s)(j := net_sent s j \<union> set ms)\<rparr>)"
| net_produce: "i < n \<Longrightarrow> peers \<le> card {j. j < n \<and> j \<noteq> i \<and> conn i j} \<Longrightarrow>
     node_produce E B now1 now2 (bft_local_address (net_nodes s i)) peers (net_producers s i) (net_nodes s i) = (ms, blocks, pr, c) \<Longrightarrow>
     net_step E B conn n s (s\<lparr>net_nodes := (net_nodes s)(i := c), net_producers := (net_producers s)(i := pr),
        net_sent := (net_sent s)(i := net_sent s i \<union> set ms)\<rparr>)"

section \<open>Votes a node can hold\<close>

text \<open>Every vote is filed under its voter, and the voter is in \<open>A\<close>.\<close>

definition filed :: "address set \<Rightarrow> (address, Vote) omap \<Rightarrow> bool" where
  "filed A votes \<longleftrightarrow> (\<forall>a v. om_get votes a = Some v \<longrightarrow> vote_voter v = a \<and> a \<in> A)"

definition votes_from :: "address set \<Rightarrow> 'b BftConsensus \<Rightarrow> bool" where
  "votes_from A c \<longleftrightarrow> (\<forall>h r. om_get (bft_rounds c) h = Some r \<longrightarrow> filed A (rd_votes r))"

lemma filed_insert [simp]: "filed A votes \<Longrightarrow> vote_voter v = a \<Longrightarrow> a \<in> A \<Longrightarrow> filed A (om_insert a v votes)"
  by (simp add: filed_def)

lemma round_filed [simp]: "votes_from A c \<Longrightarrow> filed A (rd_votes (round_entry c h))"
  by (auto simp: votes_from_def round_entry_def default_round_def filed_def split: option.splits)

lemma votes_from_set_round: "votes_from A c \<Longrightarrow> filed A (rd_votes r) \<Longrightarrow> votes_from A (set_round h r c)"
  by (auto simp: votes_from_def)

lemma votes_from_frame [simp]:
  "votes_from A (mark_voted h c) = votes_from A c" "votes_from A (c\<lparr>bft_state := t\<rparr>) = votes_from A c"
  "votes_from A (update_validator_set E B c) = votes_from A c"
  by (simp_all add: votes_from_def)

lemma handle_block_votes:
  assumes "votes_from A c" "bft_local_address c \<in> A" "handle_block E b c = (r, c')"
  shows "votes_from A c'" "r = Inr v \<Longrightarrow> vote_voter v = bft_local_address c"
    "bft_validator_set c' = bft_validator_set c" "bft_local_address c' = bft_local_address c"
  using assms by (auto simp: handle_block_def Let_def votes_from_set_round split: sum.splits if_splits)

lemma handle_vote_votes:
  assumes "votes_from A c" "vote_voter v \<in> A"
  shows "votes_from A (snd (handle_vote v c))" "bft_validator_set (snd (handle_vote v c)) = bft_validator_set c"
    "bft_local_address (snd (handle_vote v c)) = bft_local_address c"
  using assms by (auto simp: handle_vote_def Let_def votes_from_set_round split: sum.splits)

definition idle :: "externs \<Rightarrow> 'b StateBackend \<Rightarrow> 'b \<Rightarrow> bool" where
  "idle E B st \<longleftrightarrow> validator_records E B st = Inr []"

lemma idle_committee: "idle E B (bft_state c) \<Longrightarrow> update_validator_set E B c = c"
  by (simp add: idle_def update_validator_set_def committee_def active_candidates_def vs_is_empty_def ValidatorSet_new_def
      om_is_empty_def om_empty.rep_eq)

lemma propose_votes:
  assumes "votes_from A c" "bft_local_address c \<in> A" "idle E B (bft_state c)" "propose E B now h [] c = (r, c')"
  shows "votes_from A c'" "bft_validator_set c' = bft_validator_set c" "bft_state c' = bft_state c"
    "bft_local_address c' = bft_local_address c" "bft_height c' = bft_height c"
proof -
  have "update_validator_set E B c = c" by (rule idle_committee [OF assms(3)])
  then show "votes_from A c'" "bft_validator_set c' = bft_validator_set c" "bft_state c' = bft_state c"
    "bft_local_address c' = bft_local_address c" "bft_height c' = bft_height c"
    using assms(1,2,4)
    by (auto simp: propose_def build_block_def act_run act_on_apply Let_def votes_from_set_round
        split: prod.splits sum.splits if_splits)
qed

section \<open>No quorum\<close>

lemma unit_power: "power_nat (unit_validator_set as) a = (if a \<in> set as then 1 else 0)"
proof -
  have "om_get (vs_validators (fold (\<lambda>v vs. vs_add (val_address v) (val_power v) vs) (map (\<lambda>a. Validator_new a 1) as) vs)) a =
      (if a \<in> set as then Some 1 else om_get (vs_validators vs) a)" for vs
    by (induction as arbitrary: vs) (auto simp: vs_add_def Validator_new_def)
  then show ?thesis
    by (simp add: power_nat_def vs_power_def unit_validator_set_def from_validators_def ValidatorSet_new_def)
qed

lemma unit_total: "total_nat (unit_validator_set as) = card (set as)"
  by (simp add: total_nat_def unit_power sum.If_cases)

definition short_of_quorum :: "ValidatorSet \<Rightarrow> address set \<Rightarrow> bool" where
  "short_of_quorum vs A \<longleftrightarrow> total_nat vs < 2 ^ 63 \<and> sum (power_nat vs) A < 2 * total_nat vs div 3 + 1"

lemma no_quorum:
  assumes "short_of_quorum (bft_validator_set c) A" "votes_from A c"
  shows "\<not> has_quorum c h"
proof
  assume "has_quorum c h"
  moreover have small: "total_nat (bft_validator_set c) < 2 ^ 63" using assms(1) by (simp add: short_of_quorum_def)
  ultimately obtain r where r: "om_get (bft_rounds c) h = Some r"
    "2 * total_nat (bft_validator_set c) div 3 + 1 \<le> sum (power_nat (bft_validator_set c)) (voters r)"
    using has_quorum_voters [of c h] unat_quorum_threshold by fastforce
  have "voters r \<subseteq> A"
    using assms(2) r(1) by (fastforce simp: votes_from_def filed_def voters_def set_om_keys)
  then have "sum (power_nat (bft_validator_set c)) (voters r) \<le> sum (power_nat (bft_validator_set c)) A"
    by (intro sum_mono2) simp_all
  then show False using r(2) assms(1) by (simp add: short_of_quorum_def)
qed

lemma no_quorum_finalize:
  assumes "\<And>h. \<not> has_quorum c h"
  shows "node_finalize E now c = ([], c)"
proof -
  have fin: "\<exists>e. finalize E now bh c = (Inl e, c)" for bh
    using assms by (simp add: finalize_def try_finalize_def Let_def split: option.split)
  have "finalize_candidates E now hs None c = (None, c)" for hs
  proof (induction hs)
    case (Cons h hs)
    show ?case
    proof (cases "Option.bind (om_get (bft_rounds c) h) rd_proposal")
      case (Some p)
      obtain e where "finalize E now (pp_block_hash p) c = (Inl e, c)" using fin by blast
      with Some Cons.IH show ?thesis by simp
    qed (simp add: Cons.IH)
  qed simp
  then show ?thesis by (simp add: node_finalize_def finalize_pending_def)
qed

section \<open>The invariant\<close>

definition node_ok :: "address \<Rightarrow> ValidatorSet \<Rightarrow> 'b \<Rightarrow> address set \<Rightarrow> 'b BftConsensus \<Rightarrow> bool" where
  "node_ok a vs st A c \<longleftrightarrow> bft_local_address c = a \<and> bft_validator_set c = vs \<and> bft_state c = st
     \<and> bft_height c = 0 \<and> bft_finalized c = om_empty \<and> votes_from A c"

definition own_votes :: "externs \<Rightarrow> address \<Rightarrow> Message set \<Rightarrow> bool" where
  "own_votes E a ms \<longleftrightarrow> (\<forall>bs v. MsgVote bs \<in> ms \<longrightarrow> unjson_vote E bs = Some v \<longrightarrow> vote_voter v = a)"

lemma own_votes_simps [simp]:
  "own_votes E a {}" "own_votes E a (insert (MsgBlock b) ms) = own_votes E a ms"
  "json_ok E \<Longrightarrow> own_votes E a (insert (MsgVote (json_vote E v)) ms) \<longleftrightarrow> vote_voter v = a \<and> own_votes E a ms"
  by (auto simp: own_votes_def json_ok_def)

lemma node_ok_finalize:
  "node_ok a vs st A c \<Longrightarrow> short_of_quorum vs A \<Longrightarrow> node_finalize E now c = ([], c)"
  by (rule no_quorum_finalize, rule no_quorum) (auto simp: node_ok_def)

lemma node_event_ok:
  assumes ok: "node_ok a vs st A c" and a: "a \<in> A" and short: "short_of_quorum vs A" and json: "json_ok E"
    and m: "\<And>bs v. m = MsgVote bs \<Longrightarrow> unjson_vote E bs = Some v \<Longrightarrow> vote_voter v \<in> A"
    and ev: "node_event E now (MessageReceived p m) c = (ms, blocks, c')"
  shows "node_ok a vs st A c' \<and> own_votes E a (set ms)"
proof (cases m)
  case (MsgBlock b)
  obtain r c1 where hb: "handle_block E b c = (r, c1)" by fastforce
  have "votes_from A c" "bft_local_address c = a" using ok by (simp_all add: node_ok_def)
  note v = handle_block_votes [OF this(1) _ hb]
  have c1: "node_ok a vs st A c1"
    using ok v a handle_block_frame [OF hb] by (simp add: node_ok_def same_chain_def)
  show ?thesis
    using ev hb MsgBlock node_ok_finalize [OF c1 short] c1 v(2) a ok json
    by (auto simp: node_event_def node_ok_def split: sum.splits)
next
  case (MsgVote bs)
  show ?thesis
  proof (cases "unjson_vote E bs")
    case None
    then show ?thesis using ev MsgVote ok by (auto simp: node_event_def decode_apply)
  next
    case (Some v)
    have "votes_from A c" using ok by (simp add: node_ok_def)
    note hv = handle_vote_votes [OF this m [OF MsgVote Some]]
    obtain r c1 where hv1: "handle_vote v c = (r, c1)" by fastforce
    have c1: "node_ok a vs st A (snd (handle_vote v c))"
      using ok hv handle_vote_frame [OF hv1] hv1 by (simp add: node_ok_def same_chain_def)
    show ?thesis
      using ev MsgVote Some node_ok_finalize [OF c1 short] c1 by (auto simp: node_event_def decode_apply)
  qed
qed (use ev ok in \<open>auto simp: node_event_def\<close>)

lemma node_produce_ok:
  assumes ok: "node_ok a vs st A c" and a: "a \<in> A" and short: "short_of_quorum vs A" and json: "json_ok E" and idl: "idle E B st"
    and ev: "node_produce E B now1 now2 a peers pr c = (ms, blocks, pr', c')"
  shows "node_ok a vs st A c' \<and> own_votes E a (set ms)"
proof -
  have re: "rebroadcast E now2 h d = (ms', blocks', d') \<Longrightarrow> node_ok a vs st A d' \<and> own_votes E a (set ms')"
    if d: "node_ok a vs st A d" for h d ms' blocks' d'
  proof -
    have "vote_voter v = a" if "own_vote d h = Some v" for v
      using that d by (auto simp: own_vote_def node_ok_def votes_from_def filed_def bind_eq_Some_conv)
    then show "rebroadcast E now2 h d = (ms', blocks', d') \<Longrightarrow> node_ok a vs st A d' \<and> own_votes E a (set ms')"
      using node_ok_finalize [OF d short] json d by (auto simp: rebroadcast_def Let_def split: option.splits)
  qed
  have pr_ok: "node_ok a vs st A c1" if "propose E B now1 h [] c = (r, c1)" for h r c1
  proof -
    have "votes_from A c" "bft_local_address c \<in> A" "idle E B (bft_state c)" using ok a idl by (simp_all add: node_ok_def)
    from propose_votes [OF this that] show ?thesis
      using ok propose_same_chain [OF that] by (simp add: node_ok_def same_chain_def)
  qed
  show ?thesis
    using ev ok by (fastforce simp: node_produce_def split: if_splits prod.splits sum.splits dest: re pr_ok)
qed


section \<open>The network stalls\<close>

definition heard :: "address list \<Rightarrow> nat \<Rightarrow> address set" where
  "heard as j = {as ! i | i. i < length as \<and> (i = j \<or> adjacent i j)}"

lemma heard_card: "finite (heard as j) \<and> card (heard as j) \<le> 3"
proof -
  have "heard as j \<subseteq> set [as ! j, as ! (j - 1), as ! (j + 1)]" by (auto simp: heard_def adjacent_def)
  moreover have "card (set [as ! j, as ! (j - 1), as ! (j + 1)]) \<le> 3"
    using card_length [of "[as ! j, as ! (j - 1), as ! (j + 1)]"] by simp
  ultimately show ?thesis by (meson List.finite_set card_mono finite_subset order_trans)
qed

lemma heard_short:
  assumes "distinct as" "5 \<le> length as" "length as < 2 ^ 63"
  shows "short_of_quorum (unit_validator_set as) (heard as j)"
proof -
  have "sum (power_nat (unit_validator_set as)) (heard as j) \<le> card (heard as j)"
    using sum_bounded_above [of "heard as j" "power_nat (unit_validator_set as)" 1] by (simp add: unit_power)
  moreover have "total_nat (unit_validator_set as) = length as" using assms(1) by (simp add: unit_total distinct_card)
  ultimately show ?thesis using assms(2,3) heard_card [of as j] by (simp add: short_of_quorum_def)
qed

definition net_ok :: "externs \<Rightarrow> address list \<Rightarrow> 'b \<Rightarrow> 'b net \<Rightarrow> bool" where
  "net_ok E as st s \<longleftrightarrow> (\<forall>i<length as. node_ok (as ! i) (unit_validator_set as) st (heard as i) (net_nodes s i)
     \<and> own_votes E (as ! i) (net_sent s i))"

lemma own_votes_union [simp]: "own_votes E a (ms \<union> ms') \<longleftrightarrow> own_votes E a ms \<and> own_votes E a ms'"
  by (auto simp: own_votes_def)

lemma net_step_ok:
  assumes "net_step E B adjacent (length as) s s'" "net_ok E as st s" "json_ok E" "idle E B st"
    and short: "\<And>j. short_of_quorum (unit_validator_set as) (heard as j)"
  shows "net_ok E as st s'"
  using assms(1)
proof cases
  case (net_event i j m now p ms blocks c)
  have j: "node_ok (as ! j) (unit_validator_set as) st (heard as j) (net_nodes s j)"
    using assms(2) net_event by (simp add: net_ok_def)
  have "as ! j \<in> heard as j" using net_event by (auto simp: heard_def)
  moreover have "vote_voter v \<in> heard as j" if "m = MsgVote bs" "unjson_vote E bs = Some v" for bs v
  proof -
    have "vote_voter v = as ! i" using assms(2) net_event that by (auto simp: net_ok_def own_votes_def)
    then show ?thesis using net_event by (auto simp: heard_def)
  qed
  ultimately have "node_ok (as ! j) (unit_validator_set as) st (heard as j) c \<and> own_votes E (as ! j) (set ms)"
    using node_event_ok [OF j _ short assms(3) _ net_event(6)] by blast
  then show ?thesis using assms(2) net_event by (simp add: net_ok_def)
next
  case (net_produce i peers now1 now2 ms blocks pr c)
  have i: "node_ok (as ! i) (unit_validator_set as) st (heard as i) (net_nodes s i)"
    using assms(2) net_produce by (simp add: net_ok_def)
  have "as ! i \<in> heard as i" using net_produce by (auto simp: heard_def)
  moreover have "bft_local_address (net_nodes s i) = as ! i" using i by (simp add: node_ok_def)
  ultimately have "node_ok (as ! i) (unit_validator_set as) st (heard as i) c \<and> own_votes E (as ! i) (set ms)"
    using node_produce_ok [OF i _ short assms(3,4)] net_produce(4) by simp
  then show ?thesis using assms(2) net_produce by (simp add: net_ok_def)
qed

definition net_initial :: "address list \<Rightarrow> 'b \<Rightarrow> hash \<Rightarrow> 'b net \<Rightarrow> bool" where
  "net_initial as st genesis_hash s \<longleftrightarrow>
     (\<forall>i<length as. Bft_new_with_store (as ! i) (unit_validator_set as) st genesis_hash = Inr (net_nodes s i)
        \<and> net_producers s i = Producer_new \<and> net_sent s i = {})"

lemma new_node_ok: "Bft_new_with_store a vs st gh = Inr c \<Longrightarrow> node_ok a vs st A c"
  by (auto simp: Bft_new_with_store_def node_ok_def votes_from_def split: if_splits)

lemma net_initial_ok: "net_initial as st gh s \<Longrightarrow> net_ok E as st s"
  by (auto simp: net_initial_def net_ok_def intro: new_node_ok)

text \<open>
  C14. A chain of five or more validators never finalizes anything. When every validator is connected only to
  the validators next to it in the list, as \<open>bootstrap\<close> and the local testnet set the network up, and no
  validator is registered in the ledger, then in every state the network can reach, whatever the order, the delays and
  the repetitions of deliveries, every engine is still at height 0 with no finalized block: an engine hears
  the votes of at most three validators and nobody forwards the others.
\<close>

theorem chain_network_stalls:
  assumes "net_initial as st genesis_hash s" "(net_step E B adjacent (length as))\<^sup>*\<^sup>* s s'"
    and "json_ok E" "validator_records E B st = Inr []"
    and "distinct as" "5 \<le> length as" "length as < 2 ^ 63" "i < length as"
  shows "bft_height (net_nodes s' i) = 0 \<and> bft_finalized (net_nodes s' i) = om_empty"
proof -
  have "net_ok E as st s'" using assms(2)
  proof (induction rule: rtranclp_induct)
    case base
    show ?case using assms(1) by (rule net_initial_ok)
  next
    case (step s1 s2)
    show ?case
      using net_step_ok [OF step(2,3) assms(3) _ heard_short [OF assms(5,6,7)]] assms(4) by (simp add: idle_def)
  qed
  then show ?thesis using assms(8) by (simp add: net_ok_def node_ok_def)
qed


definition demo_validators :: "address list" where
  "demo_validators = map (\<lambda>i. array32 [i]) [1, 2, 3, 4, 5]"

lemma demo_validators_facts: "length demo_validators = 5" "distinct demo_validators"
proof -
  have "array32 [i] \<noteq> array32 [j]" if "i \<noteq> j" for i j :: u8
    using that by (simp add: bytes32_eq_iff bytes_of_array32_pad)
  then show "distinct demo_validators" by (simp add: demo_validators_def)
qed (simp add: demo_validators_def)

theorem chain_network_stalls_witness:
  "\<exists>(s :: InMemoryBackend net) s'. net_initial demo_validators demo_store zero32 s
     \<and> net_step demo_externs (im_backend demo_externs) adjacent 5 s s'
     \<and> bft_height (net_nodes s' 2) = 0 \<and> bft_finalized (net_nodes s' 2) = om_empty"
proof -
  have val: "is_validator (unit_validator_set demo_validators) a" if "a \<in> set demo_validators" for a
    using that unit_power [of demo_validators a] by (auto simp: is_validator_def power_nat_def vs_power_def om_contains_def split: option.splits)
  define node where "node i = (case Bft_new_with_store (demo_validators ! i) (unit_validator_set demo_validators) demo_store zero32 of
    Inl _ \<Rightarrow> undefined | Inr c \<Rightarrow> c)" for i
  define s where "s = \<lparr>net_nodes = node, net_producers = \<lambda>_. Producer_new, net_sent = \<lambda>_. {}\<rparr>"
  have init: "net_initial demo_validators demo_store zero32 s"
    using val by (auto simp: net_initial_def s_def node_def Bft_new_with_store_def)
  obtain ms blocks pr c where "node_produce demo_externs (im_backend demo_externs) 7 8 (bft_local_address (net_nodes s 2)) 2
      (net_producers s 2) (net_nodes s 2) = (ms, blocks, pr, c)" by (metis prod_cases4)
  moreover have "{j. j < 5 \<and> j \<noteq> 2 \<and> adjacent 2 j} = {1, 3 :: nat}" by (auto simp: adjacent_def)
  ultimately obtain s' where step: "net_step demo_externs (im_backend demo_externs) adjacent 5 s s'"
    using net_produce [of 2 5 2 adjacent] by fastforce
  then have "(net_step demo_externs (im_backend demo_externs) adjacent (length demo_validators))\<^sup>*\<^sup>* s s'"
    by (simp add: demo_validators_facts)
  from chain_network_stalls [OF init this demo_json_ok demo_no_records, of 2] init step show ?thesis
    by (auto simp: demo_validators_facts demo_store_def)
qed

end
