(* ===== verification/Agreement.thy ===== *)
theory Agreement
  imports Chain_Network
begin

text \<open>
  Agreement of the validators of a network. The steps are the critical sections of the loops in src/node/pemrix-node/src/node.rs, one per
  acquisition of the engine's lock, so that the two loops of a node interleave in every way the program allows; messages reach any node at any
  time, in any order and any number of times. Votes are not signed, and here anyone may forge them; a block may be forged as
  long as it does not name the proposer of its height.
\<close>

section \<open>The asynchronous network\<close>

definition pool :: "nat \<Rightarrow> 'b net \<Rightarrow> Message set" where
  "pool n s = (\<Union>i<n. net_sent s i)"

definition foreign :: "ValidatorSet \<Rightarrow> Block \<Rightarrow> bool" where
  "foreign vs b \<longleftrightarrow> proposer vs (bh_height (blk_header b)) 0 \<noteq> Some (bh_proposer (blk_header b))"

definition forgeries :: "ValidatorSet \<Rightarrow> Message set" where
  "forgeries vs = {m. \<forall>b. m = MsgBlock b \<longrightarrow> foreign vs b}"

definition put_node :: "nat \<Rightarrow> 'b BftConsensus \<Rightarrow> Producer \<Rightarrow> Message set \<Rightarrow> 'b net \<Rightarrow> 'b net" where
  "put_node i c pr ms s =
     s\<lparr>net_nodes := (net_nodes s)(i := c), net_producers := (net_producers s)(i := pr),
       net_sent := (net_sent s)(i := net_sent s i \<union> ms)\<rparr>"

text \<open>A failed proposal leaves \<open>last_proposed_height\<close>; the loop tries again in its next pass.\<close>

definition produce_propose :: "externs \<Rightarrow> 'b StateBackend \<Rightarrow> u64 \<Rightarrow> Producer \<Rightarrow> 'b BftConsensus \<Rightarrow> Producer \<times> 'b BftConsensus" where
  "produce_propose E B now pr c =
     (if pr_last_proposed_height pr \<noteq> Some (pr_height pr) then
        (case propose E B now (pr_height pr) [] c of
           (Inl _, c') \<Rightarrow> (pr, c')
         | (Inr _, c') \<Rightarrow> (pr\<lparr>pr_last_proposed_height := Some (pr_height pr)\<rparr>, c'))
      else (pr, c))"

definition event_block :: "externs \<Rightarrow> Block \<Rightarrow> 'b BftConsensus \<Rightarrow> Message set \<times> 'b BftConsensus" where
  "event_block E b c =
     (case handle_block E b c of
        (Inr vote, c') \<Rightarrow> ({MsgVote (encode (json_vote E) vote)}, c')
      | (Inl _, c') \<Rightarrow> ({}, c'))"

text \<open>
  \<open>F\<close> is what others may put into the network besides the messages the nodes send. A step asks for less than the loops do: the production loop
  first looks whether the node is the proposer, and a vote is finalized under the lock it was counted under. As in \<open>bft_step\<close>, no node goes beyond the largest 64-bit height.
\<close>

inductive async_step :: "externs \<Rightarrow> 'b StateBackend \<Rightarrow> Message set \<Rightarrow> nat \<Rightarrow> 'b net \<Rightarrow> 'b net \<Rightarrow> bool" for E B F n where
  async_propose: "i < n \<Longrightarrow> produce_propose E B now (net_producers s i) (net_nodes s i) = (pr, c) \<Longrightarrow>
     async_step E B F n s (put_node i c pr {} s)"
| async_send_block: "i < n \<Longrightarrow> own_proposal (net_nodes s i) (pr_height (net_producers s i)) = Some b \<Longrightarrow>
     async_step E B F n s (put_node i (net_nodes s i) (net_producers s i) {MsgBlock b} s)"
| async_send_vote: "i < n \<Longrightarrow> own_vote (net_nodes s i) (pr_height (net_producers s i)) = Some v \<Longrightarrow>
     async_step E B F n s (put_node i (net_nodes s i) (net_producers s i) {MsgVote (encode (json_vote E) v)} s)"
| async_finalize: "i < n \<Longrightarrow> node_finalize E now (net_nodes s i) = (blocks, c) \<Longrightarrow>
     async_step E B F n s (put_node i c (net_producers s i) {} s)"
| async_advance: "i < n \<Longrightarrow> bft_height (net_nodes s i) \<noteq> - 1 \<Longrightarrow>
     async_step E B F n s (put_node i (net_nodes s i) (next_height (net_nodes s i) (net_producers s i)) {} s)"
| async_block: "i < n \<Longrightarrow> MsgBlock b \<in> pool n s \<union> F \<Longrightarrow> event_block E b (net_nodes s i) = (ms, c) \<Longrightarrow>
     async_step E B F n s (put_node i c (net_producers s i) ms s)"
| async_vote: "i < n \<Longrightarrow> MsgVote bytes \<in> pool n s \<union> F \<Longrightarrow> decode (unjson_vote E) bytes = Inr v \<Longrightarrow>
     handle_vote v (net_nodes s i) = (r, c) \<Longrightarrow>
     async_step E B F n s (put_node i c (net_producers s i) {} s)"

section \<open>The invariant\<close>

text \<open>\<open>P\<close> is the block proposed for a height, if any. Everything a node holds for a height is that block.\<close>

type_synonym proposals = "u64 \<rightharpoonup> Block"

definition entry_ok :: "externs \<Rightarrow> hash \<Rightarrow> ValidatorSet \<Rightarrow> proposals \<Rightarrow> u64 \<Rightarrow> Block \<Rightarrow> bool" where
  "entry_ok E g vs P h b \<longleftrightarrow>
     0 < h \<and> bh_height (blk_header b) = h \<and> bb_transactions (blk_body b) = [] \<and>
     proposer vs h 0 = Some (bh_proposer (blk_header b)) \<and>
     (if h = 1 then bh_previous_hash (blk_header b) = g
      else \<exists>b'. P (h - 1) = Some b' \<and> bh_previous_hash (blk_header b) = block_hash E b')"

definition proposed_ok :: "externs \<Rightarrow> hash \<Rightarrow> ValidatorSet \<Rightarrow> proposals \<Rightarrow> bool" where
  "proposed_ok E g vs P \<longleftrightarrow> (\<forall>h b. P h = Some b \<longrightarrow> entry_ok E g vs P h b)"

lemma map_le_Some: "P \<subseteq>\<^sub>m P' \<Longrightarrow> P h = Some b \<Longrightarrow> P' h = Some b"
  by (metis domI map_le_def)

lemma entry_mono: "entry_ok E g vs P h b \<Longrightarrow> P \<subseteq>\<^sub>m P' \<Longrightarrow> entry_ok E g vs P' h b"
  by (auto simp: entry_ok_def dest: map_le_Some split: if_splits)

definition rounds_ok :: "proposals \<Rightarrow> 'b BftConsensus \<Rightarrow> bool" where
  "rounds_ok P c \<longleftrightarrow> om_get (bft_rounds c) 0 = None \<and>
     (\<forall>h r b. om_get (bft_rounds c) h = Some r \<longrightarrow> rd_block r = Some b \<longrightarrow> P h = Some b)"

definition chain_ok :: "externs \<Rightarrow> hash \<Rightarrow> proposals \<Rightarrow> 'b BftConsensus \<Rightarrow> bool" where
  "chain_ok E g P c \<longleftrightarrow> chain_inv E c \<and> (bft_height c = 0 \<longrightarrow> bft_previous_hash c = g) \<and>
     (\<forall>h b. om_get (bft_finalized c) h = Some b \<longrightarrow> P h = Some b)"

definition engine_ok :: "externs \<Rightarrow> hash \<Rightarrow> ValidatorSet \<Rightarrow> 'b \<Rightarrow> proposals \<Rightarrow> address \<Rightarrow> 'b BftConsensus \<Rightarrow> bool" where
  "engine_ok E g vs st P a c \<longleftrightarrow> bft_local_address c = a \<and> bft_validator_set c = vs \<and> bft_state c = st \<and>
     chain_ok E g P c \<and> rounds_ok P c"

definition producer_ok :: "ValidatorSet \<Rightarrow> proposals \<Rightarrow> address \<Rightarrow> Producer \<Rightarrow> 'b BftConsensus \<Rightarrow> bool" where
  "producer_ok vs P a pr c \<longleftrightarrow> pr_height pr \<noteq> 0 \<and> unat (pr_height pr) \<le> unat (bft_height c) + 1 \<and>
     (\<forall>h b. P h = Some b \<and> proposer vs h 0 = Some a \<longrightarrow>
        h < pr_height pr \<or> h = pr_height pr \<and> pr_last_proposed_height pr = Some h)"

text \<open>The committee in force is the one the ledger's records give, or there are none.\<close>

definition settled :: "externs \<Rightarrow> 'b StateBackend \<Rightarrow> 'b \<Rightarrow> ValidatorSet \<Rightarrow> bool" where
  "settled E B st vs \<longleftrightarrow>
     (\<forall>records. validator_records E B st = Inr records \<longrightarrow> vs_is_empty (committee records) \<or> committee records = vs)"

lemma settled_update:
  "settled E B (bft_state c) (bft_validator_set c) \<Longrightarrow> update_validator_set E B c = c"
  by (auto simp: settled_def update_validator_set_def Let_def split: sum.splits)

lemma engine_mono: "engine_ok E g vs st P a c \<Longrightarrow> P \<subseteq>\<^sub>m P' \<Longrightarrow> engine_ok E g vs st P' a c"
  by (auto simp: engine_ok_def chain_ok_def rounds_ok_def map_le_def dom_def)

section \<open>Every method keeps the invariant\<close>

lemma chain_ok_same: "same_chain c c' \<Longrightarrow> chain_ok E g P c \<Longrightarrow> chain_ok E g P c'"
  by (simp add: same_chain_def chain_ok_def chain_inv_def)

lemma rounds_ok_set:
  assumes "rounds_ok P c" "h \<noteq> 0" "\<And>b. rd_block r = Some b \<Longrightarrow> P h = Some b"
  shows "rounds_ok P (set_round h r c)"
  using assms by (auto simp: rounds_ok_def)

lemma rounds_ok_entry: "rounds_ok P c \<Longrightarrow> rd_block (round_entry c h) = Some b \<Longrightarrow> P h = Some b"
  by (auto simp: rounds_ok_def round_entry_def default_round_def split: option.splits)

lemma rounds_ok_mark [simp]: "rounds_ok P (mark_voted h c) = rounds_ok P c"
  by (simp add: rounds_ok_def)

lemma chain_ok_frame [simp]:
  "chain_ok E g P (mark_voted h c) = chain_ok E g P c" "chain_ok E g P (set_round h r c) = chain_ok E g P c"
  by (simp_all add: chain_ok_def chain_inv_def)

lemma handle_vote_engine:
  assumes "engine_ok E g vs st P a c" "handle_vote v c = (r, c')"
  shows "engine_ok E g vs st P a c'"
proof (cases "validate_vote c v")
  case (Inr u)
  then have "vote_height v \<noteq> 0" by (auto simp: validate_vote_def split: if_splits)
  then show ?thesis
    using assms Inr rounds_ok_entry [of P c "vote_height v"]
    by (auto simp: handle_vote_def engine_ok_def Let_def intro!: rounds_ok_set)
qed (use assms in \<open>simp add: handle_vote_def\<close>)

lemma handle_block_engine:
  assumes "engine_ok E g vs st P a c" "P (bh_height (blk_header b)) = Some b \<or> foreign vs b" "handle_block E b c = (r, c')"
  shows "engine_ok E g vs st P a c'"
proof (cases "validate_proposal c (Proposal_from_block E b)")
  case (Inr u)
  have vs: "bft_validator_set c = vs" using assms(1) by (simp add: engine_ok_def)
  have "bh_height (blk_header b) \<noteq> 0" and "\<not> foreign vs b"
    using Inr vs by (auto simp: validate_proposal_def bind_result_eq_Inr Proposal_from_block_def foreign_def split: if_splits)
  with assms Inr show ?thesis
    by (auto simp: handle_block_def engine_ok_def Proposal_from_block_def Let_def split: if_splits intro!: rounds_ok_set)
qed (use assms in \<open>simp add: handle_block_def\<close>)

lemma event_block_engine:
  assumes "engine_ok E g vs st P a c" "P (bh_height (blk_header b)) = Some b \<or> foreign vs b" "event_block E b c = (ms, c')"
  shows "engine_ok E g vs st P a c'" "MsgBlock b' \<notin> ms" "bft_height c' = bft_height c"
proof -
  obtain r c1 where hb: "handle_block E b c = (r, c1)" by fastforce
  then show "engine_ok E g vs st P a c'" "MsgBlock b' \<notin> ms" "bft_height c' = bft_height c"
    using handle_block_engine [OF assms(1,2)] handle_block_frame [OF hb] assms(3)
    by (auto simp: event_block_def same_chain_def split: sum.splits)
qed

lemma try_finalize_rounds:
  assumes "rounds_ok P c" "h \<noteq> 0" "try_finalize E h c = (x, c')"
  shows "rounds_ok P c'" "bft_local_address c' = bft_local_address c" "bft_validator_set c' = bft_validator_set c"
  using assms by (auto simp: try_finalize_def rounds_ok_def Let_def split: if_splits option.splits)

lemma finalize_engine:
  assumes "engine_ok E g vs st P a c" "finalize E now bh c = (r, c')"
  shows "engine_ok E g vs st P a c' \<and> bft_height c \<le> bft_height c'"
proof (cases "bft_height c = - 1")
  case True
  then have "om_get (bft_rounds c) (bft_height c + 1) = None"
    using assms(1) by (simp add: engine_ok_def rounds_ok_def)
  then show ?thesis using assms by (simp add: finalize_def Let_def)
next
  case False
  obtain x t where tf: "try_finalize E (bft_height c + 1) c = (x, t)" by fastforce
  note next_h = u64_next [OF False]
  have ok: "chain_ok E g P c" "rounds_ok P c" using assms(1) by (simp_all add: engine_ok_def)
  have r: "rounds_ok P t" "bft_local_address t = bft_local_address c" "bft_validator_set t = bft_validator_set c"
    using try_finalize_rounds [OF ok(2) _ tf] next_h(2) by auto
  then have rest: "rounds_ok P c'" "bft_local_address c' = bft_local_address c" "bft_validator_set c' = bft_validator_set c"
    using assms(2) ok(2) tf by (auto simp: finalize_def Let_def split: option.splits if_splits)
  have "chain_inv E c'" using chain_inv_step [of E c B c' for B] step_finalize [OF False assms(2)] ok(1) by (auto simp: chain_ok_def)
  with finalize_frame [OF assms(2)] ok have "chain_ok E g P c' \<and> bft_height c \<le> bft_height c'"
    using next_h(1,2) by (auto simp: chain_ok_def same_chain_def extends_chain_def rounds_ok_def split: if_splits)
  then show ?thesis using rest assms(1) finalize_frame [OF assms(2)] by (simp add: engine_ok_def)
qed

lemma node_finalize_engine:
  assumes "engine_ok E g vs st P a c" "node_finalize E now c = (blocks, c')"
  shows "engine_ok E g vs st P a c' \<and> bft_height c \<le> bft_height c'"
proof -
  have "engine_ok E g vs st P a d' \<and> bft_height d \<le> bft_height d'"
    if "engine_ok E g vs st P a d" "finalize_candidates E now hs found d = (x, d')" for hs found d x d'
    using that
  proof (induction hs arbitrary: found d)
    case (Cons h hs)
    show ?case
    proof (cases "Option.bind (om_get (bft_rounds d) h) rd_proposal")
      case None
      with Cons show ?thesis by simp
    next
      case (Some p)
      obtain r d1 where fin: "finalize E now (pp_block_hash p) d = (r, d1)" by fastforce
      with Cons.prems Some obtain found' where "finalize_candidates E now hs found' d1 = (x, d')" by (auto split: sum.splits)
      with Cons.IH finalize_engine [OF Cons.prems(1) fin] show ?thesis by (meson order_trans)
    qed
  qed simp
  then show ?thesis
    using assms by (auto simp: node_finalize_def finalize_pending_def split: prod.splits option.splits)
qed

text \<open>A proposal without transactions: refused, failed without effect, or a block for its height on top of the proposer's tip.\<close>

lemma propose_empty:
  assumes "engine_ok E g vs st P a c" "settled E B st vs" "propose E B now h [] c = (r, c')"
  obtains (failed) e where "r = Inl e" "c' = c"
  | (proposed) b R where "r = Inr b" "proposer vs h 0 = Some a" "c' = mark_voted h (set_round h R c)" "rd_block R = Some b"
      "bh_height (blk_header b) = h" "bh_proposer (blk_header b) = a" "bh_previous_hash (blk_header b) = bft_previous_hash c"
      "bb_transactions (blk_body b) = []"
proof -
  have "update_validator_set E B c = c" by (rule settled_update) (use assms in \<open>simp add: engine_ok_def\<close>)
  then show ?thesis
    using assms that
    by (auto simp: propose_def build_block_def act_run act_on_apply Let_def engine_ok_def split: sum.splits option.splits if_splits)
qed

lemma unat_next:
  fixes k :: u64
  assumes "k \<noteq> - 1"
  shows "unat (k + 1) = unat k + 1"
proof -
  have "1 + k \<noteq> 0" using assms by (metis add.commute eq_neg_iff_add_eq_0)
  then show ?thesis using unatSuc [of k] by (simp add: add.commute)
qed

text \<open>A node only proposes for the height after its own, and only when nothing has been proposed for it.\<close>

lemma proposes_next:
  assumes "engine_ok E g vs st P a c" "producer_ok vs P a pr c" "proposer vs (pr_height pr) 0 = Some a"
    and "pr_last_proposed_height pr \<noteq> Some (pr_height pr)"
  shows "P (pr_height pr) = None" "bft_height c \<noteq> - 1" "pr_height pr = bft_height c + 1"
proof -
  show none: "P (pr_height pr) = None"
    using assms(2-4) by (cases "P (pr_height pr)") (auto simp: producer_ok_def)
  have "\<not> pr_height pr \<le> bft_height c"
  proof
    assume "pr_height pr \<le> bft_height c"
    moreover have "0 < pr_height pr" using assms(2) by (simp add: producer_ok_def word_gt_0)
    ultimately have "om_get (bft_finalized c) (pr_height pr) \<noteq> None"
      using assms(1) by (simp add: engine_ok_def chain_ok_def chain_inv_def)
    then show False using assms(1) none by (auto simp: engine_ok_def chain_ok_def)
  qed
  then show top: "bft_height c \<noteq> - 1" by (metis word_order.extremum)
  have "pr_height pr \<le> bft_height c + 1" using assms(2) unat_next [OF top] by (simp add: producer_ok_def word_le_nat_alt)
  then show "pr_height pr = bft_height c + 1"
    using \<open>\<not> pr_height pr \<le> bft_height c\<close> u64_next(3) [OF top] by blast
qed

lemma engine_proposed:
  assumes "engine_ok E g vs st P a c" "P h = None" "h \<noteq> 0" "rd_block R = Some b"
  shows "engine_ok E g vs st (P(h \<mapsto> b)) a (mark_voted h (set_round h R c))"
proof -
  have "engine_ok E g vs st (P(h \<mapsto> b)) a c" by (rule engine_mono [OF assms(1)]) (auto simp: map_le_def assms(2))
  then show ?thesis using assms(3,4) by (auto simp: engine_ok_def intro!: rounds_ok_set)
qed

lemma proposed_ok_extend:
  assumes ok: "proposed_ok E g vs P" and none: "P h = None" and c: "engine_ok E g vs st P a c"
    and h: "h = bft_height c + 1" and top: "bft_height c \<noteq> - 1"
    and b: "bh_height (blk_header b) = h" "bh_previous_hash (blk_header b) = bft_previous_hash c" "bb_transactions (blk_body b) = []"
      "proposer vs h 0 = Some (bh_proposer (blk_header b))"
  shows "proposed_ok E g vs (P(h \<mapsto> b))"
proof -
  have "entry_ok E g vs P h b"
  proof (cases "bft_height c = 0")
    case True
    then show ?thesis using c h b by (simp add: entry_ok_def engine_ok_def chain_ok_def)
  next
    case False
    then have "0 < bft_height c" by (simp add: word_gt_0)
    with c obtain b' where "P (bft_height c) = Some b'" "bft_previous_hash c = block_hash E b'"
      by (auto simp: engine_ok_def chain_ok_def chain_inv_def)
    then show ?thesis using b h False u64_next(2) [OF top] by (simp add: entry_ok_def)
  qed
  moreover have "P \<subseteq>\<^sub>m P(h \<mapsto> b)" using none by (auto simp: map_le_def)
  ultimately show ?thesis using ok unfolding proposed_ok_def by (auto intro: entry_mono split: if_splits)
qed

definition agreed ::
    "externs \<Rightarrow> hash \<Rightarrow> ValidatorSet \<Rightarrow> (nat \<Rightarrow> 'b) \<Rightarrow> address list \<Rightarrow> proposals \<Rightarrow> 'b net \<Rightarrow> bool" where
  "agreed E g vs st as P s \<longleftrightarrow> proposed_ok E g vs P \<and>
     (\<forall>i<length as. engine_ok E g vs (st i) P (as ! i) (net_nodes s i)
        \<and> producer_ok vs P (as ! i) (net_producers s i) (net_nodes s i)
        \<and> (\<forall>b. MsgBlock b \<in> net_sent s i \<longrightarrow> P (bh_height (blk_header b)) = Some b))"

lemma agreedD:
  assumes "agreed E g vs st as P s"
  shows "proposed_ok E g vs P" "i < length as \<Longrightarrow> engine_ok E g vs (st i) P (as ! i) (net_nodes s i)"
    "i < length as \<Longrightarrow> producer_ok vs P (as ! i) (net_producers s i) (net_nodes s i)"
    "i < length as \<Longrightarrow> MsgBlock b \<in> net_sent s i \<Longrightarrow> P (bh_height (blk_header b)) = Some b"
  using assms by (simp_all add: agreed_def)

lemma agreed_put:
  assumes "agreed E g vs st as P s" "i < length as" "engine_ok E g vs (st i) P (as ! i) c"
    and "producer_ok vs P (as ! i) pr c" "\<And>b. MsgBlock b \<in> ms \<Longrightarrow> P (bh_height (blk_header b)) = Some b"
  shows "agreed E g vs st as P (put_node i c pr ms s)"
  using assms by (auto simp: agreed_def put_node_def)

lemma producer_ok_height: "producer_ok vs P a pr c \<Longrightarrow> bft_height c \<le> bft_height c' \<Longrightarrow> producer_ok vs P a pr c'"
  by (auto simp: producer_ok_def word_le_nat_alt)

lemma producer_ok_next:
  assumes "producer_ok vs P a pr c" "bft_height c \<noteq> - 1"
  shows "producer_ok vs P a (next_height c pr) c"
proof (cases "pr_height pr \<le> bft_height c")
  case True
  have "h < bft_height c + 1" if "h \<le> pr_height pr" for h
    using that True u64_next(1) [OF assms(2)] by (meson order.strict_trans1 order_trans)
  then show ?thesis
    using assms True u64_next(2) [OF assms(2)] unat_next [OF assms(2)]
    by (auto simp: producer_ok_def next_height_def)
qed (use assms in \<open>simp add: next_height_def\<close>)

text \<open>A new proposal, seen from the other nodes.\<close>

lemma agreed_extend:
  assumes "agreed E g vs st as P s" "distinct as" "i < length as" "P h = None" "proposed_ok E g vs (P(h \<mapsto> b))"
    and "engine_ok E g vs (st i) (P(h \<mapsto> b)) (as ! i) c" "producer_ok vs (P(h \<mapsto> b)) (as ! i) pr c" "proposer vs h 0 = Some (as ! i)"
  shows "agreed E g vs st as (P(h \<mapsto> b)) (put_node i c pr {} s)"
proof -
  have le: "P \<subseteq>\<^sub>m P(h \<mapsto> b)" using assms(4) by (auto simp: map_le_def)
  have "engine_ok E g vs (st j) (P(h \<mapsto> b)) (as ! j) (net_nodes s j)
      \<and> producer_ok vs (P(h \<mapsto> b)) (as ! j) (net_producers s j) (net_nodes s j)
      \<and> (\<forall>x. MsgBlock x \<in> net_sent s j \<longrightarrow> (P(h \<mapsto> b)) (bh_height (blk_header x)) = Some x)"
    if j: "j < length as" "j \<noteq> i" for j
  proof (intro conjI allI impI)
    show "engine_ok E g vs (st j) (P(h \<mapsto> b)) (as ! j) (net_nodes s j)"
      by (rule engine_mono [OF agreedD(2) [OF assms(1) j(1)] le])
    have "as ! j \<noteq> as ! i" using assms(2,3) j by (simp add: nth_eq_iff_index_eq)
    then show "producer_ok vs (P(h \<mapsto> b)) (as ! j) (net_producers s j) (net_nodes s j)"
      using agreedD(3) [OF assms(1) j(1)] assms(8) by (auto simp: producer_ok_def)
    show "(P(h \<mapsto> b)) (bh_height (blk_header x)) = Some x" if "MsgBlock x \<in> net_sent s j" for x
      using agreedD(4) [OF assms(1) j(1) that] assms(4) by auto
  qed
  moreover have "(P(h \<mapsto> b)) (bh_height (blk_header x)) = Some x" if "MsgBlock x \<in> net_sent s i" for x
    using agreedD(4) [OF assms(1,3) that] assms(4) by auto
  ultimately show ?thesis
    using assms(3,5-7) by (simp add: agreed_def put_node_def del: fun_upd_apply) (simp add: fun_upd_def)
qed

lemma agreed_propose:
  assumes inv: "agreed E g vs st as P s" "distinct as" "i < length as" "settled E B (st i) vs"
    and step: "produce_propose E B now (net_producers s i) (net_nodes s i) = (pr, c)"
  shows "\<exists>P'. agreed E g vs st as P' (put_node i c pr {} s)"
proof (cases "pr_last_proposed_height (net_producers s i) = Some (pr_height (net_producers s i))")
  case True
  then show ?thesis
    using step agreed_put [OF inv(1,3) agreedD(2) [OF inv(1,3)] agreedD(3) [OF inv(1,3)]]
    by (auto simp: produce_propose_def)
next
  case False
  let ?pr = "net_producers s i" and ?c = "net_nodes s i"
  note c = agreedD(2) [OF inv(1,3)] and pr = agreedD(3) [OF inv(1,3)]
  obtain r c' where run: "propose E B now (pr_height ?pr) [] ?c = (r, c')" by fastforce
  from c inv(4) run show ?thesis
  proof (cases rule: propose_empty)
    case (failed e)
    then show ?thesis using step False run agreed_put [OF inv(1,3) c pr] by (auto simp: produce_propose_def)
  next
    case (proposed b R)
    note new = proposes_next [OF c pr proposed(2) False]
    have res: "pr = ?pr\<lparr>pr_last_proposed_height := Some (pr_height ?pr)\<rparr>" "c = mark_voted (pr_height ?pr) (set_round (pr_height ?pr) R ?c)"
      using step False run proposed(1,3) by (auto simp: produce_propose_def)
    have "pr_height ?pr \<noteq> 0" using pr by (simp add: producer_ok_def)
    then have "engine_ok E g vs (st i) (P(pr_height ?pr \<mapsto> b)) (as ! i) c"
      unfolding res using engine_proposed [OF c new(1) _ proposed(4)] by simp
    moreover have "producer_ok vs (P(pr_height ?pr \<mapsto> b)) (as ! i) pr c"
      using pr unfolding res by (auto simp: producer_ok_def)
    moreover have "proposed_ok E g vs (P(pr_height ?pr \<mapsto> b))"
      using proposed_ok_extend [OF agreedD(1) [OF inv(1)] new(1) c new(3,2) proposed(5,7,8)] proposed(2,6) by simp
    ultimately show ?thesis using agreed_extend [OF inv(1-3) new(1)] proposed(2) by blast
  qed
qed

lemma agreed_step:
  assumes "async_step E B (forgeries vs) (length as) s s'" "agreed E g vs st as P s" "distinct as" "\<forall>i<length as. settled E B (st i) vs"
  shows "\<exists>P'. agreed E g vs st as P' s'"
  using assms(1)
proof cases
  case (async_propose i now pr c)
  then show ?thesis using agreed_propose [OF assms(2,3)] assms(4) by blast
next
  case (async_send_block i b)
  note c = agreedD(2) [OF assms(2) async_send_block(2)]
  have "P (pr_height (net_producers s i)) = Some b"
    using c async_send_block(3) by (auto simp: own_proposal_def bind_eq_Some_conv engine_ok_def rounds_ok_def)
  moreover from this have "bh_height (blk_header b) = pr_height (net_producers s i)"
    using agreedD(1) [OF assms(2)] by (auto simp: proposed_ok_def entry_ok_def)
  ultimately show ?thesis
    using agreed_put [OF assms(2) async_send_block(2) c agreedD(3) [OF assms(2) async_send_block(2)], of "{MsgBlock b}"] async_send_block(1)
    by auto
next
  case (async_send_vote i v)
  show ?thesis
    using agreed_put [OF assms(2) async_send_vote(2) agreedD(2) [OF assms(2) async_send_vote(2)]
        agreedD(3) [OF assms(2) async_send_vote(2)], of "{MsgVote (encode (json_vote E) v)}"] async_send_vote(1) by auto
next
  case (async_finalize i now blocks c)
  note fin = node_finalize_engine [OF agreedD(2) [OF assms(2) async_finalize(2)] async_finalize(3)]
  then show ?thesis
    using agreed_put [OF assms(2) async_finalize(2), of c "net_producers s i" "{}"] async_finalize(1)
      producer_ok_height [OF agreedD(3) [OF assms(2) async_finalize(2)]] by auto
next
  case (async_advance i)
  show ?thesis
    using agreed_put [OF assms(2) async_advance(2) agreedD(2) [OF assms(2) async_advance(2)]
        producer_ok_next [OF agreedD(3) [OF assms(2) async_advance(2)] async_advance(3)], of "{}"] async_advance(1) by auto
next
  case (async_block i b ms c)
  have "P (bh_height (blk_header b)) = Some b \<or> foreign vs b"
    using async_block(3) agreedD(4) [OF assms(2)] by (auto simp: pool_def forgeries_def)
  note ev = event_block_engine [OF agreedD(2) [OF assms(2) async_block(2)] this async_block(4)]
  then show ?thesis
    using agreed_put [OF assms(2) async_block(2) ev(1), of "net_producers s i" ms] async_block(1)
      producer_ok_height [OF agreedD(3) [OF assms(2) async_block(2)], of c] by auto
next
  case (async_vote i bytes v r c)
  note ev = handle_vote_engine [OF agreedD(2) [OF assms(2) async_vote(2)] async_vote(5)]
  have "bft_height c = bft_height (net_nodes s i)" using handle_vote_frame [OF async_vote(5)] by (simp add: same_chain_def)
  then show ?thesis
    using agreed_put [OF assms(2) async_vote(2) ev, of "net_producers s i" "{}"] async_vote(1)
      producer_ok_height [OF agreedD(3) [OF assms(2) async_vote(2)], of c] by auto
qed

section \<open>Agreement\<close>

definition net_start :: "ValidatorSet \<Rightarrow> address list \<Rightarrow> (nat \<Rightarrow> 'b) \<Rightarrow> hash \<Rightarrow> 'b net \<Rightarrow> bool" where
  "net_start vs as st g s \<longleftrightarrow>
     (\<forall>i<length as. Bft_new_with_store (as ! i) vs (st i) g = Inr (net_nodes s i) \<and> net_producers s i = Producer_new \<and> net_sent s i = {})"

lemma new_engine_ok: "Bft_new_with_store a vs st g = Inr c \<Longrightarrow> engine_ok E g vs st Map.empty a c \<and> bft_height c = 0"
  by (auto simp: Bft_new_with_store_def engine_ok_def chain_ok_def chain_inv_def rounds_ok_def dest: leD split: if_splits)

lemma net_start_agreed: "net_start vs as st g s \<Longrightarrow> agreed E g vs st as Map.empty s"
  by (simp add: net_start_def agreed_def proposed_ok_def producer_ok_def Producer_new_def new_engine_ok)

lemma net_run_agreed:
  assumes "net_start vs as st g s" "\<forall>i<length as. settled E B (st i) vs" "distinct as" "(async_step E B (forgeries vs) (length as))\<^sup>*\<^sup>* s s'"
  shows "\<exists>P. agreed E g vs st as P s'"
  using assms(4)
proof (induction rule: rtranclp_induct)
  case base
  show ?case using net_start_agreed [OF assms(1)] by blast
next
  case (step s1 s2)
  then show ?case using agreed_step [OF step(2) _ assms(3,2)] by blast
qed

lemma finalized_agreed:
  assumes "agreed E g vs st as P s" "i < length as" "om_get (bft_finalized (net_nodes s i)) h = Some b"
  shows "P h = Some b" "entry_ok E g vs P h b"
  using agreedD(1,2) [OF assms(1)] assms(2,3) by (auto simp: engine_ok_def chain_ok_def proposed_ok_def)

text \<open>
  C4. Agreement. Validators that start from one genesis with one committee, each address once, and a ledger whose records give that committee
  or none, never finalize different blocks for a height, whatever the interleaving of their loops, the order, delay and
  repetition of messages, the votes anyone forges and the blocks anyone forges without naming the proposer of their height. What a node finalizes is
  by the proposer of its height, and the finalized blocks of a node are linked by hash down to the genesis.
\<close>

theorem network_agreement:
  assumes "net_start vs as st g s" "\<forall>i<length as. settled E B (st i) vs" "distinct as" "(async_step E B (forgeries vs) (length as))\<^sup>*\<^sup>* s s'"
    and "i < length as" "om_get (bft_finalized (net_nodes s' i)) h = Some b"
  shows "(\<forall>j<length as. \<forall>b'. om_get (bft_finalized (net_nodes s' j)) h = Some b' \<longrightarrow> b' = b)
       \<and> bh_height (blk_header b) = h \<and> proposer vs h 0 = Some (bh_proposer (blk_header b))
       \<and> (if h = 1 then bh_previous_hash (blk_header b) = g
          else \<exists>b'. om_get (bft_finalized (net_nodes s' i)) (h - 1) = Some b' \<and> bh_previous_hash (blk_header b) = block_hash E b')"
proof -
  obtain P where P: "agreed E g vs st as P s'" using net_run_agreed [OF assms(1-4)] by blast
  note b = finalized_agreed [OF P assms(5,6)]
  have same: "b' = b" if "j < length as" "om_get (bft_finalized (net_nodes s' j)) h = Some b'" for j b'
    using finalized_agreed(1) [OF P that] b(1) by simp
  have c: "chain_ok E g P (net_nodes s' i)" using agreedD(2) [OF P assms(5)] by (simp add: engine_ok_def)
  have "\<exists>b'. om_get (bft_finalized (net_nodes s' i)) (h - 1) = Some b' \<and> bh_previous_hash (blk_header b) = block_hash E b'" if one: "h \<noteq> 1"
  proof -
    obtain b' where b': "P (h - 1) = Some b'" "bh_previous_hash (blk_header b) = block_hash E b'"
      using b(2) one by (auto simp: entry_ok_def)
    have h: "0 < h" "h \<le> bft_height (net_nodes s' i)" using c assms(6) by (auto simp: chain_ok_def chain_inv_def)
    have "1 \<le> h" using h(1) by (simp add: word_less_nat_alt word_le_nat_alt)
    then have "unat (h - 1) = unat h - 1" using unat_sub_exact [of 1 h] by simp
    moreover have "unat h \<noteq> 1" using one word_eq_by_unat [of h 1] by auto
    ultimately have "0 < h - 1 \<and> h - 1 \<le> bft_height (net_nodes s' i)"
      using h by (simp add: word_less_nat_alt word_le_nat_alt)
    then obtain x where "om_get (bft_finalized (net_nodes s' i)) (h - 1) = Some x"
      using c unfolding chain_ok_def chain_inv_def by blast
    then show ?thesis using c b' unfolding chain_ok_def by (metis option.inject)
  qed
  then show ?thesis using same b(2) by (auto simp: entry_ok_def)
qed

text \<open>
  The blocks of a validator network are empty: whatever clients submit, no finalized block contains a transaction.
\<close>

theorem finalized_blocks_are_empty:
  assumes "net_start vs as st g s" "\<forall>i<length as. settled E B (st i) vs" "distinct as" "(async_step E B (forgeries vs) (length as))\<^sup>*\<^sup>* s s'"
    and "i < length as" "om_get (bft_finalized (net_nodes s' i)) h = Some b"
  shows "bb_transactions (blk_body b) = []"
  using net_run_agreed [OF assms(1-4)] finalized_agreed(2) [OF _ assms(5,6)] by (auto simp: entry_ok_def)

section \<open>Passes are runs\<close>

text \<open>A pass of either loop, as Chain\_Network composes them, is a run of critical sections.\<close>

lemma put_put [simp]: "put_node i c' pr' ms' (put_node i c pr ms s) = put_node i c' pr' (ms \<union> ms') s"
  by (simp add: put_node_def Un_assoc)

lemma put_node_sel [simp]:
  "net_nodes (put_node i c pr ms s) j = (if j = i then c else net_nodes s j)"
  "net_producers (put_node i c pr ms s) j = (if j = i then pr else net_producers s j)"
  "net_sent (put_node i c pr ms s) j = (if j = i then net_sent s i \<union> ms else net_sent s j)"
  by (simp_all add: put_node_def)

lemma put_node_id [simp]: "put_node i (net_nodes s i) (net_producers s i) {} s = s"
  by (simp add: put_node_def)

abbreviation async_run :: "externs \<Rightarrow> 'b StateBackend \<Rightarrow> Message set \<Rightarrow> nat \<Rightarrow> 'b net \<Rightarrow> 'b net \<Rightarrow> bool" where
  "async_run E B F n \<equiv> (async_step E B F n)\<^sup>*\<^sup>*"

lemma finalize_run:
  assumes "i < n" "node_finalize E now c = (blocks, c')"
  shows "async_run E B F n (put_node i c pr ms s) (put_node i c' pr ms s)"
  using async_finalize [of i n E now "put_node i c pr ms s" blocks c' B F] assms by auto

lemma send_block_run:
  assumes "i < n" "own_proposal c (pr_height pr) = Some b"
  shows "async_run E B F n (put_node i c pr ms s) (put_node i c pr (insert (MsgBlock b) ms) s)"
  using async_send_block [of i n "put_node i c pr ms s" b E B F] assms by auto

lemma send_vote_run:
  assumes "i < n" "own_vote c (pr_height pr) = Some v"
  shows "async_run E B F n (put_node i c pr ms s) (put_node i c pr (insert (MsgVote (encode (json_vote E) v)) ms) s)"
  using async_send_vote [of i n "put_node i c pr ms s" v E B F] assms by auto

lemma advance_run:
  assumes "i < n" "bft_height c \<noteq> - 1"
  shows "async_run E B F n (put_node i c pr ms s) (put_node i c (next_height c pr) ms s)"
  using async_advance [of i n "put_node i c pr ms s" E B F] assms by auto

lemma rebroadcast_run:
  assumes "i < n" "rebroadcast E now (pr_height pr) c = (ms, blocks, c')"
  shows "async_run E B F n (put_node i c pr {} s) (put_node i c' pr (set ms) s)"
proof -
  define mb where "mb = (case own_proposal c (pr_height pr) of None \<Rightarrow> {} | Some b \<Rightarrow> {MsgBlock b})"
  define mv where "mv = (case own_vote c (pr_height pr) of None \<Rightarrow> {} | Some v \<Rightarrow> {MsgVote (encode (json_vote E) v)})"
  have "async_run E B F n (put_node i c pr {} s) (put_node i c pr mb s)"
    using send_block_run [OF assms(1), of c pr _ E B F "{}" s] by (auto simp: mb_def split: option.split)
  moreover have "async_run E B F n (put_node i c pr mb s) (put_node i c pr (mb \<union> mv) s)"
    using send_vote_run [OF assms(1), of c pr _ E B F mb s] by (auto simp: mv_def split: option.split)
  moreover obtain blocks' where "node_finalize E now c = (blocks', c')" "set ms = mb \<union> mv"
    using assms(2) by (auto simp: rebroadcast_def mb_def mv_def Let_def insert_commute split: prod.splits option.splits)
  ultimately show ?thesis using finalize_run [OF assms(1)] by (metis rtranclp_trans)
qed

lemma produce_run:
  assumes "i < n" "node_produce E B now1 now2 (bft_local_address (net_nodes s i)) peers (net_producers s i) (net_nodes s i) = (ms, blocks, pr, c)"
    and "bft_height c \<noteq> - 1"
  shows "async_run E B F n s (put_node i c pr (set ms) s)"
proof -
  let ?pr = "net_producers s i" and ?c = "net_nodes s i"
  obtain pr1 c1 where pp: "produce_propose E B now1 ?pr ?c = (pr1, c1)" by fastforce
  have last: "?pr\<lparr>pr_last_proposed_height := Some (pr_height ?pr)\<rparr> = ?pr" if "pr_last_proposed_height ?pr = Some (pr_height ?pr)"
    using that by simp
  show ?thesis
  proof (cases "peers = 0 \<or> proposer (bft_validator_set ?c) (pr_height ?pr) 0 \<noteq> Some (bft_local_address ?c)")
    case True
    then have "ms = [] \<and> c = ?c \<and> (pr = ?pr \<or> pr = next_height ?c ?pr)"
      using assms(2) by (auto simp: node_produce_def split: if_splits)
    then show ?thesis using advance_run [OF assms(1,3), of E B F ?pr "{}" s] by auto
  next
    case False
    have "ms = [] \<and> (pr, c) = (pr1, c1) \<or> rebroadcast E now2 (pr_height pr1) c1 = (ms, blocks, c) \<and> pr = next_height c pr1"
    proof (cases "pr_last_proposed_height ?pr = Some (pr_height ?pr)")
      case True
      then show ?thesis using False assms(2) pp last by (simp add: node_produce_def produce_propose_def split: prod.splits)
    next
      case new: False
      obtain r c2 where "propose E B now1 (pr_height ?pr) [] ?c = (r, c2)" by fastforce
      then show ?thesis
        using new False assms(2) pp by (cases r) (auto simp: node_produce_def produce_propose_def split: prod.splits)
    qed
    moreover have start: "async_run E B F n s (put_node i c1 pr1 {} s)" using async_propose [OF assms(1) pp] by blast
    moreover have "async_run E B F n (put_node i c1 pr1 {} s) (put_node i c (next_height c pr1) (set ms) s)"
      if "rebroadcast E now2 (pr_height pr1) c1 = (ms, blocks, c)"
      using rebroadcast_run [OF assms(1) that] advance_run [OF assms(1,3)] by (rule rtranclp_trans)
    ultimately show ?thesis by (auto intro: rtranclp_trans)
  qed
qed

lemma event_run:
  assumes "i < n" "m \<in> pool n s \<union> F" "node_event E now (MessageReceived p m) (net_nodes s i) = (ms, blocks, c)"
  shows "async_run E B F n s (put_node i c (net_producers s i) (set ms) s)"
proof (cases m)
  case (MsgBlock b)
  obtain ms1 c1 where ev: "event_block E b (net_nodes s i) = (ms1, c1)" by fastforce
  then obtain blocks' where "node_finalize E now c1 = (blocks', c)" "set ms = ms1"
    using assms(3) MsgBlock by (auto simp: node_event_def event_block_def split: prod.splits sum.splits)
  then show ?thesis
    using async_block [of i n b s F E ms1 c1 B] assms(1,2) MsgBlock ev finalize_run [OF assms(1)]
    by (metis converse_rtranclp_into_rtranclp)
next
  case (MsgVote bytes)
  show ?thesis
  proof (cases "decode (unjson_vote E) bytes")
    case (Inl e)
    then show ?thesis using assms(3) MsgVote by (auto simp: node_event_def)
  next
    case (Inr v)
    obtain r c1 where hv: "handle_vote v (net_nodes s i) = (r, c1)" by fastforce
    then obtain blocks' where "node_finalize E now c1 = (blocks', c)" "set ms = {}"
      using assms(3) MsgVote Inr by (auto simp: node_event_def split: prod.splits)
    then show ?thesis
      using async_vote [of i n bytes s F E v r c1 B] assms(1,2) MsgVote Inr hv finalize_run [OF assms(1)]
      by (metis converse_rtranclp_into_rtranclp)
  qed
qed (use assms(3) in \<open>auto simp: node_event_def\<close>)

lemma net_step_run:
  assumes "net_step E B conn n s s'" "\<forall>i<n. bft_height (net_nodes s' i) \<noteq> - 1"
  shows "async_run E B F n s s'"
  using assms(1)
proof cases
  case (net_event i j m now p ms blocks c)
  have "m \<in> pool n s \<union> F" using net_event by (auto simp: pool_def)
  from event_run [OF net_event(3) this net_event(6)] show ?thesis
    by (simp add: net_event(1) put_node_def)
next
  case (net_produce i peers now1 now2 ms blocks pr c)
  have "bft_height c \<noteq> - 1" using assms(2) net_produce by force
  from produce_run [OF net_produce(2,4) this] show ?thesis
    by (simp add: net_produce(1) put_node_def)
qed

end
