(* ===== verification/Progress.thy ===== *)
theory Progress
  imports Agreement
begin

text \<open>
  A network whose nodes are connected to one another makes progress: from the start, and after every finalized block, the messages of the nodes
  alone can bring all of them one height further. One round is followed through the engines (propose or handle a block, count the votes, finalize
  as soon as they are enough) and then, node by node, through the passes of the two loops of node.rs, with the network of the theory
  Chain\_Network and every pair of nodes connected.
\<close>

section \<open>One round of an engine\<close>

definition fixed :: "ValidatorSet \<Rightarrow> 'b \<Rightarrow> address \<Rightarrow> 'b BftConsensus \<Rightarrow> bool" where
  "fixed vs st a c \<longleftrightarrow> bft_local_address c = a \<and> bft_validator_set c = vs \<and> bft_state c = st"

text \<open>Nothing has been heard of the heights above \<open>h\<close>.\<close>

definition silent :: "u64 \<Rightarrow> 'b BftConsensus \<Rightarrow> bool" where
  "silent h c \<longleftrightarrow> (\<forall>k>h. om_get (bft_rounds c) k = None \<and> \<not> has_voted c k)"

definition ready :: "u64 \<Rightarrow> 'b BftConsensus \<Rightarrow> bool" where
  "ready h c \<longleftrightarrow> bft_height c = h \<and> silent h c"

definition vote_for :: "externs \<Rightarrow> Block \<Rightarrow> address \<Rightarrow> Vote" where
  "vote_for E b a =
     \<lparr>vote_block_hash = block_hash E b, vote_height = bh_height (blk_header b), vote_round = 0, vote_voter = a\<rparr>"

definition collecting :: "externs \<Rightarrow> Block \<Rightarrow> address set \<Rightarrow> 'b BftConsensus \<Rightarrow> bool" where
  "collecting E b V c \<longleftrightarrow> bh_height (blk_header b) = bft_height c + 1 \<and> silent (bft_height c + 1) c \<and>
     (\<exists>r. om_get (bft_rounds c) (bft_height c + 1) = Some r \<and> rd_proposal r = Some (Proposal_from_block E b) \<and>
        rd_block r = Some b \<and> \<not> rd_finalized r \<and>
        (\<forall>a. om_get (rd_votes r) a = (if a \<in> V then Some (vote_for E b a) else None)))"

lemma has_voted_mark [simp]:
  "has_voted (mark_voted h c) k \<longleftrightarrow> k = h \<or> has_voted c k" "has_voted (set_round h r c) k = has_voted c k"
  by (auto simp: has_voted_def mark_voted_def set_round_def)

lemma fixed_frame [simp]:
  "fixed vs st a (mark_voted h c) = fixed vs st a c" "fixed vs st a (set_round h r c) = fixed vs st a c"
  by (simp_all add: fixed_def)

lemma silent_round:
  assumes "silent h c" "h \<noteq> - 1"
  shows "silent (h + 1) (mark_voted (h + 1) (set_round (h + 1) r c))"
  using assms u64_next(1) [OF assms(2)] by (auto simp: silent_def)

lemma ready_round:
  assumes "ready h c" "h \<noteq> - 1" "fixed vs st a c" "bh_height (blk_header b) = h + 1"
    and "rd_proposal r = Some (Proposal_from_block E b)" "rd_block r = Some b" "\<not> rd_finalized r"
    and "rd_votes r = om_insert a (vote_for E b a) om_empty"
  shows "collecting E b {a} (mark_voted (h + 1) (set_round (h + 1) r c))"
  using assms silent_round [of h c r] by (auto simp: ready_def collecting_def)

lemma ready_entry: "ready h c \<Longrightarrow> h \<noteq> - 1 \<Longrightarrow> round_entry c (h + 1) = default_round"
  using u64_next(1) [of h] by (simp add: ready_def silent_def round_entry_def)

lemma propose_collects:
  assumes "ready h c" "h \<noteq> - 1" "fixed vs st a c" "settled E B st vs" "store_state_root B st = Inr root"
    and "proposer vs (h + 1) 0 = Some a"
  shows "\<exists>b c'. propose E B now (h + 1) [] c = (Inr b, c') \<and> collecting E b {a} c' \<and> fixed vs st a c'
    \<and> bft_height c' = h \<and> bh_proposer (blk_header b) = a"
proof -
  have upd: "update_validator_set E B c = c" by (rule settled_update) (use assms in \<open>simp add: fixed_def\<close>)
  have same: "c\<lparr>bft_state := st\<rparr> = c" using assms(3) by (simp add: fixed_def)
  define b where "b = \<lparr>blk_header = \<lparr>bh_height = h + 1, bh_timestamp = now, bh_previous_hash = bft_previous_hash c, bh_state_root = root,
      bh_tx_root = hash_bytes E (encode (json_transactions E) []), bh_proposer = a\<rparr>, blk_body = \<lparr>bb_transactions = []\<rparr>\<rparr>"
  define r where "r = default_round\<lparr>rd_proposal := Some (Proposal_from_block E b), rd_block := Some b,
      rd_votes := om_insert a (vote_for E b a) om_empty\<rparr>"
  have fx: "bft_local_address c = a" "bft_validator_set c = vs" "bft_state c = st" using assms(3) by (simp_all add: fixed_def)
  have "build_block E B now (h + 1) [] c = (Inr b, c)"
    by (simp add: build_block_def act_run act_on_apply fx same upd assms(5) b_def)
  then have "propose E B now (h + 1) [] c = (Inr b, mark_voted (h + 1) (set_round (h + 1) r c))"
    by (simp add: propose_def act_run fx assms(6) ready_entry [OF assms(1,2)] Let_def)
      (simp add: r_def b_def Proposal_from_block_def vote_for_def default_round_def)
  moreover have "collecting E b {a} (mark_voted (h + 1) (set_round (h + 1) r c))"
    by (rule ready_round [OF assms(1-3)]) (simp_all add: b_def r_def default_round_def)
  ultimately show ?thesis using assms(1,3) by (auto simp: ready_def b_def)
qed

lemma handle_block_collects:
  assumes "ready h c" "h \<noteq> - 1" "fixed vs st a c" "bh_height (blk_header b) = h + 1"
    and "proposer vs (h + 1) 0 = Some (bh_proposer (blk_header b))"
  shows "\<exists>c'. handle_block E b c = (Inr (vote_for E b a), c') \<and> collecting E b {a} c' \<and> fixed vs st a c' \<and> bft_height c' = h"
proof -
  define r where "r = default_round\<lparr>rd_proposal := Some (Proposal_from_block E b), rd_block := Some b,
      rd_votes := om_insert a (vote_for E b a) om_empty\<rparr>"
  have next_h: "h < h + 1" using u64_next(1) [OF assms(2)] .
  have "validate_proposal c (Proposal_from_block E b) = Inr ()"
    using assms next_h by (simp add: validate_proposal_def Proposal_from_block_def fixed_def ready_def)
  moreover have "\<not> has_voted c (h + 1)" using assms(1) next_h by (simp add: ready_def silent_def)
  ultimately have "handle_block E b c = (Inr (vote_for E b a), mark_voted (h + 1) (set_round (h + 1) r c))"
    using assms ready_entry [OF assms(1,2)]
    by (simp add: handle_block_def Let_def Proposal_from_block_def r_def vote_for_def fixed_def default_round_def)
  moreover have "collecting E b {a} (mark_voted (h + 1) (set_round (h + 1) r c))"
    by (rule ready_round [OF assms(1-4)]) (simp_all add: r_def default_round_def)
  ultimately show ?thesis using assms(1,3) by (auto simp: ready_def)
qed

lemma handle_vote_collects:
  assumes "collecting E b V c" "bft_height c \<noteq> - 1" "fixed vs st a c" "is_validator vs x"
  shows "\<exists>r c'. handle_vote (vote_for E b x) c = (r, c') \<and> collecting E b (insert x V) c' \<and> fixed vs st a c' \<and> bft_height c' = bft_height c"
proof -
  obtain r where r: "om_get (bft_rounds c) (bft_height c + 1) = Some r" "rd_proposal r = Some (Proposal_from_block E b)"
    "rd_block r = Some b" "\<not> rd_finalized r" "\<forall>a. om_get (rd_votes r) a = (if a \<in> V then Some (vote_for E b a) else None)"
    and b: "bh_height (blk_header b) = bft_height c + 1" and quiet: "silent (bft_height c + 1) c"
    using assms(1) by (auto simp: collecting_def)
  have "validate_vote c (vote_for E b x) = Inr ()"
    using assms(3,4) r(1,2) b u64_next(1) [OF assms(2)]
    by (simp add: validate_vote_def vote_for_def fixed_def Proposal_from_block_def)
  then have run: "handle_vote (vote_for E b x) c =
      (Inr (), set_round (bft_height c + 1) (r\<lparr>rd_votes := om_insert x (vote_for E b x) (rd_votes r)\<rparr>) c)"
    using r(1) b by (simp add: handle_vote_def Let_def vote_for_def round_entry_def)
  then show ?thesis
    using assms(3) r b quiet by (auto simp: collecting_def silent_def)
qed

lemma filter_only:
  "distinct xs \<Longrightarrow> x \<in> set xs \<Longrightarrow> (\<And>y. y \<in> set xs \<Longrightarrow> P y \<longleftrightarrow> y = x) \<Longrightarrow> filter P xs = [x]"
proof (induction xs)
  case (Cons y ys)
  show ?case
  proof (cases "y = x")
    case True
    then have "filter P ys = []" using Cons.prems by (auto simp: filter_empty_conv)
    then show ?thesis using True Cons.prems(3) by simp
  next
    case False
    then show ?thesis using Cons by simp
  qed
qed simp

lemma collecting_pending:
  assumes "om_get (bft_rounds c) (bft_height c + 1) = Some r" "rd_proposal r \<noteq> None" "bft_height c \<noteq> - 1" "silent (bft_height c + 1) c"
  shows "filter (\<lambda>(k, r). k > bft_height c \<and> rd_proposal r \<noteq> None) (om_entries (bft_rounds c)) = [(bft_height c + 1, r)]"
proof (rule filter_only)
  show "distinct (om_entries (bft_rounds c))"
    using om_keys_distinct [of "bft_rounds c"] by (simp add: om_keys_def distinct_map)
  show "(bft_height c + 1, r) \<in> set (om_entries (bft_rounds c))" using assms(1) by (simp add: om_get_Some_iff)
next
  fix y assume y: "y \<in> set (om_entries (bft_rounds c))"
  obtain k q where kq: "y = (k, q)" by fastforce
  with y have get: "om_get (bft_rounds c) k = Some q" by (simp add: om_get_Some_iff)
  have "k \<le> bft_height c + 1" using assms(4) get by (metis linorder_not_less option.distinct(1) silent_def)
  then have "k > bft_height c \<longleftrightarrow> k = bft_height c + 1"
    using u64_next(1) [OF assms(3)] u64_next(3) [OF assms(3), of k] by (auto simp: not_less [symmetric])
  then show "(case y of (k, r) \<Rightarrow> k > bft_height c \<and> rd_proposal r \<noteq> None) \<longleftrightarrow> y = (bft_height c + 1, r)"
    using kq get assms(1,2) by auto
qed

text \<open>The votes of \<open>V\<close> are enough for a quorum.\<close>

definition enough :: "ValidatorSet \<Rightarrow> address set \<Rightarrow> bool" where
  "enough vs V \<longleftrightarrow> unat (quorum_threshold vs) \<le> sum (power_nat vs) V"

lemma enough_mono: "enough vs V \<Longrightarrow> V \<subseteq> V' \<Longrightarrow> enough vs V'"
  unfolding enough_def by (rule order_trans [OF _ sum_mono2]) simp_all

lemma enough_all:
  assumes "{x. is_validator vs x} \<subseteq> V" "0 < total_nat vs" "total_nat vs < 2 ^ 63"
  shows "enough vs V"
proof -
  have "sum (power_nat vs) UNIV = sum (power_nat vs) V"
    by (rule sum.mono_neutral_right)
      (use assms(1) in \<open>auto simp: power_nat_def vs_power_def is_validator_def om_contains_def split: option.split\<close>)
  then show ?thesis using unat_quorum_threshold [OF assms(3)] assms(2) by (simp add: enough_def total_nat_def)
qed

lemma collecting_quorum:
  assumes "collecting E b V c" "fixed vs st a c" "total_nat vs < 2 ^ 63"
  shows "has_quorum c (bft_height c + 1) \<longleftrightarrow> enough vs V"
proof -
  obtain r where r: "om_get (bft_rounds c) (bft_height c + 1) = Some r"
    "\<forall>a. om_get (rd_votes r) a = (if a \<in> V then Some (vote_for E b a) else None)"
    using assms(1) by (auto simp: collecting_def)
  have "voters r = V" using r(2) by (auto simp: voters_def set_om_keys dom_def split: if_splits)
  then show ?thesis using has_quorum_voters [of c "bft_height c + 1"] r(1) assms(2,3) by (simp add: fixed_def enough_def)
qed

text \<open>Where an engine is in the round of \<open>b\<close> when it has counted the votes of \<open>V\<close>: it has finalized as soon as they are enough.\<close>

definition phase :: "externs \<Rightarrow> Block \<Rightarrow> u64 \<Rightarrow> address set \<Rightarrow> 'b BftConsensus \<Rightarrow> bool" where
  "phase E b h V c \<longleftrightarrow>
     (if enough (bft_validator_set c) V then ready (h + 1) c else collecting E b V c \<and> bft_height c = h)"

lemma phase_height: "phase E b h V c \<Longrightarrow> bft_height c = h \<or> bft_height c = h + 1"
  by (auto simp: phase_def ready_def split: if_splits)

lemma ready_idle:
  assumes "ready h c"
  shows "node_finalize E now c = ([], c)"
proof -
  have "filter (\<lambda>(k, r). k > bft_height c \<and> rd_proposal r \<noteq> None) (om_entries (bft_rounds c)) = []"
    using assms by (fastforce simp: filter_empty_conv ready_def silent_def om_get_Some_iff [symmetric])
  then show ?thesis by (simp add: node_finalize_def finalize_pending_def)
qed

lemma collecting_finalizes:
  assumes "collecting E b V c" "bft_height c = h" "h \<noteq> - 1" "fixed vs st a c" "total_nat vs < 2 ^ 63"
  shows "\<exists>blocks c'. node_finalize E now c = (blocks, c') \<and> phase E b h V c' \<and> fixed vs st a c'"
proof -
  obtain r where r: "om_get (bft_rounds c) (h + 1) = Some r" "rd_proposal r = Some (Proposal_from_block E b)"
    "rd_block r = Some b" "\<not> rd_finalized r" and quiet: "silent (h + 1) c"
    using assms(1,2) by (auto simp: collecting_def)
  have vs: "bft_validator_set c = vs" using assms(4) by (simp add: fixed_def)
  have quorum: "has_quorum c (h + 1) \<longleftrightarrow> enough vs V" using collecting_quorum [OF assms(1,4,5)] assms(2) by simp
  have pending: "node_finalize E now c = (case finalize_candidates E now [h + 1] None c of (Some block, c') \<Rightarrow> ([block], c') | (None, c') \<Rightarrow> ([], c'))"
    using collecting_pending [of c r] r(1,2) assms(2,3) quiet by (simp add: node_finalize_def finalize_pending_def)
  show ?thesis
  proof (cases "enough vs V")
    case False
    then have "node_finalize E now c = ([], c)" using quorum r assms(2) by (simp add: pending finalize_def Let_def try_finalize_def)
    then show ?thesis using False assms by (simp add: phase_def vs)
  next
    case True
    let ?c1 = "set_round (h + 1) (r\<lparr>rd_finalized := True\<rparr>) c"
    define c' where "c' = ?c1\<lparr>bft_finalized := om_insert (h + 1) b (bft_finalized ?c1), bft_previous_hash := block_hash E b,
        bft_height := h + 1, bft_voted_this_height := om_retain (\<lambda>(h', _) _. h' \<noteq> h + 1) (bft_voted_this_height ?c1)\<rparr>"
    have "try_finalize E (h + 1) c = (Some b, c')"
      using True quorum r by (simp add: try_finalize_def Let_def c'_def)
    then have "node_finalize E now c = ([b], c')" using r assms(2) by (simp add: pending finalize_def Let_def)
    moreover have "ready (h + 1) c'" using quiet by (auto simp: ready_def silent_def c'_def has_voted_def)
    moreover have "fixed vs st a c'" using assms(4) by (simp add: fixed_def c'_def)
    ultimately show ?thesis using True by (auto simp: phase_def fixed_def)
  qed
qed

lemma phase_vote:
  assumes "phase E b h V c" "fixed vs st a c" "h \<noteq> - 1" "bh_height (blk_header b) = h + 1" "is_validator vs x" "total_nat vs < 2 ^ 63"
  shows "\<exists>blocks c'. node_finalize E now (snd (handle_vote (vote_for E b x) c)) = (blocks, c') \<and> phase E b h (insert x V) c' \<and> fixed vs st a c'"
proof (cases "enough vs V")
  case True
  have vs: "bft_validator_set c = vs" using assms(2) by (simp add: fixed_def)
  then have c: "ready (h + 1) c" using True assms(1) by (simp add: phase_def)
  then have "handle_vote (vote_for E b x) c = (Inl InvalidVote, c)"
    using assms(4) by (simp add: handle_vote_def validate_vote_def vote_for_def ready_def)
  moreover have "enough vs (insert x V)" using True by (rule enough_mono) blast
  ultimately show ?thesis using c assms(2) ready_idle [OF c] vs by (simp add: phase_def)
next
  case False
  then have c: "collecting E b V c" "bft_height c = h" using assms(1,2) by (simp_all add: phase_def fixed_def)
  then obtain r c' where c': "handle_vote (vote_for E b x) c = (r, c')" "collecting E b (insert x V) c'" "fixed vs st a c'" "bft_height c' = h"
    using handle_vote_collects [OF c(1) _ assms(2,5)] assms(3) by auto
  then show ?thesis using collecting_finalizes [OF c'(2,4) assms(3) c'(3) assms(6)] by simp
qed

section \<open>One round of the network\<close>

text \<open>
  A pass of a node in a network where everyone is connected to everyone, in which no height has reached its largest value. What
  a node knows and has sent is its view.
\<close>

definition alive :: "nat \<Rightarrow> 'b net \<Rightarrow> bool" where
  "alive n s \<longleftrightarrow> (\<forall>i<n. bft_height (net_nodes s i) \<noteq> - 1)"

definition pass :: "externs \<Rightarrow> 'b StateBackend \<Rightarrow> nat \<Rightarrow> 'b net \<Rightarrow> 'b net \<Rightarrow> bool" where
  "pass E B n s s' \<longleftrightarrow> net_step E B (\<noteq>) n s s' \<and> alive n s'"

abbreviation passes :: "externs \<Rightarrow> 'b StateBackend \<Rightarrow> nat \<Rightarrow> 'b net \<Rightarrow> 'b net \<Rightarrow> bool" where
  "passes E B n \<equiv> (pass E B n)\<^sup>*\<^sup>*"

lemma alive_put: "alive n s \<Longrightarrow> bft_height c \<noteq> - 1 \<Longrightarrow> alive n (put_node i c pr ms s)"
  by (simp add: alive_def)

lemma pass_produce:
  assumes "alive n s" "i < n" "bft_height c \<noteq> - 1" "2 \<le> n"
    and "node_produce E B now1 now2 (bft_local_address (net_nodes s i)) 1 (net_producers s i) (net_nodes s i) = (ms, blocks, pr, c)"
  shows "pass E B n s (put_node i c pr (set ms) s)"
proof -
  have "{j. j < n \<and> j \<noteq> i} = {..<n} - {i}" by auto
  then have "1 \<le> card {j. j < n \<and> j \<noteq> i \<and> i \<noteq> j}" using assms(2,4) by (simp add: eq_commute [of i] card_Diff_singleton)
  from net_produce [where conn = "(\<noteq>)", OF assms(2) this assms(5)] show ?thesis
    using alive_put [OF assms(1,3)] by (simp add: pass_def put_node_def)
qed

lemma pass_event:
  assumes "alive n s" "k < n" "i < n" "k \<noteq> i" "m \<in> net_sent s k" "bft_height c \<noteq> - 1"
    and "node_event E now (MessageReceived p m) (net_nodes s i) = (ms, blocks, c)"
  shows "pass E B n s (put_node i c (net_producers s i) (set ms) s)"
  using net_event [where conn = "(\<noteq>)", OF assms(2-5,7)] assms(1,6) by (simp add: pass_def put_node_def alive_def)

type_synonym 'b node_view = "'b BftConsensus \<times> Producer \<times> Message set"

definition view_of :: "'b net \<Rightarrow> nat \<Rightarrow> 'b node_view" where
  "view_of s i = (net_nodes s i, net_producers s i, net_sent s i)"

lemma view_put: "view_of (put_node i c pr ms s) j = (if j = i then (c, pr, net_sent s i \<union> ms) else view_of s j)"
  by (simp add: view_of_def)

text \<open>A sweep lets every node do its part, one after the other.\<close>

lemma sweep:
  assumes "\<And>i s. i < n \<Longrightarrow> alive n s \<Longrightarrow> G s \<Longrightarrow> A i (view_of s i) \<Longrightarrow>
      \<exists>s'. passes E B n s s' \<and> alive n s' \<and> G s' \<and> D i (view_of s' i) \<and> (\<forall>j. j \<noteq> i \<longrightarrow> view_of s' j = view_of s j)"
    and "alive n s" "G s" "\<forall>i<n. A i (view_of s i)"
  shows "\<exists>s'. passes E B n s s' \<and> alive n s' \<and> G s' \<and> (\<forall>i<n. D i (view_of s' i))"
proof -
  have "m \<le> n \<Longrightarrow> \<exists>s'. passes E B n s s' \<and> alive n s' \<and> G s' \<and> (\<forall>i<m. D i (view_of s' i)) \<and> (\<forall>i<n. m \<le> i \<longrightarrow> A i (view_of s' i))" for m
  proof (induction m)
    case 0
    show ?case using assms(2-4) by (intro exI [of _ s]) simp
  next
    case (Suc m)
    then obtain s1 where s1: "passes E B n s s1" "alive n s1" "G s1" "\<forall>i<m. D i (view_of s1 i)" "\<forall>i<n. m \<le> i \<longrightarrow> A i (view_of s1 i)"
      by auto
    from assms(1) [of m s1] s1 Suc.prems obtain s2 where s2: "passes E B n s1 s2" "alive n s2" "G s2" "D m (view_of s2 m)"
      "\<forall>j. j \<noteq> m \<longrightarrow> view_of s2 j = view_of s1 j" by auto
    have "passes E B n s s2" using s1(1) s2(1) by (rule rtranclp_trans)
    with s1 s2 show ?case by (intro exI [of _ s2]) (auto simp: less_Suc_eq)
  qed
  from this [of n] show ?thesis by auto
qed

text \<open>
  There are at least two nodes, every member of the committee is one of them, once, the powers do not overflow, and the validator records of every
  ledger give that committee or none.
\<close>

definition healthy :: "externs \<Rightarrow> 'b StateBackend \<Rightarrow> ValidatorSet \<Rightarrow> address list \<Rightarrow> (nat \<Rightarrow> 'b) \<Rightarrow> bool" where
  "healthy E B vs as st \<longleftrightarrow> json_ok E \<and> distinct as \<and> 2 \<le> length as \<and> {x. is_validator vs x} = set as \<and> 0 < total_nat vs \<and> total_nat vs < 2 ^ 63 \<and>
     (\<forall>i<length as. settled E B (st i) vs \<and> (\<exists>root. store_state_root B (st i) = Inr root))"

abbreviation vote_message :: "externs \<Rightarrow> Block \<Rightarrow> address \<Rightarrow> Message" where
  "vote_message E b a \<equiv> MsgVote (encode (json_vote E) (vote_for E b a))"

definition start_view :: "ValidatorSet \<Rightarrow> 'b \<Rightarrow> address \<Rightarrow> u64 \<Rightarrow> 'b node_view \<Rightarrow> bool" where
  "start_view vs st a h = (\<lambda>(c, pr, ms). ready h c \<and> fixed vs st a c \<and> pr = \<lparr>pr_height = h + 1, pr_last_proposed_height = None\<rparr>)"

text \<open>The production loop has moved on, or is still at the height of the round and would not propose again.\<close>

definition producing :: "ValidatorSet \<Rightarrow> address \<Rightarrow> u64 \<Rightarrow> Producer \<Rightarrow> bool" where
  "producing vs a h pr \<longleftrightarrow> pr = \<lparr>pr_height = h + 1 + 1, pr_last_proposed_height = None\<rparr> \<or>
     pr_height pr = h + 1 \<and> (proposer vs (h + 1) 0 = Some a \<longrightarrow> pr_last_proposed_height pr = Some (h + 1))"

definition vote_view :: "externs \<Rightarrow> ValidatorSet \<Rightarrow> 'b \<Rightarrow> address \<Rightarrow> u64 \<Rightarrow> Block \<Rightarrow> address set \<Rightarrow> 'b node_view \<Rightarrow> bool" where
  "vote_view E vs st a h b V = (\<lambda>(c, pr, ms). phase E b h V c \<and> fixed vs st a c \<and> producing vs a h pr \<and> vote_message E b a \<in> ms)"

lemma producing_next:
  assumes "pr_height pr = h + 1" "pr_last_proposed_height pr = Some (h + 1)" "bft_height c = h \<or> bft_height c = h + 1" "h \<noteq> - 1"
  shows "producing vs a h (next_height c pr)"
  using assms u64_next(1) [OF assms(4)] by (auto simp: producing_def next_height_def)

lemma round_proposes:
  assumes s: "alive n s" "i < n" "start_view vs st a h (view_of s i)" "2 \<le> n" and h: "h \<noteq> - 1" "h + 1 \<noteq> - 1"
    and st: "settled E B st vs" "store_state_root B st = Inr root" and vs: "proposer vs (h + 1) 0 = Some a" "total_nat vs < 2 ^ 63"
  shows "\<exists>b s'. passes E B n s s' \<and> alive n s' \<and> MsgBlock b \<in> net_sent s' i \<and> vote_view E vs st a h b {a} (view_of s' i)
    \<and> bh_proposer (blk_header b) = a \<and> bh_height (blk_header b) = h + 1 \<and> (\<forall>j. j \<noteq> i \<longrightarrow> view_of s' j = view_of s j)"
proof -
  let ?c = "net_nodes s i" and ?pr = "net_producers s i"
  have v: "ready h ?c" "fixed vs st a ?c" "?pr = \<lparr>pr_height = h + 1, pr_last_proposed_height = None\<rparr>"
    using s(3) by (auto simp: start_view_def view_of_def)
  obtain b c where b: "propose E B 0 (h + 1) [] ?c = (Inr b, c)" "collecting E b {a} c" "fixed vs st a c" "bft_height c = h"
    "bh_proposer (blk_header b) = a"
    using propose_collects [OF v(1) h(1) v(2) st vs(1)] by blast
  obtain blocks c' where c': "node_finalize E 0 c = (blocks, c')" "phase E b h {a} c'" "fixed vs st a c'"
    using collecting_finalizes [OF b(2,4) h(1) b(3) vs(2)] by blast
  let ?pr' = "next_height c' (?pr\<lparr>pr_last_proposed_height := Some (h + 1)\<rparr>)"
  have "rebroadcast E 0 (h + 1) c = ([MsgBlock b, vote_message E b a], blocks, c')"
    using b(2-4) c'(1) by (auto simp: rebroadcast_def own_proposal_def own_vote_def collecting_def fixed_def)
  then have run: "node_produce E B 0 0 (bft_local_address ?c) 1 ?pr ?c = ([MsgBlock b, vote_message E b a], blocks, ?pr', c')"
    using b(1) v(2,3) vs(1) by (simp add: node_produce_def fixed_def)
  have top: "bft_height c' \<noteq> - 1" using phase_height [OF c'(2)] h by auto
  let ?s = "put_node i c' ?pr' (set [MsgBlock b, vote_message E b a]) s"
  have "passes E B n s ?s" using pass_produce [OF s(1,2) top s(4) run] by blast
  moreover have "producing vs a h ?pr'"
    by (rule producing_next) (use v(3) h(1) phase_height [OF c'(2)] in simp_all)
  then have "vote_view E vs st a h b {a} (view_of ?s i)" using c'(2,3) by (simp add: view_put vote_view_def)
  moreover have "bh_height (blk_header b) = h + 1" using b(2,4) by (simp add: collecting_def)
  ultimately show ?thesis
    using b(5) alive_put [OF s(1) top] by (intro exI [of _ b] exI [of _ ?s]) (simp add: view_put)
qed

lemma round_votes:
  assumes s: "alive n s" "k < n" "i < n" "k \<noteq> i" "MsgBlock b \<in> net_sent s k" "start_view vs st a h (view_of s i)" and h: "h \<noteq> - 1" "h + 1 \<noteq> - 1"
    and b: "bh_height (blk_header b) = h + 1" "proposer vs (h + 1) 0 = Some (bh_proposer (blk_header b))" "bh_proposer (blk_header b) \<noteq> a"
    and vs: "total_nat vs < 2 ^ 63"
  shows "\<exists>s'. passes E B n s s' \<and> alive n s' \<and> MsgBlock b \<in> net_sent s' k \<and> vote_view E vs st a h b {a} (view_of s' i)
    \<and> (\<forall>j. j \<noteq> i \<longrightarrow> view_of s' j = view_of s j)"
proof -
  let ?c = "net_nodes s i" and ?pr = "net_producers s i"
  have v: "ready h ?c" "fixed vs st a ?c" "pr_height ?pr = h + 1" using s(6) by (auto simp: start_view_def view_of_def)
  obtain c where c: "handle_block E b ?c = (Inr (vote_for E b a), c)" "collecting E b {a} c" "fixed vs st a c" "bft_height c = h"
    using handle_block_collects [OF v(1) h(1) v(2) b(1,2)] by blast
  obtain blocks c' where c': "node_finalize E 0 c = (blocks, c')" "phase E b h {a} c'" "fixed vs st a c'"
    using collecting_finalizes [OF c(2,4) h(1) c(3) vs] by blast
  have run: "node_event E 0 (MessageReceived zero32 (MsgBlock b)) ?c = ([vote_message E b a], blocks, c')"
    using c(1) c'(1) by (simp add: node_event_def)
  have top: "bft_height c' \<noteq> - 1" using phase_height [OF c'(2)] h by auto
  let ?s = "put_node i c' ?pr (set [vote_message E b a]) s"
  have "passes E B n s ?s" using pass_event [OF s(1-5) top run] by blast
  moreover have "vote_view E vs st a h b {a} (view_of ?s i)" using c'(2,3) v(3) b(2,3) by (simp add: view_put vote_view_def producing_def)
  ultimately show ?thesis
    using alive_put [OF s(1) top] s(4,5) by (intro exI [of _ ?s]) (simp add: view_put)
qed

lemma round_collects:
  assumes s: "alive n s" "i < n" "vote_view E vs st a h b V (view_of s i)" and h: "h \<noteq> - 1" "h + 1 \<noteq> - 1"
    and b: "bh_height (blk_header b) = h + 1" and vs: "total_nat vs < 2 ^ 63" and json: "json_ok E"
    and others: "\<forall>k\<in>set ks. k < n \<and> k \<noteq> i \<and> vote_message E b (as ! k) \<in> net_sent s k \<and> is_validator vs (as ! k)"
  shows "\<exists>c. passes E B n s (put_node i c (net_producers s i) {} s) \<and> vote_view E vs st a h b (V \<union> (!) as ` set ks) (c, net_producers s i, net_sent s i)"
  using others
proof (induction ks)
  case Nil
  have "passes E B n s (put_node i (net_nodes s i) (net_producers s i) {} s)" by simp
  then show ?case using s(3) by (intro exI [of _ "net_nodes s i"]) (simp add: view_of_def)
next
  case (Cons k ks)
  let ?pr = "net_producers s i"
  let ?V = "V \<union> (!) as ` set ks"
  from Cons obtain c where c: "passes E B n s (put_node i c ?pr {} s)" "vote_view E vs st a h b ?V (c, ?pr, net_sent s i)" by auto
  then have ph: "phase E b h ?V c" "fixed vs st a c" by (simp_all add: vote_view_def)
  obtain blocks c' where c': "node_finalize E 0 (snd (handle_vote (vote_for E b (as ! k)) c)) = (blocks, c')"
    "phase E b h (insert (as ! k) ?V) c'" "fixed vs st a c'"
    using phase_vote [OF ph h(1) b _ vs, of "as ! k" 0] Cons.prems by auto
  have run: "node_event E 0 (MessageReceived zero32 (vote_message E b (as ! k))) (net_nodes (put_node i c ?pr {} s) i) = ([], blocks, c')"
    using c'(1) json_okD(5) [OF json] by (simp add: node_event_def decode_apply)
  have top: "bft_height c \<noteq> - 1" "bft_height c' \<noteq> - 1" using phase_height [OF ph(1)] phase_height [OF c'(2)] h by auto
  have sent: "vote_message E b (as ! k) \<in> net_sent (put_node i c ?pr {} s) k" using Cons.prems by simp
  have "pass E B n (put_node i c ?pr {} s) (put_node i c' ?pr {} s)"
    using pass_event [OF alive_put [OF s(1) top(1)] _ s(2) _ sent top(2) run] Cons.prems by simp
  with c(1) have "passes E B n s (put_node i c' ?pr {} s)" by (rule rtranclp.rtrancl_into_rtrancl)
  then show ?case using c(2) c'(2,3) by (intro exI [of _ c']) (simp add: vote_view_def)
qed

lemma round_advances:
  assumes s: "alive n s" "i < n" "vote_view E vs st a h b V (view_of s i)" "2 \<le> n" and h: "h \<noteq> - 1" "h + 1 \<noteq> - 1" and vs: "enough vs V"
  shows "\<exists>s'. passes E B n s s' \<and> alive n s' \<and> start_view vs st a (h + 1) (view_of s' i) \<and> (\<forall>j. j \<noteq> i \<longrightarrow> view_of s' j = view_of s j)"
proof -
  let ?c = "net_nodes s i" and ?pr = "net_producers s i" and ?pr' = "\<lparr>pr_height = h + 1 + 1, pr_last_proposed_height = None\<rparr>"
  have v: "ready (h + 1) ?c" "fixed vs st a ?c" "producing vs a h ?pr"
    using s(3) vs by (auto simp: vote_view_def view_of_def phase_def fixed_def)
  show ?thesis
  proof (cases "?pr = ?pr'")
    case True
    then show ?thesis using s v by (intro exI [of _ s]) (simp add: start_view_def view_of_def)
  next
    case False
    then have pr: "pr_height ?pr = h + 1" "proposer vs (h + 1) 0 = Some a \<longrightarrow> pr_last_proposed_height ?pr = Some (h + 1)"
      using v(3) by (simp_all add: producing_def)
    then have next_pr: "next_height ?c ?pr = ?pr'" "next_height ?c (?pr\<lparr>pr_last_proposed_height := Some (h + 1)\<rparr>) = ?pr'"
      using v(1) by (simp_all add: next_height_def ready_def)
    have "\<exists>ms blocks. node_produce E B 0 0 (bft_local_address ?c) 1 ?pr ?c = (ms, blocks, ?pr', ?c)"
      using pr next_pr v(2) ready_idle [OF v(1), of E 0] by (simp add: node_produce_def rebroadcast_def fixed_def)
    then obtain ms blocks where run: "node_produce E B 0 0 (bft_local_address ?c) 1 ?pr ?c = (ms, blocks, ?pr', ?c)" by blast
    have top: "bft_height ?c \<noteq> - 1" using v(1) h by (simp add: ready_def)
    show ?thesis
      using pass_produce [OF s(1,2) top s(4) run] alive_put [OF s(1) top] v(1,2)
      by (intro exI [of _ "put_node i ?c ?pr' (set ms) s"]) (auto simp: view_put start_view_def)
  qed
qed

lemma proposer_member:
  assumes "0 < total_nat vs"
  shows "\<exists>a. proposer vs h 0 = Some a \<and> is_validator vs a"
proof -
  have "\<not> vs_is_empty vs"
    using assms by (auto simp: vs_is_empty_def om_is_empty_def total_nat_values om_values_def)
  then have "om_keys (vs_validators vs) \<noteq> []" by (simp add: vs_is_empty_def om_is_empty_def om_keys_def)
  then have "om_keys (vs_validators vs) ! (unat h mod length (om_keys (vs_validators vs))) \<in> set (om_keys (vs_validators vs))"
    by (intro nth_mem) simp
  then show ?thesis
    using \<open>\<not> vs_is_empty vs\<close> by (simp add: proposer_def Let_def is_validator_def om_contains_iff)
qed

text \<open>The four parts of a round, each for all nodes.\<close>

definition all_nodes :: "address list \<Rightarrow> (nat \<Rightarrow> 'b node_view \<Rightarrow> bool) \<Rightarrow> 'b net \<Rightarrow> bool" where
  "all_nodes as Q s \<longleftrightarrow> alive (length as) s \<and> (\<forall>i<length as. Q i (view_of s i))"

definition offered :: "ValidatorSet \<Rightarrow> address list \<Rightarrow> u64 \<Rightarrow> Block \<Rightarrow> nat \<Rightarrow> 'b net \<Rightarrow> bool" where
  "offered vs as h b p s \<longleftrightarrow> p < length as \<and> MsgBlock b \<in> net_sent s p \<and> bh_height (blk_header b) = h + 1
     \<and> bh_proposer (blk_header b) = as ! p \<and> proposer vs (h + 1) 0 = Some (as ! p)"

lemma all_propose:
  assumes ok: "healthy E B vs as st" and h: "h \<noteq> - 1" "h + 1 \<noteq> - 1" and start: "all_nodes as (\<lambda>i. start_view vs (st i) (as ! i) h) s"
  obtains b p s' where "passes E B (length as) s s'" "offered vs as h b p s'"
    "all_nodes as (\<lambda>i v. if i = p then vote_view E vs (st i) (as ! i) h b {as ! i} v else start_view vs (st i) (as ! i) h v) s'"
proof -
  obtain p where p: "p < length as" "proposer vs (h + 1) 0 = Some (as ! p)"
    using proposer_member [of vs "h + 1"] ok unfolding healthy_def by (metis in_set_conv_nth mem_Collect_eq)
  obtain root where st: "settled E B (st p) vs" "store_state_root B (st p) = Inr root" and tot: "total_nat vs < 2 ^ 63" and two: "2 \<le> length as"
    using ok p(1) by (auto simp: healthy_def)
  have "alive (length as) s" "start_view vs (st p) (as ! p) h (view_of s p)" using start p(1) by (simp_all add: all_nodes_def)
  from round_proposes [OF this(1) p(1) this(2) two h st p(2) tot]
  obtain b s' where s': "passes E B (length as) s s'" "alive (length as) s'" "MsgBlock b \<in> net_sent s' p"
    "vote_view E vs (st p) (as ! p) h b {as ! p} (view_of s' p)" "bh_proposer (blk_header b) = as ! p" "bh_height (blk_header b) = h + 1"
    "\<forall>j. j \<noteq> p \<longrightarrow> view_of s' j = view_of s j" by blast
  show ?thesis
    by (rule that [OF s'(1), of b p]) (use s' p start in \<open>simp_all add: offered_def all_nodes_def\<close>)
qed

lemma all_vote:
  assumes ok: "healthy E B vs as st" and h: "h \<noteq> - 1" "h + 1 \<noteq> - 1" and b: "offered vs as h b p s"
    and voted: "all_nodes as (\<lambda>i v. if i = p then vote_view E vs (st i) (as ! i) h b {as ! i} v else start_view vs (st i) (as ! i) h v) s"
  obtains s' where "passes E B (length as) s s'" "all_nodes as (\<lambda>i. vote_view E vs (st i) (as ! i) h b {as ! i}) s'"
proof -
  let ?n = "length as" and ?D = "\<lambda>i. vote_view E vs (st i) (as ! i) h b {as ! i}"
  have "\<exists>t'. passes E B ?n t t' \<and> alive ?n t' \<and> offered vs as h b p t' \<and> ?D i (view_of t' i) \<and> (\<forall>j. j \<noteq> i \<longrightarrow> view_of t' j = view_of t j)"
    if t: "i < ?n" "alive ?n t" "offered vs as h b p t" "if i = p then ?D i (view_of t i) else start_view vs (st i) (as ! i) h (view_of t i)" for i t
  proof (cases "i = p")
    case True
    then show ?thesis using t by (intro exI [of _ t]) simp
  next
    case False
    have o: "p < ?n" "MsgBlock b \<in> net_sent t p" "bh_height (blk_header b) = h + 1" "proposer vs (h + 1) 0 = Some (bh_proposer (blk_header b))"
      "bh_proposer (blk_header b) = as ! p" using t(3) by (simp_all add: offered_def)
    have "as ! p \<noteq> as ! i" using False ok o(1) t(1) by (simp add: healthy_def nth_eq_iff_index_eq)
    then obtain t' where t': "passes E B ?n t t'" "alive ?n t'" "MsgBlock b \<in> net_sent t' p" "?D i (view_of t' i)" "\<forall>j. j \<noteq> i \<longrightarrow> view_of t' j = view_of t j"
      using round_votes [OF t(2) o(1) t(1) _ o(2) _ h o(3,4), of "st i" "as ! i" E B] False t(4) ok o(5) by (auto simp: healthy_def)
    then show ?thesis using t(3) by (intro exI [of _ t']) (simp add: offered_def)
  qed
  then have "\<exists>s'. passes E B ?n s s' \<and> alive ?n s' \<and> offered vs as h b p s' \<and> (\<forall>i<?n. ?D i (view_of s' i))"
    using voted b by (intro sweep [where A = "\<lambda>i v. if i = p then ?D i v else start_view vs (st i) (as ! i) h v"]) (simp_all add: all_nodes_def)
  with that show ?thesis by (auto simp: all_nodes_def)
qed

lemma all_collect:
  assumes ok: "healthy E B vs as st" and h: "h \<noteq> - 1" "h + 1 \<noteq> - 1" and b: "bh_height (blk_header b) = h + 1"
    and voted: "all_nodes as (\<lambda>i. vote_view E vs (st i) (as ! i) h b {as ! i}) s"
  obtains s' where "passes E B (length as) s s'" "all_nodes as (\<lambda>i. vote_view E vs (st i) (as ! i) h b (set as)) s'"
proof -
  let ?n = "length as" and ?G = "\<lambda>s. \<forall>k<length as. vote_message E b (as ! k) \<in> net_sent s k"
  have members: "\<And>k. k < ?n \<Longrightarrow> is_validator vs (as ! k)" and json: "json_ok E" and tot: "total_nat vs < 2 ^ 63"
    using ok by (auto simp: healthy_def)
  have "\<exists>t'. passes E B ?n t t' \<and> alive ?n t' \<and> ?G t' \<and> vote_view E vs (st i) (as ! i) h b (set as) (view_of t' i)
      \<and> (\<forall>j. j \<noteq> i \<longrightarrow> view_of t' j = view_of t j)"
    if t: "i < ?n" "alive ?n t" "?G t" "vote_view E vs (st i) (as ! i) h b {as ! i} (view_of t i)" for i t
  proof -
    let ?ks = "filter (\<lambda>k. k \<noteq> i) [0..<?n]"
    obtain c where c: "passes E B ?n t (put_node i c (net_producers t i) {} t)"
      "vote_view E vs (st i) (as ! i) h b ({as ! i} \<union> (!) as ` set ?ks) (c, net_producers t i, net_sent t i)"
      using round_collects [OF t(2,1,4) h b tot json, of ?ks as B] t(3) members by auto
    have "{as ! i} \<union> (!) as ` set ?ks = (!) as ` {0..<?n}" using t(1) by auto
    moreover have "(!) as ` {0..<?n} = set as" using arg_cong [OF map_nth [of as], of set] by simp
    ultimately have all: "{as ! i} \<union> (!) as ` set ?ks = set as" by (rule trans)
    then have view: "vote_view E vs (st i) (as ! i) h b (set as) (c, net_producers t i, net_sent t i)" using c(2) by simp
    then have "bft_height c \<noteq> - 1" using h phase_height [of E b h "set as" c] by (auto simp: vote_view_def)
    then show ?thesis
      using c(1) view t(2,3) by (intro exI [of _ "put_node i c (net_producers t i) {} t"]) (auto simp: view_put alive_put)
  qed
  then have "\<exists>s'. passes E B ?n s s' \<and> alive ?n s' \<and> ?G s' \<and> (\<forall>i<?n. vote_view E vs (st i) (as ! i) h b (set as) (view_of s' i))"
    using voted by (intro sweep [where A = "\<lambda>i. vote_view E vs (st i) (as ! i) h b {as ! i}"])
      (simp_all add: all_nodes_def vote_view_def view_of_def)
  with that show ?thesis by (auto simp: all_nodes_def)
qed

lemma all_advance:
  assumes ok: "healthy E B vs as st" and h: "h \<noteq> - 1" "h + 1 \<noteq> - 1"
    and voted: "all_nodes as (\<lambda>i. vote_view E vs (st i) (as ! i) h b (set as)) s"
  obtains s' where "passes E B (length as) s s'" "all_nodes as (\<lambda>i. start_view vs (st i) (as ! i) (h + 1)) s'"
proof -
  let ?n = "length as"
  have "enough vs (set as)" "2 \<le> ?n" using ok by (simp_all add: healthy_def enough_all)
  then have "\<exists>s'. passes E B ?n s s' \<and> alive ?n s' \<and> True \<and> (\<forall>i<?n. start_view vs (st i) (as ! i) (h + 1) (view_of s' i))"
    using voted round_advances [OF _ _ _ _ h]
    by (intro sweep [where G = "\<lambda>_. True" and A = "\<lambda>i. vote_view E vs (st i) (as ! i) h b (set as)"]) (simp_all add: all_nodes_def)
  with that show ?thesis by (auto simp: all_nodes_def)
qed

lemma round_completes:
  assumes ok: "healthy E B vs as st" and h: "h \<noteq> - 1" "h + 1 \<noteq> - 1" and start: "all_nodes as (\<lambda>i. start_view vs (st i) (as ! i) h) s"
  obtains s' where "passes E B (length as) s s'" "all_nodes as (\<lambda>i. start_view vs (st i) (as ! i) (h + 1)) s'"
proof -
  obtain b p s1 where s1: "passes E B (length as) s s1" "offered vs as h b p s1"
    "all_nodes as (\<lambda>i v. if i = p then vote_view E vs (st i) (as ! i) h b {as ! i} v else start_view vs (st i) (as ! i) h v) s1"
    by (rule all_propose [OF ok h start])
  obtain s2 where s2: "passes E B (length as) s1 s2" "all_nodes as (\<lambda>i. vote_view E vs (st i) (as ! i) h b {as ! i}) s2"
    by (rule all_vote [OF ok h s1(2,3)])
  have "bh_height (blk_header b) = h + 1" using s1(2) by (simp add: offered_def)
  then obtain s3 where s3: "passes E B (length as) s2 s3" "all_nodes as (\<lambda>i. vote_view E vs (st i) (as ! i) h b (set as)) s3"
    by (rule all_collect [OF ok h _ s2(2)])
  obtain s4 where s4: "passes E B (length as) s3 s4" "all_nodes as (\<lambda>i. start_view vs (st i) (as ! i) (h + 1)) s4"
    by (rule all_advance [OF ok h s3(2)])
  have "passes E B (length as) s s4" using s1(1) s2(1) s3(1) s4(1) by (meson rtranclp_trans)
  then show ?thesis using s4(2) by (rule that)
qed

section \<open>Progress\<close>

text \<open>A node that is alone waits for a peer at every pass: nothing ever changes.\<close>

lemma sole_validator_waits:
  assumes "(net_step E B (\<noteq>) 1)\<^sup>*\<^sup>* s s'"
  shows "s' = s"
  using assms
proof (induction rule: rtranclp_induct)
  case (step s1 s2)
  from step(2) show ?case
  proof cases
    case (net_produce i peers now1 now2 ms blocks pr c)
    moreover from this have "{j. j < 1 \<and> j \<noteq> i \<and> i \<noteq> j} = {}" by auto
    ultimately have "peers = 0" by (metis card.empty le_zero_eq)
    then show ?thesis using net_produce step(3) by (auto simp: node_produce_def)
  qed simp
qed simp

lemma new_engine_ready: "Bft_new_with_store a vs t g = Inr c \<Longrightarrow> ready 0 c \<and> fixed vs t a c"
  by (auto simp: Bft_new_with_store_def ready_def silent_def fixed_def has_voted_def split: if_splits)

lemma start_ready:
  assumes "net_start vs as st g s"
  shows "all_nodes as (\<lambda>i. start_view vs (st i) (as ! i) 0) s"
  unfolding all_nodes_def
proof
  show views: "\<forall>i<length as. start_view vs (st i) (as ! i) 0 (view_of s i)"
    using assms new_engine_ready by (fastforce simp: net_start_def start_view_def view_of_def Producer_new_def)
  show "alive (length as) s" using views by (fastforce simp: alive_def start_view_def view_of_def ready_def)
qed

lemma run_to_height:
  assumes "healthy E B vs as st" "net_start vs as st g s" "h \<noteq> - 1"
  obtains s' where "passes E B (length as) s s'" "all_nodes as (\<lambda>i. start_view vs (st i) (as ! i) h) s'"
proof -
  have "m < 2 ^ 64 - 1 \<Longrightarrow> \<exists>s'. passes E B (length as) s s' \<and> all_nodes as (\<lambda>i. start_view vs (st i) (as ! i) (of_nat m)) s'" for m
  proof (induction m)
    case 0
    show ?case using start_ready [OF assms(2)] by (intro exI [of _ s]) simp
  next
    case (Suc m)
    then obtain s1 where s1: "passes E B (length as) s s1" "all_nodes as (\<lambda>i. start_view vs (st i) (as ! i) (of_nat m)) s1" by auto
    have "(of_nat k :: u64) \<noteq> - 1" if "k < 2 ^ 64 - 1" for k
      using that unat_max_word [where 'a = 64] of_nat_inverse [of k "- 1 :: u64"] by (auto dest!: sym [of "of_nat k"])
    from this [of m] this [of "Suc m"] Suc.prems have top: "(of_nat m :: u64) \<noteq> - 1" "(of_nat m :: u64) + 1 \<noteq> - 1" by (simp_all add: add.commute)
    obtain s2 where "passes E B (length as) s1 s2" "all_nodes as (\<lambda>i. start_view vs (st i) (as ! i) (of_nat m + 1)) s2"
      by (rule round_completes [OF assms(1) top s1(2)])
    then show ?case using s1(1) by (intro exI [of _ s2]) (auto simp: add.commute)
  qed
  moreover have "unat h < 2 ^ 64 - 1"
    using assms(3) unat_less_bound [of h] unat_max_word [where 'a = 64] word_eq_by_unat [of h "- 1"] by fastforce
  ultimately show ?thesis using that by fastforce
qed

lemma passes_steps: "passes E B n s s' \<Longrightarrow> (net_step E B (\<noteq>) n)\<^sup>*\<^sup>* s s'"
  by (rule mono_rtranclp [rule_format]) (auto simp: pass_def)

lemma passes_async: "passes E B n s s' \<Longrightarrow> async_run E B F n s s'"
  by (induction rule: rtranclp_induct) (auto simp: pass_def alive_def intro: rtranclp_trans net_step_run)

text \<open>
  C10. Progress. Let there be at least two nodes, the members of the committee, each once and each connected to all others, with a positive total power below
  \<open>2 ^ 63\<close>, each with a ledger whose state root can be computed and whose validator records give that committee or none (otherwise a proposal replaces
  the committee). Then for every height below the largest there is a run of passes of the two loops, from the start, in which
  only the nodes' own messages are delivered and after which every node has finalized exactly the heights up to it, with the same block at each.
\<close>

theorem network_progress:
  assumes "healthy E B vs as st" "net_start vs as st g s" "h \<noteq> - 1"
  shows "\<exists>s'. (net_step E B (\<noteq>) (length as))\<^sup>*\<^sup>* s s' \<and>
     (\<forall>i<length as. bft_height (net_nodes s' i) = h \<and>
        (\<forall>k. om_get (bft_finalized (net_nodes s' i)) k \<noteq> None \<longleftrightarrow> 0 < k \<and> k \<le> h) \<and>
        (\<forall>j<length as. bft_finalized (net_nodes s' j) = bft_finalized (net_nodes s' i)))"
proof -
  obtain s' where s': "passes E B (length as) s s'" "all_nodes as (\<lambda>i. start_view vs (st i) (as ! i) h) s'"
    by (rule run_to_height [OF assms])
  have "async_run E B (forgeries vs) (length as) s s'" using s'(1) by (rule passes_async)
  then obtain P where P: "agreed E g vs st as P s'"
    using net_run_agreed [OF assms(2)] assms(1) unfolding healthy_def by blast
  have height: "bft_height (net_nodes s' i) = h" if "i < length as" for i
    using s'(2) that by (auto simp: all_nodes_def start_view_def view_of_def ready_def)
  have dom: "om_get (bft_finalized (net_nodes s' i)) k \<noteq> None \<longleftrightarrow> 0 < k \<and> k \<le> h" if "i < length as" for i k
    using agreedD(2) [OF P that] height [OF that] by (simp add: engine_ok_def chain_ok_def chain_inv_def)
  have "bft_finalized (net_nodes s' j) = bft_finalized (net_nodes s' i)" if "i < length as" "j < length as" for i j
  proof (rule om_eqI)
    fix k show "om_get (bft_finalized (net_nodes s' j)) k = om_get (bft_finalized (net_nodes s' i)) k"
      using dom [OF that(1), of k] dom [OF that(2), of k] finalized_agreed(1) [OF P that(1), of k] finalized_agreed(1) [OF P that(2), of k]
      by (metis option.exhaust option.inject)
  qed
  then show ?thesis using passes_steps [OF s'(1)] height dom by blast
qed

section \<open>Witnesses\<close>

definition demo_net :: "InMemoryBackend net" where
  "demo_net =
     \<lparr>net_nodes = (\<lambda>i. projr (Bft_new_with_store (demo_validators ! i) (unit_validator_set demo_validators) demo_store zero32)),
      net_producers = (\<lambda>_. Producer_new), net_sent = (\<lambda>_. {})\<rparr>"

lemma demo_members: "is_validator (unit_validator_set demo_validators) a \<longleftrightarrow> a \<in> set demo_validators"
proof -
  have "om_get (vs_validators (fold (\<lambda>v vs. vs_add (val_address v) (val_power v) vs) (map (\<lambda>a. Validator_new a 1) as) vs)) a =
      (if a \<in> set as then Some 1 else om_get (vs_validators vs) a)" for as vs
    by (induction as arbitrary: vs) (auto simp: vs_add_def Validator_new_def)
  then show ?thesis
    by (simp add: is_validator_def om_contains_def unit_validator_set_def from_validators_def ValidatorSet_new_def)
qed

lemma demo_net_start: "net_start (unit_validator_set demo_validators) demo_validators (\<lambda>_. demo_store) zero32 demo_net"
  using demo_members by (simp add: net_start_def demo_net_def Bft_new_with_store_def)

lemma demo_healthy: "healthy demo_externs (im_backend demo_externs) (unit_validator_set demo_validators) demo_validators (\<lambda>_. demo_store)"
proof -
  have "total_nat (unit_validator_set demo_validators) = 5"
    using demo_validators_facts by (simp add: unit_total distinct_card)
  moreover have "settled demo_externs (im_backend demo_externs) demo_store (unit_validator_set demo_validators)"
    using demo_no_records [of demo_store]
    by (simp add: demo_store_def settled_def committee_def active_candidates_def vs_is_empty_def ValidatorSet_new_def om_is_empty_def om_empty.rep_eq)
  moreover have "\<exists>root. store_state_root (im_backend demo_externs) demo_store = Inr root"
    by (simp add: store_state_root_def im_backend_def im_state_root_def)
  ultimately show ?thesis
    using demo_json_ok demo_validators_facts demo_members by (auto simp: healthy_def)
qed

theorem network_progress_witness:
  "\<exists>s'. (net_step demo_externs (im_backend demo_externs) (\<noteq>) 5)\<^sup>*\<^sup>* demo_net s' \<and> (\<forall>i<5. bft_height (net_nodes s' i) = 1000)"
proof -
  have "(1000 :: u64) \<noteq> - 1" by simp
  from network_progress [OF demo_healthy demo_net_start this] show ?thesis by (auto simp: demo_validators_facts)
qed

theorem network_agreement_witness:
  "\<exists>s' b. (async_step demo_externs (im_backend demo_externs) (forgeries (unit_validator_set demo_validators)) 5)\<^sup>*\<^sup>* demo_net s'
     \<and> om_get (bft_finalized (net_nodes s' 0)) 2 = Some b
     \<and> (\<forall>j<5. \<forall>b'. om_get (bft_finalized (net_nodes s' j)) 2 = Some b' \<longrightarrow> b' = b)
     \<and> (\<exists>b'. om_get (bft_finalized (net_nodes s' 0)) 1 = Some b' \<and> bh_previous_hash (blk_header b) = block_hash demo_externs b')"
proof -
  let ?vs = "unit_validator_set demo_validators" and ?B = "im_backend demo_externs"
  have n: "length demo_validators = 5" by (rule demo_validators_facts)
  have "(2 :: u64) \<noteq> - 1" by simp
  then obtain s' where run: "passes demo_externs ?B (length demo_validators) demo_net s'"
    and view: "all_nodes demo_validators (\<lambda>i. start_view ?vs demo_store (demo_validators ! i) 2) s'"
    by (rule run_to_height [OF demo_healthy demo_net_start])
  have s': "async_run demo_externs ?B (forgeries ?vs) 5 demo_net s'" using passes_async [OF run] unfolding n .
  have st: "\<forall>i<length demo_validators. settled demo_externs ?B demo_store ?vs" "distinct demo_validators"
    using demo_healthy by (simp_all add: healthy_def)
  obtain P where P: "agreed demo_externs zero32 ?vs (\<lambda>_. demo_store) demo_validators P s'"
    using net_run_agreed [OF demo_net_start st] s' unfolding n by blast
  have "bft_height (net_nodes s' 0) = 2" using view n by (auto simp: all_nodes_def start_view_def view_of_def ready_def)
  then have "om_get (bft_finalized (net_nodes s' 0)) 2 \<noteq> None"
    using agreedD(2) [OF P, of 0] n by (simp add: engine_ok_def chain_ok_def chain_inv_def)
  then obtain b where b: "om_get (bft_finalized (net_nodes s' 0)) 2 = Some b" by blast
  from network_agreement [OF demo_net_start st, of s' 0 2 b] s' b show ?thesis unfolding n by auto
qed

end
