(* ===== verification/Faucet.thy ===== *)
theory Faucet
  imports Rpc Ports
begin

text \<open>
  Model of src/crates/pemrix-faucet: the configuration, the submitter interface with its local implementation,
  and the request handler. The handler holds no lock between its cooldown check and its submission, so it is
  the composition of two parts; other requests may run between them. Instants are nanoseconds and arguments.
\<close>

section \<open>Configuration, errors and requests\<close>

record FaucetConfig =
  fc_listen :: string
  fc_faucet_address :: string
  fc_max_amount :: u128
  fc_cooldown_seconds :: u64
  fc_rpc_url :: string

definition default_faucet_config :: FaucetConfig where
  "default_faucet_config =
     \<lparr>fc_listen = faucet_local, fc_faucet_address = ''px'', fc_max_amount = 10000, fc_cooldown_seconds = 60,
      fc_rpc_url = rpc_internal_url\<rparr>"

datatype FaucetError =
    AmountTooHigh
  | Cooldown
  | InvalidAddress
  | Signing
  | Submission string
  | InsufficientFunds

fun FaucetError_to_string :: "FaucetError \<Rightarrow> string" where
  "FaucetError_to_string AmountTooHigh = ''amount exceeds maximum''"
| "FaucetError_to_string Cooldown = ''address is on cooldown''"
| "FaucetError_to_string InvalidAddress = ''invalid address''"
| "FaucetError_to_string Signing = ''signing failed''"
| "FaucetError_to_string (Submission m) = ''submission failed: '' @ m"
| "FaucetError_to_string InsufficientFunds = ''insufficient faucet funds''"

record FaucetRequest =
  fr_address :: string
  fr_amount :: string

record FaucetResponse =
  fp_success :: bool
  fp_tx_hash :: string
  fp_message :: string

section \<open>Submitters\<close>

record 's TransactionSubmitter =
  sub_submit :: "Transaction \<Rightarrow> ('s, FaucetError, hash) action"
  sub_nonce :: "address \<Rightarrow> 's \<Rightarrow> u64"

definition local_submit :: "externs \<Rightarrow> Transaction \<Rightarrow> (RpcState, FaucetError, hash) action" where
  "local_submit E tx =
     (let h = tx_hash E tx in
      act_bind (act_modify (rpc_store_transaction h tx)) (\<lambda>_.
      act_bind (act_modify (rpc_submit_transaction tx)) (\<lambda>_.
      act_return h)))"

definition local_nonce :: "address \<Rightarrow> address \<Rightarrow> RpcState \<Rightarrow> u64" where
  "local_nonce faucet_address _ s = (case rpc_get_account faucet_address s of None \<Rightarrow> 0 | Some x \<Rightarrow> acc_nonce x)"

definition LocalSubmitter :: "externs \<Rightarrow> address \<Rightarrow> RpcState TransactionSubmitter" where
  "LocalSubmitter E faucet_address = \<lparr>sub_submit = local_submit E, sub_nonce = local_nonce faucet_address\<rparr>"

section \<open>The service\<close>

record 's FaucetState =
  fs_config :: FaucetConfig
  fs_keypair :: KeyPair
  fs_address :: address
  fs_cooldowns :: "address \<rightharpoonup> nat"
  fs_backend :: 's

definition FaucetService_new :: "FaucetConfig \<Rightarrow> KeyPair \<Rightarrow> address \<Rightarrow> 's \<Rightarrow> 's FaucetState" where
  "FaucetService_new config keypair faucet_address backend =
     \<lparr>fs_config = config, fs_keypair = keypair, fs_address = faucet_address, fs_cooldowns = Map.empty,
      fs_backend = backend\<rparr>"

definition faucet_generate_keypair :: "externs \<Rightarrow> bytes32 \<Rightarrow> FaucetError + KeyPair" where
  "faucet_generate_keypair E rng = map_err (\<lambda>_. Signing) (ed25519_generate_keypair E rng)"

definition refused :: "string \<Rightarrow> FaucetResponse" where
  "refused message = \<lparr>fp_success = False, fp_tx_hash = [], fp_message = message\<rparr>"

definition from_secs :: "u64 \<Rightarrow> nat" where
  "from_secs n = unat n * 1000000000"

definition elapsed :: "nat \<Rightarrow> nat \<Rightarrow> nat" where
  "elapsed now last_time = now - last_time"

type_synonym faucet_answer = "StatusCode + StatusCode \<times> FaucetResponse"

text \<open>Up to the end of the cooldown check: \<open>Inl\<close> is an early return.\<close>

definition faucet_admit ::
    "externs \<Rightarrow> nat \<Rightarrow> FaucetRequest \<Rightarrow> 's FaucetState \<Rightarrow> faucet_answer + address \<times> u128" where
  "faucet_admit E now request s =
     (case Address_from_str E (fr_address request) of
        Inl _ \<Rightarrow> Inl (Inl BAD_REQUEST)
      | Inr recipient \<Rightarrow>
          (case parse_uint (fr_amount request) of
             Inl _ \<Rightarrow> Inl (Inl BAD_REQUEST)
           | Inr amount \<Rightarrow>
               if amount > fc_max_amount (fs_config s)
               then Inl (Inr (BAD_REQUEST, refused ''amount exceeds maximum''))
               else (case fs_cooldowns s recipient of
                       Some last_time \<Rightarrow>
                         if elapsed now last_time < from_secs (fc_cooldown_seconds (fs_config s))
                         then Inl (Inr (TOO_MANY_REQUESTS, refused ''address is on cooldown''))
                         else Inr (recipient, amount)
                     | None \<Rightarrow> Inr (recipient, amount))))"

text \<open>From reading the nonce to the answer.\<close>

definition faucet_send ::
    "externs \<Rightarrow> 's TransactionSubmitter \<Rightarrow> nat \<Rightarrow> address \<Rightarrow> u128 \<Rightarrow> 's FaucetState \<Rightarrow> faucet_answer \<times> 's FaucetState" where
  "faucet_send E S now recipient amount s =
     (let nonce = sub_nonce S (fs_address s) (fs_backend s);
          tx = (Transaction_transfer (fs_address s) recipient amount nonce 0)\<lparr>tx_public_key := kp_public (fs_keypair s)\<rparr> in
      case ed25519_sign E (kp_secret (fs_keypair s)) (bytes_of (signing_hash E tx)) of
        Inl _ \<Rightarrow> (Inl INTERNAL_SERVER_ERROR, s)
      | Inr sig \<Rightarrow>
          (case sub_submit S (tx\<lparr>tx_signature := sig\<rparr>) (fs_backend s) of
             (Inr h, b) \<Rightarrow>
               (Inr (HTTP_OK, \<lparr>fp_success = True, fp_tx_hash = Hash_to_string E h, fp_message = ''tokens sent''\<rparr>),
                s\<lparr>fs_backend := b, fs_cooldowns := (fs_cooldowns s)(recipient \<mapsto> now)\<rparr>)
           | (Inl e, b) \<Rightarrow>
               (Inr (INTERNAL_SERVER_ERROR, refused (FaucetError_to_string e)), s\<lparr>fs_backend := b\<rparr>)))"

definition request_handler ::
    "externs \<Rightarrow> 's TransactionSubmitter \<Rightarrow> nat \<Rightarrow> nat \<Rightarrow> FaucetRequest \<Rightarrow> 's FaucetState \<Rightarrow> faucet_answer \<times> 's FaucetState" where
  "request_handler E S now1 now2 request s =
     (case faucet_admit E now1 request s of
        Inl answer \<Rightarrow> (answer, s)
      | Inr (recipient, amount) \<Rightarrow> faucet_send E S now2 recipient amount s)"

section \<open>What a submitter promises\<close>

text \<open>\<open>queue\<close> is what the submitter has accepted; a failing submission accepts nothing.\<close>

locale submitter =
  fixes E :: externs and S :: "'s TransactionSubmitter" and queue :: "'s \<Rightarrow> Transaction list"
  assumes submit_accepts: "sub_submit S tx s = (Inr h, s') \<Longrightarrow> h = tx_hash E tx \<and> queue s' = queue s @ [tx]"
    and submit_fails: "sub_submit S tx s = (Inl e, s') \<Longrightarrow> queue s' = queue s"
begin

lemma answer_queues:
  assumes "faucet_send E S now recipient amount s = (Inr (HTTP_OK, r), s')" "kp_secret (fs_keypair s) = bytes_of sk"
    and "dalek_ok E" "kp_public (fs_keypair s) = dalek_public E (bytes_of sk)"
    and "fs_address s = hash_bytes E (kp_public (fs_keypair s))"
  shows "\<exists>tx. queue (fs_backend s') = queue (fs_backend s) @ [tx] \<and> verify_signature E tx = Inr ()
     \<and> tx_sender tx = fs_address s \<and> tx_recipient tx = recipient \<and> tx_amount tx = amount \<and> tx_payload tx = []
     \<and> tx_fee tx = 0 \<and> tx_nonce tx = sub_nonce S (fs_address s) (fs_backend s) \<and> fs_cooldowns s' recipient = Some now"
proof -
  define tx where "tx = (Transaction_transfer (fs_address s) recipient amount (sub_nonce S (fs_address s) (fs_backend s)) 0)
    \<lparr>tx_public_key := kp_public (fs_keypair s)\<rparr>"
  obtain sig where sig: "ed25519_sign E (bytes_of sk) (bytes_of (signing_hash E tx)) = Inr sig" "length sig = 64"
    "ed25519_verify E (dalek_public E (bytes_of sk)) (bytes_of (signing_hash E tx)) sig = Inr ()"
    using ed25519_sign_verify [OF assms(3), of sk "bytes_of (signing_hash E tx)"] by (auto simp: keypair_of_secret_def)
  let ?tx = "tx\<lparr>tx_signature := sig\<rparr>"
  have run: "sub_submit S ?tx (fs_backend s) = (Inr h, b) \<Longrightarrow> s' = s\<lparr>fs_backend := b, fs_cooldowns := (fs_cooldowns s)(recipient \<mapsto> now)\<rparr>" for h b
    using assms(1,2) sig(1) by (simp add: faucet_send_def tx_def [symmetric] Let_def)
  obtain h b where hb: "sub_submit S ?tx (fs_backend s) = (Inr h, b)"
    using assms(1,2) sig(1) by (auto simp: faucet_send_def tx_def [symmetric] Let_def split: prod.splits sum.splits)
  have "signing_hash E ?tx = signing_hash E tx"
    by (simp add: signing_hash_def tx_hash_def unsigned_tx_def)
  then have "verify_signature E ?tx = Inr ()"
    using sig assms(4,5) dalek_okD [OF assms(3), of "bytes_of sk"]
    by (simp add: verify_signature_def tx_def Transaction_transfer_def)
  then show ?thesis
    using submit_accepts [OF hb] run [OF hb] by (auto simp: tx_def Transaction_transfer_def intro!: exI [of _ ?tx])
qed

end

interpretation local: submitter E "LocalSubmitter E a" rpc_pending for E a
  by unfold_locales
    (auto simp: LocalSubmitter_def local_submit_def act_run Let_def rpc_submit_transaction_def rpc_store_transaction_def)

section \<open>Properties\<close>

text \<open>
  Requests one after the other, none of which reads the clock before \<open>t0\<close>, while the node changes the state
  behind the submitter as it likes.
\<close>

inductive faucet_step :: "externs \<Rightarrow> 's TransactionSubmitter \<Rightarrow> nat \<Rightarrow> 's FaucetState \<Rightarrow> 's FaucetState \<Rightarrow> bool"
  for E S t0 where
  fstep_request: "t0 \<le> now2 \<Longrightarrow> request_handler E S now1 now2 request s = (answer, s') \<Longrightarrow> faucet_step E S t0 s s'"
| fstep_node: "faucet_step E S t0 s (s\<lparr>fs_backend := b\<rparr>)"

lemma faucet_send_frame:
  assumes "faucet_send E S now recipient amount s = (answer, s')"
  shows "fs_config s' = fs_config s \<and> (fs_cooldowns s' = fs_cooldowns s \<or> fs_cooldowns s' = (fs_cooldowns s)(recipient \<mapsto> now))"
  using assms by (auto simp: faucet_send_def Let_def split: sum.splits prod.splits)

lemma faucet_step_cooldowns:
  assumes "faucet_step E S t0 s s'" "fs_cooldowns s a = Some t" "t0 \<le> t"
  shows "fs_config s' = fs_config s \<and> (\<exists>t'. fs_cooldowns s' a = Some t' \<and> t0 \<le> t')"
  using assms
proof (induction rule: faucet_step.induct)
  case (fstep_request now2 now1 request s answer s')
  then show ?case
    by (auto simp: request_handler_def split: sum.splits prod.splits dest!: faucet_send_frame)
qed simp

lemma faucet_run_cooldowns:
  assumes "(faucet_step E S t0)\<^sup>*\<^sup>* s s'" "fs_cooldowns s a = Some t" "t0 \<le> t"
  shows "fs_config s' = fs_config s \<and> (\<exists>t'. fs_cooldowns s' a = Some t' \<and> t0 \<le> t')"
  using assms(1)
proof (induction rule: rtranclp_induct)
  case base
  then show ?case using assms(2,3) by blast
next
  case (step y z)
  then show ?case using faucet_step_cooldowns [OF step(2)] by metis
qed

text \<open>
  C34. The cooldown holds for requests that are handled one after the other: once an address was served at some
  time, every well-formed request for it that is checked less than the cooldown later is refused with the
  status too many requests and changes nothing, whatever other requests and blocks came between.
\<close>

theorem faucet_cooldown_respected:
  assumes "request_handler E S now1 now2 request s = (Inr (HTTP_OK, r), s1)"
    and "Address_from_str E (fr_address request) = Inr a"
    and "(faucet_step E S now2)\<^sup>*\<^sup>* s1 s2"
    and "Address_from_str E (fr_address request') = Inr a" "parse_uint (fr_amount request') = Inr amount"
    and "amount \<le> fc_max_amount (fs_config s)"
    and "now2 \<le> now" "now < now2 + from_secs (fc_cooldown_seconds (fs_config s))"
  shows "request_handler E S now now' request' s2 = (Inr (TOO_MANY_REQUESTS, refused ''address is on cooldown''), s2)"
proof -
  obtain amount' where "faucet_send E S now2 a amount' s = (Inr (HTTP_OK, r), s1)"
    using assms(1,2) by (auto simp: request_handler_def faucet_admit_def split: sum.splits if_splits option.splits)
  then have "fs_cooldowns s1 a = Some now2" "fs_config s1 = fs_config s"
    by (auto simp: faucet_send_def Let_def refused_def split: sum.splits prod.splits)
  then obtain t' where "fs_config s2 = fs_config s" "fs_cooldowns s2 a = Some t'" "now2 \<le> t'"
    using faucet_run_cooldowns [OF assms(3)] by force
  moreover from this have "elapsed now t' < from_secs (fc_cooldown_seconds (fs_config s))"
    using assms(7,8) by (simp add: elapsed_def)
  ultimately show ?thesis
    using assms(4-6) by (simp add: request_handler_def faucet_admit_def not_less)
qed

lemma faucet_grant:
  assumes "request_handler E (LocalSubmitter E a) now1 now2 request s = (Inr (HTTP_OK, r), s')"
    and "dalek_ok E" "fs_keypair s = keypair_of_secret E sk" "fs_address s = hash_bytes E (kp_public (fs_keypair s))"
  shows "\<exists>tx. rpc_pending (fs_backend s') = rpc_pending (fs_backend s) @ [tx] \<and> verify_signature E tx = Inr ()
       \<and> tx_sender tx = fs_address s \<and> Address_from_str E (fr_address request) = Inr (tx_recipient tx)
       \<and> parse_uint (fr_amount request) = Inr (tx_amount tx) \<and> tx_amount tx \<le> fc_max_amount (fs_config s)
       \<and> tx_nonce tx = local_nonce a (fs_address s) (fs_backend s) \<and> tx_payload tx = [] \<and> tx_fee tx = 0"
proof -
  obtain recipient amount where adm: "Address_from_str E (fr_address request) = Inr recipient"
    "parse_uint (fr_amount request) = Inr amount" "amount \<le> fc_max_amount (fs_config s)"
    "faucet_send E (LocalSubmitter E a) now2 recipient amount s = (Inr (HTTP_OK, r), s')"
    using assms(1) by (auto simp: request_handler_def faucet_admit_def not_less split: sum.splits if_splits option.splits)
  have "kp_secret (fs_keypair s) = bytes_of sk" "kp_public (fs_keypair s) = dalek_public E (bytes_of sk)"
    using assms(3) by (simp_all add: keypair_of_secret_def)
  from local.answer_queues [OF adm(4) this(1) assms(2) this(2) assms(4)] show ?thesis
    using adm by (auto simp: LocalSubmitter_def)
qed

lemma faucet_grant_frame:
  assumes "request_handler E (LocalSubmitter E a) now1 now2 request s = (Inr (HTTP_OK, r), s')"
  shows "fs_keypair s' = fs_keypair s" "fs_address s' = fs_address s" "fp_message r = ''tokens sent''"
    "rpc_accounts (fs_backend s') = rpc_accounts (fs_backend s)"
  using assms
  by (auto simp: request_handler_def faucet_admit_def faucet_send_def Let_def LocalSubmitter_def local_submit_def act_run
      rpc_submit_transaction_def rpc_store_transaction_def split: sum.splits if_splits option.splits)

text \<open>
  What the faucet grants: every answer OK has queued exactly one transaction, a transfer from the faucet's
  account to the requested address of the requested amount, which is within the limit, signed so that the executor's
  check accepts it.
\<close>

theorem faucet_grant_is_valid:
  assumes "request_handler E (LocalSubmitter E a) now1 now2 request s = (Inr (HTTP_OK, r), s')"
    and "dalek_ok E" "fs_keypair s = keypair_of_secret E sk" "fs_address s = hash_bytes E (kp_public (fs_keypair s))"
  shows "\<exists>tx. rpc_pending (fs_backend s') = rpc_pending (fs_backend s) @ [tx] \<and> verify_signature E tx = Inr ()
       \<and> tx_sender tx = fs_address s \<and> Address_from_str E (fr_address request) = Inr (tx_recipient tx)
       \<and> parse_uint (fr_amount request) = Inr (tx_amount tx) \<and> tx_amount tx \<le> fc_max_amount (fs_config s)
       \<and> tx_nonce tx = local_nonce a (fs_address s) (fs_backend s) \<and> tx_payload tx = [] \<and> tx_fee tx = 0"
  by (rule faucet_grant [OF assms])

text \<open>
  The faucet reads its nonce from the chain, not from its queue: of two grants with no block between, whoever
  receives them, the second one's transaction repeats the first one's nonce, and once the first has executed
  the second is rejected for its nonce, although its requester was told that the tokens were sent.
\<close>

theorem faucet_second_grant_fails:
  assumes "request_handler E (LocalSubmitter E a) now1 now2 request s = (Inr (HTTP_OK, r), s')"
    and "request_handler E (LocalSubmitter E a) now1' now2' request' s' = (Inr (HTTP_OK, r'), s'')"
    and "dalek_ok E" "fs_keypair s = keypair_of_secret E sk" "fs_address s = hash_bytes E (kp_public (fs_keypair s))"
    and "json_ok E" "im_ok E b" "rpc_pending (fs_backend s'') = rpc_pending (fs_backend s) @ [tx1, tx2]"
    and "block_execute E (im_backend E) tx1 b = (q, b')" "im_ledger E b' \<noteq> im_ledger E b"
  shows "fp_message r' = ''tokens sent''
       \<and> fst (block_execute E (im_backend E) tx2 b') = Inr (failure ''invalid nonce'')"
proof -
  obtain x1 where x1: "rpc_pending (fs_backend s') = rpc_pending (fs_backend s) @ [x1]" "verify_signature E x1 = Inr ()"
    "tx_sender x1 = fs_address s" "tx_nonce x1 = local_nonce a (fs_address s) (fs_backend s)"
    using faucet_grant [OF assms(1,3-5)] by blast
  note frame = faucet_grant_frame [OF assms(1)]
  obtain x2 where x2: "rpc_pending (fs_backend s'') = rpc_pending (fs_backend s') @ [x2]" "verify_signature E x2 = Inr ()"
    "tx_sender x2 = fs_address s" "tx_nonce x2 = local_nonce a (fs_address s) (fs_backend s')"
    using faucet_grant [OF assms(2,3)] frame(1,2) assms(4,5) by metis
  have "tx1 = x1" "tx2 = x2" using assms(8) x1(1) x2(1) by auto
  moreover have "tx_nonce x2 = tx_nonce x1" using x1(4) x2(4) frame(4) by (simp add: local_nonce_def rpc_get_account_def)
  moreover note first = im_refines [OF assms(6,7,9)]
  then have "acc_nonce (lg_account (im_ledger E b') (tx_sender tx1)) = tx_nonce tx1 + 1"
    using execute_nonces [OF first(1)] assms(10) by auto
  moreover obtain q' b'' where run: "block_execute E (im_backend E) tx2 b' = (q', b'')" by fastforce
  ultimately have "q' = Inr (failure ''invalid nonce'')"
    using im_refines(1) [OF assms(6) first(2) run] x1(3) x2(2,3) by (simp add: spec_execute_def)
  then show ?thesis using run faucet_grant_frame(3) [OF assms(2)] by simp
qed

text \<open>
  The cooldown does not hold for requests that overlap: the check and the submission are separate steps, so two
  requests for the same address that are both checked before either is submitted are both served, however long the cooldown.
\<close>

theorem faucet_overlap_defeats_cooldown:
  assumes "dalek_ok E" "fs_keypair s = keypair_of_secret E sk" "fs_cooldowns s a = None"
    and "Address_from_str E (fr_address request) = Inr a" "parse_uint (fr_amount request) = Inr amount"
    and "amount \<le> fc_max_amount (fs_config s)"
  shows "faucet_admit E now1 request s = Inr (a, amount) \<and> faucet_admit E now2 request s = Inr (a, amount)
       \<and> (\<exists>r1 r2. fst (faucet_send E (LocalSubmitter E f) t1 a amount s) = Inr (HTTP_OK, r1)
            \<and> fst (faucet_send E (LocalSubmitter E f) t2 a amount (snd (faucet_send E (LocalSubmitter E f) t1 a amount s))) = Inr (HTTP_OK, r2))"
proof -
  have served: "\<exists>r. fst (faucet_send E (LocalSubmitter E f) t a amount s) = Inr (HTTP_OK, r)"
    and same: "fs_keypair (snd (faucet_send E (LocalSubmitter E f) t a amount s)) = fs_keypair s"
    if "fs_keypair s = keypair_of_secret E sk" for t s
  proof -
    have "kp_secret (fs_keypair s) = bytes_of sk" using that by (simp add: keypair_of_secret_def)
    then obtain sig where "ed25519_sign E (kp_secret (fs_keypair s)) msg = Inr (sig msg)" for msg
      using ed25519_sign_verify [OF assms(1), of sk] by metis
    then show "\<exists>r. fst (faucet_send E (LocalSubmitter E f) t a amount s) = Inr (HTTP_OK, r)"
      "fs_keypair (snd (faucet_send E (LocalSubmitter E f) t a amount s)) = fs_keypair s"
      by (simp_all add: faucet_send_def Let_def LocalSubmitter_def local_submit_def act_run)
  qed
  then show ?thesis
    using assms by (simp add: faucet_admit_def not_less)
qed

section \<open>Witnesses\<close>

definition demo_faucet :: "RpcState FaucetState" where
  "demo_faucet = FaucetService_new default_faucet_config (keypair_of_secret demo_externs demo_address) demo_address demo_rpc"

definition demo_request :: "address \<Rightarrow> FaucetRequest" where
  "demo_request a = \<lparr>fr_address = Address_to_string demo_externs a, fr_amount = word_to_string (100 :: u128)\<rparr>"

abbreviation demo_submitter :: "RpcState TransactionSubmitter" where
  "demo_submitter \<equiv> LocalSubmitter demo_externs demo_address"

lemma demo_faucet_key:
  "fs_keypair demo_faucet = keypair_of_secret demo_externs demo_address"
  "fs_address demo_faucet = hash_bytes demo_externs (kp_public (fs_keypair demo_faucet))"
  by (simp_all add: demo_faucet_def FaucetService_new_def keypair_of_secret_def hash_bytes_def demo_externs_def)

lemma demo_request_parses:
  "Address_from_str demo_externs (fr_address (demo_request a)) = Inr a" "parse_uint (fr_amount (demo_request a)) = Inr (100 :: u128)"
  by (simp_all add: demo_request_def Address_roundtrip [OF demo_hex_ok])

lemma demo_grant:
  assumes "fs_keypair s = keypair_of_secret demo_externs demo_address" "fs_cooldowns s a = None"
    "fs_config s = default_faucet_config"
  obtains r s' where "request_handler demo_externs demo_submitter now1 now2 (demo_request a) s = (Inr (HTTP_OK, r), s')"
    "fs_cooldowns s' = (fs_cooldowns s)(a \<mapsto> now2)" "fs_config s' = fs_config s" "fs_keypair s' = fs_keypair s"
    "fs_address s' = fs_address s"
proof -
  have "kp_secret (fs_keypair s) = bytes_of demo_address" using assms(1) by (simp add: keypair_of_secret_def)
  then obtain sig where "ed25519_sign demo_externs (kp_secret (fs_keypair s)) msg = Inr (sig msg)" for msg
    using ed25519_sign_verify [OF demo_dalek_ok, of demo_address] by metis
  then show ?thesis
    using that assms(2,3)
    by (simp add: request_handler_def faucet_admit_def demo_request_parses default_faucet_config_def faucet_send_def
        Let_def LocalSubmitter_def local_submit_def act_run)
qed

lemma demo_faucet_fresh: "fs_cooldowns demo_faucet a = None" "fs_config demo_faucet = default_faucet_config"
  by (simp_all add: demo_faucet_def FaucetService_new_def)

theorem faucet_cooldown_respected_witness:
  "\<exists>r s1. request_handler demo_externs demo_submitter 0 0 (demo_request zero32) demo_faucet = (Inr (HTTP_OK, r), s1) \<and>
     request_handler demo_externs demo_submitter 5 5 (demo_request zero32) s1 =
       (Inr (TOO_MANY_REQUESTS, refused ''address is on cooldown''), s1)"
proof -
  obtain r s1 where run: "request_handler demo_externs demo_submitter 0 0 (demo_request zero32) demo_faucet = (Inr (HTTP_OK, r), s1)"
    using demo_grant [OF demo_faucet_key(1) demo_faucet_fresh] by metis
  have "(5 :: nat) < 0 + from_secs (fc_cooldown_seconds (fs_config demo_faucet))"
    by (simp add: demo_faucet_fresh default_faucet_config_def from_secs_def)
  from faucet_cooldown_respected [OF run demo_request_parses(1) rtranclp.rtrancl_refl demo_request_parses _ _ this, of 5] run
  show ?thesis by (auto simp: demo_faucet_fresh default_faucet_config_def)
qed

theorem faucet_grant_is_valid_witness:
  "\<exists>r s' tx. request_handler demo_externs demo_submitter 0 0 (demo_request zero32) demo_faucet = (Inr (HTTP_OK, r), s') \<and>
     rpc_pending (fs_backend s') = rpc_pending (fs_backend demo_faucet) @ [tx] \<and> verify_signature demo_externs tx = Inr ()"
proof -
  obtain r s1 where run: "request_handler demo_externs demo_submitter 0 0 (demo_request zero32) demo_faucet = (Inr (HTTP_OK, r), s1)"
    using demo_grant [OF demo_faucet_key(1) demo_faucet_fresh] by metis
  from faucet_grant_is_valid [OF run demo_dalek_ok demo_faucet_key] run show ?thesis by blast
qed

theorem faucet_overlap_defeats_cooldown_witness:
  "\<exists>r1 r2. fst (faucet_send demo_externs demo_submitter 0 zero32 100 demo_faucet) = Inr (HTTP_OK, r1) \<and>
     fst (faucet_send demo_externs demo_submitter 1 zero32 100
       (snd (faucet_send demo_externs demo_submitter 0 zero32 100 demo_faucet))) = Inr (HTTP_OK, r2)"
  using faucet_overlap_defeats_cooldown [of demo_externs demo_faucet demo_address zero32 "demo_request zero32" 100 0 0 demo_address 0 1]
  by (simp add: demo_dalek_ok demo_faucet_key(1) demo_request_parses demo_faucet_fresh default_faucet_config_def)

theorem faucet_second_grant_fails_witness:
  "\<exists>r s' r' s'' tx1 tx2 q b'.
     request_handler demo_externs demo_submitter 0 0 (demo_request zero32) demo_faucet = (Inr (HTTP_OK, r), s') \<and>
     request_handler demo_externs demo_submitter 1 1 (demo_request (array32 [9])) s' = (Inr (HTTP_OK, r'), s'') \<and>
     rpc_pending (fs_backend s'') = rpc_pending (fs_backend demo_faucet) @ [tx1, tx2] \<and>
     block_execute demo_externs (im_backend demo_externs) tx1 demo_store = (q, b') \<and>
     fst (block_execute demo_externs (im_backend demo_externs) tx2 b') = Inr (failure ''invalid nonce'')"
proof -
  obtain r s' where run: "request_handler demo_externs demo_submitter 0 0 (demo_request zero32) demo_faucet = (Inr (HTTP_OK, r), s')"
    and s': "fs_cooldowns s' = (fs_cooldowns demo_faucet)(zero32 \<mapsto> 0)" "fs_config s' = fs_config demo_faucet"
      "fs_keypair s' = fs_keypair demo_faucet" "fs_address s' = fs_address demo_faucet"
    using demo_grant [OF demo_faucet_key(1) demo_faucet_fresh] by metis
  have "bytes_of zero32 ! 0 \<noteq> bytes_of (array32 [9]) ! 0" by (simp add: zero32_def bytes_of_array32_pad)
  then have "fs_cooldowns s' (array32 [9]) = None" by (auto simp: s' demo_faucet_fresh)
  then obtain r' s'' where run': "request_handler demo_externs demo_submitter 1 1 (demo_request (array32 [9])) s' = (Inr (HTTP_OK, r'), s'')"
    using demo_grant [of s' "array32 [9]" 1 1] s' demo_faucet_key(1) demo_faucet_fresh(2) by metis
  obtain tx1 where tx1: "rpc_pending (fs_backend s') = rpc_pending (fs_backend demo_faucet) @ [tx1]"
    "verify_signature demo_externs tx1 = Inr ()" "tx_sender tx1 = fs_address demo_faucet"
    "tx_nonce tx1 = local_nonce demo_address (fs_address demo_faucet) (fs_backend demo_faucet)" "tx_fee tx1 = 0"
    using faucet_grant [OF run demo_dalek_ok demo_faucet_key] by blast
  obtain tx2 where tx2: "rpc_pending (fs_backend s'') = rpc_pending (fs_backend demo_faucet) @ [tx1, tx2]"
    using faucet_grant [OF run' demo_dalek_ok] s'(3,4) demo_faucet_key tx1(1) by force
  obtain q b' where exec: "block_execute demo_externs (im_backend demo_externs) tx1 demo_store = (q, b')" by fastforce
  have "tx_sender tx1 = demo_address" "tx_nonce tx1 = 0"
    using tx1(3,4) by (simp_all add: demo_faucet_def FaucetService_new_def local_nonce_def rpc_get_account_def demo_rpc_def
        rpc_set_account_def Account_new_def)
  then have "im_ledger demo_externs b' \<noteq> im_ledger demo_externs demo_store"
    using execute_charges [OF im_refines(1) [OF demo_json_ok demo_store_ok(1) exec] tx1(2)] tx1(5) demo_ledger_account
    by (simp add: Account_new_def)
  from faucet_second_grant_fails [OF run run' demo_dalek_ok demo_faucet_key demo_json_ok demo_store_ok(1) tx2 exec this]
  show ?thesis using run run' tx2 exec by blast
qed

end
