(* ===== verification/Explorer.thy ===== *)
theory Explorer
  imports Rpc
begin

text \<open>
  Model of src/crates/pemrix-explorer: the index of blocks, transactions and accounts and its queries. The
  maps are finite and looked up by key or counted; where their keys are listed the code sorts
  them, so their own order is not observable.
\<close>

section \<open>State and operations\<close>

record ExplorerStatus =
  es_height :: u64
  es_transaction_count :: nat
  es_account_count :: nat

record AccountInfo =
  ai_address :: address
  ai_balance :: u128
  ai_nonce :: u64

record ExplorerState =
  ex_blocks :: "(u64, Block) omap"
  ex_blocks_by_hash :: "(hash, u64) omap"
  ex_transactions :: "(hash, u64 \<times> Transaction) omap"
  ex_accounts :: "(address, Account) omap"

definition ExplorerState_new :: ExplorerState where
  "ExplorerState_new =
     \<lparr>ex_blocks = om_empty, ex_blocks_by_hash = om_empty, ex_transactions = om_empty, ex_accounts = om_empty\<rparr>"

definition ex_ingest_block :: "externs \<Rightarrow> Block \<Rightarrow> ExplorerState \<Rightarrow> ExplorerState" where
  "ex_ingest_block E b s =
     (let height = bh_height (blk_header b); h = block_hash E b in
      s\<lparr>ex_blocks := om_insert height b (ex_blocks s),
        ex_blocks_by_hash := om_insert h height (ex_blocks_by_hash s),
        ex_transactions := fold (\<lambda>tx. om_insert (tx_hash E tx) (height, tx)) (bb_transactions (blk_body b)) (ex_transactions s)\<rparr>)"

definition ex_ingest_account :: "address \<Rightarrow> Account \<Rightarrow> ExplorerState \<Rightarrow> ExplorerState" where
  "ex_ingest_account a x s = s\<lparr>ex_accounts := om_insert a x (ex_accounts s)\<rparr>"

definition keys_max :: "u64 list \<Rightarrow> u64 option" where
  "keys_max ks = (case ks of [] \<Rightarrow> None | k # rest \<Rightarrow> Some (fold max rest k))"

definition ex_status :: "ExplorerState \<Rightarrow> ExplorerStatus" where
  "ex_status s =
     \<lparr>es_height = (case keys_max (om_keys (ex_blocks s)) of None \<Rightarrow> 0 | Some h \<Rightarrow> h),
      es_transaction_count = om_len (ex_transactions s), es_account_count = om_len (ex_accounts s)\<rparr>"

definition ex_block_by_height :: "u64 \<Rightarrow> ExplorerState \<Rightarrow> Block option" where
  "ex_block_by_height height s = om_get (ex_blocks s) height"

definition ex_block_by_hash :: "hash \<Rightarrow> ExplorerState \<Rightarrow> Block option" where
  "ex_block_by_hash h s = Option.bind (om_get (ex_blocks_by_hash s) h) (\<lambda>n. om_get (ex_blocks s) n)"

definition ex_transaction :: "hash \<Rightarrow> ExplorerState \<Rightarrow> (u64 \<times> Transaction) option" where
  "ex_transaction h s = om_get (ex_transactions s) h"

definition ex_account :: "address \<Rightarrow> ExplorerState \<Rightarrow> Account option" where
  "ex_account a s = om_get (ex_accounts s) a"

definition recent_blocks :: "nat \<Rightarrow> ExplorerState \<Rightarrow> Block list" where
  "recent_blocks limit s =
     (let heights = rev (sort (om_keys (ex_blocks s)))
      in List.map_filter (\<lambda>h. om_get (ex_blocks s) h) (take limit heights))"

section \<open>Handlers\<close>

definition ex_status_handler :: "ExplorerState \<Rightarrow> ExplorerStatus" where
  "ex_status_handler s = ex_status s"

definition ex_blocks_handler :: "ExplorerState \<Rightarrow> Block list" where
  "ex_blocks_handler s = recent_blocks 20 s"

definition ex_block_by_height_handler :: "u64 \<Rightarrow> ExplorerState \<Rightarrow> StatusCode + Block" where
  "ex_block_by_height_handler height s = ok_or NOT_FOUND (ex_block_by_height height s)"

definition ex_block_by_hash_handler :: "externs \<Rightarrow> string \<Rightarrow> ExplorerState \<Rightarrow> StatusCode + Block" where
  "ex_block_by_hash_handler E str s =
     bind_result (map_err (\<lambda>_. BAD_REQUEST) (Hash_from_str E str)) (\<lambda>h. ok_or NOT_FOUND (ex_block_by_hash h s))"

definition ex_transaction_handler :: "externs \<Rightarrow> string \<Rightarrow> ExplorerState \<Rightarrow> StatusCode + Transaction" where
  "ex_transaction_handler E str s =
     bind_result (map_err (\<lambda>_. BAD_REQUEST) (Hash_from_str E str)) (\<lambda>h.
     ok_or NOT_FOUND (map_option snd (ex_transaction h s)))"

definition ex_account_handler :: "externs \<Rightarrow> string \<Rightarrow> ExplorerState \<Rightarrow> StatusCode + AccountInfo" where
  "ex_account_handler E str s =
     bind_result (map_err (\<lambda>_. BAD_REQUEST) (Address_from_str E str)) (\<lambda>a.
     ok_or NOT_FOUND
       (map_option (\<lambda>x. \<lparr>ai_address = a, ai_balance = acc_balance x, ai_nonce = acc_nonce x\<rparr>) (ex_account a s)))"

section \<open>Lemmas\<close>

definition ex_ok :: "ExplorerState \<Rightarrow> bool" where
  "ex_ok s \<longleftrightarrow> (\<forall>n b. om_get (ex_blocks s) n = Some b \<longrightarrow> bh_height (blk_header b) = n)"

lemma ex_ingest_block_ok: "ex_ok s \<Longrightarrow> ex_ok (ex_ingest_block E b s)"
  by (simp add: ex_ok_def ex_ingest_block_def Let_def)

lemma ex_run_ok: "ex_ok s \<Longrightarrow> ex_ok (fold (ex_ingest_block E) bs s)"
  by (induction bs arbitrary: s) (simp_all add: ex_ingest_block_ok)

lemma sorted_om_keys [simp]: "sort (om_keys m) = om_keys m" for m :: "('k::linorder, 'v) omap"
  using om_keys_sorted [of m] by (simp add: sorted_sort_id strict_sorted_iff)

lemma map_filter_total:
  assumes "\<forall>x\<in>set xs. f x = Some (g x)"
  shows "List.map_filter f xs = map g xs"
  using assms by (induction xs) (simp_all add: map_filter_simps)

lemma recent_blocks_heights:
  assumes "ex_ok s"
  shows "map (bh_height \<circ> blk_header) (recent_blocks limit s) = take limit (rev (om_keys (ex_blocks s)))"
proof -
  have stored: "\<exists>b. om_get (ex_blocks s) h = Some b \<and> bh_height (blk_header b) = h"
    if "h \<in> set (take limit (rev (om_keys (ex_blocks s))))" for h
    using in_set_takeD [OF that] assms by (auto simp: set_om_keys ex_ok_def)
  then have "recent_blocks limit s = map (\<lambda>h. the (om_get (ex_blocks s) h)) (take limit (rev (om_keys (ex_blocks s))))"
    unfolding recent_blocks_def sorted_om_keys Let_def by (intro map_filter_total) fastforce
  moreover have "bh_height (blk_header (the (om_get (ex_blocks s) h))) = h"
    if "h \<in> set (take limit (rev (om_keys (ex_blocks s))))" for h
    using stored [OF that] by auto
  ultimately show ?thesis by (simp add: map_idI)
qed

lemma fold_max_sorted: "sorted (k # ks) \<Longrightarrow> fold max ks k = last (k # ks)" for k :: "'a::linorder"
  by (induction ks arbitrary: k) (auto simp: max_absorb2)

lemma ex_status_height:
  "es_height (ex_status s) = (if om_keys (ex_blocks s) = [] then 0 else last (om_keys (ex_blocks s)))"
proof (cases "om_keys (ex_blocks s)")
  case (Cons k ks)
  moreover have "sorted (om_keys (ex_blocks s))" using om_keys_sorted [of "ex_blocks s"] by (simp add: strict_sorted_iff)
  ultimately show ?thesis by (simp add: ex_status_def keys_max_def fold_max_sorted)
qed (simp add: ex_status_def keys_max_def)

lemma ex_ingested_heights:
  "set (om_keys (ex_blocks (fold (ex_ingest_block E) bs s))) = bh_height ` blk_header ` set bs \<union> set (om_keys (ex_blocks s))"
  by (induction bs arbitrary: s) (auto simp: ex_ingest_block_def set_om_keys Let_def)

text \<open>
  The list of recent blocks: after any sequence of ingested blocks the explorer lists the blocks with the
  greatest heights, newest first, without repetition, as many as asked for or stored; every block it leaves
  out is older than all it lists, and the first one listed is at the reported height.
\<close>

theorem recent_blocks_newest_first:
  assumes "s = fold (ex_ingest_block E) bs ExplorerState_new"
    and "hs = map (bh_height \<circ> blk_header) (recent_blocks limit s)"
  shows "sorted_wrt (>) hs \<and> set hs \<subseteq> bh_height ` blk_header ` set bs
       \<and> length hs = min limit (card (bh_height ` blk_header ` set bs))
       \<and> (\<forall>b\<in>set bs. bh_height (blk_header b) \<in> set hs \<or> (\<forall>h\<in>set hs. bh_height (blk_header b) < h))
       \<and> (hs \<noteq> [] \<longrightarrow> hd hs = es_height (ex_status s))"
proof -
  define ks where "ks = om_keys (ex_blocks s)"
  have "ex_ok s" unfolding assms(1) by (rule ex_run_ok) (simp add: ex_ok_def ExplorerState_new_def)
  then have hs: "hs = take limit (rev ks)" using recent_blocks_heights assms(2) by (simp add: ks_def)
  have desc: "sorted_wrt (>) (rev ks)"
    using om_keys_sorted [of "ex_blocks s"] by (simp add: ks_def sorted_wrt_rev)
  have set_ks: "set ks = bh_height ` blk_header ` set bs"
    using ex_ingested_heights [of E bs ExplorerState_new] by (simp add: ks_def assms(1) ExplorerState_new_def set_om_keys)
  have "length ks = card (set ks)" using om_keys_distinct [of "ex_blocks s"] by (simp add: ks_def distinct_card)
  then have len: "length hs = min limit (card (bh_height ` blk_header ` set bs))" by (simp add: hs set_ks)
  have left_out: "h \<in> set hs \<or> (\<forall>k\<in>set hs. h < k)" if "h \<in> set ks" for h
    using desc that append_take_drop_id [of limit "rev ks"] set_append [of "take limit (rev ks)" "drop limit (rev ks)"]
      sorted_wrt_append [of "(>)" "take limit (rev ks)" "drop limit (rev ks)"]
    unfolding hs by (metis UnE set_rev)
  have "hd hs = es_height (ex_status s)" if "hs \<noteq> []"
    using that by (simp add: hs ex_status_height ks_def hd_rev hd_take)
  moreover have "sorted_wrt (>) hs" unfolding hs by (rule sorted_wrt_take [OF desc])
  moreover have "set hs \<subseteq> set ks" using set_take_subset [of limit "rev ks"] by (simp add: hs)
  ultimately show ?thesis using len left_out set_ks by blast
qed

text \<open>
  A replaced block poisons the lookup by hash. When two different blocks of the same height are ingested, a
  query for the first one's hash answers with the second block, whose hash is another one; the
  RPC server, which keeps the blocks themselves by hash, still answers with the first.
\<close>

theorem explorer_hash_lookup_stale:
  assumes "hex_ok E" "bh_height (blk_header b1) = bh_height (blk_header b2)" "block_hash E b1 \<noteq> block_hash E b2"
  shows "ex_block_by_hash_handler E (Hash_to_string E (block_hash E b1)) (ex_ingest_block E b2 (ex_ingest_block E b1 s)) = Inr b2
       \<and> rpc_get_block_by_hash (block_hash E b1) (rpc_store_block E b2 (rpc_store_block E b1 t)) = Some b1"
  using assms(2,3)
  by (auto simp: ex_block_by_hash_handler_def Hash_roundtrip [OF assms(1)] ex_block_by_hash_def ex_ingest_block_def Let_def
      rpc_get_block_by_hash_def rpc_store_block_def)

text \<open>The account index only holds what \<open>ingest_account\<close> put there.\<close>

lemma ex_ingest_block_accounts: "ex_accounts (fold (ex_ingest_block E) bs s) = ex_accounts s"
  by (induction bs arbitrary: s) (simp_all add: ex_ingest_block_def Let_def)

section \<open>Witnesses\<close>

theorem recent_blocks_newest_first_witness:
  "map (bh_height \<circ> blk_header)
     (recent_blocks 1 (fold (ex_ingest_block demo_externs) [demo_block 1, demo_block 2] ExplorerState_new)) = [2]"
proof -
  define hs where "hs = map (bh_height \<circ> blk_header)
     (recent_blocks 1 (fold (ex_ingest_block demo_externs) [demo_block 1, demo_block 2] ExplorerState_new))"
  have "bh_height ` blk_header ` set [demo_block 1, demo_block 2] = {1, 2}" by (simp add: demo_block_def)
  then have "length hs = 1" "set hs \<subseteq> {1, 2}" and "\<forall>b\<in>{1, 2}. b \<in> set hs \<or> (\<forall>h\<in>set hs. b < h)"
    using recent_blocks_newest_first [OF refl hs_def] by (auto simp: demo_block_def)
  moreover from this obtain h where "hs = [h]" by (auto simp: length_Suc_conv)
  ultimately have "h = 2" "hs = [h]" by auto
  then show ?thesis by (simp add: hs_def)
qed

theorem explorer_hash_lookup_stale_witness:
  "\<exists>b1 b2. block_hash demo_externs b1 \<noteq> block_hash demo_externs b2 \<and>
     ex_block_by_hash_handler demo_externs (Hash_to_string demo_externs (block_hash demo_externs b1))
       (ex_ingest_block demo_externs b2 (ex_ingest_block demo_externs b1 ExplorerState_new)) = Inr b2"
proof -
  define b1 where "b1 = demo_block 1"
  define b2 where "b2 = b1\<lparr>blk_header := (blk_header b1)\<lparr>bh_timestamp := 7\<rparr>\<rparr>"
  have "bytes_of (block_hash demo_externs b1) ! 1 \<noteq> bytes_of (block_hash demo_externs b2) ! 1"
    by (simp add: block_hash_def hash_bytes_def demo_externs_def demo_header_def b1_def b2_def demo_block_def bytes_of_array32_pad)
  then have "block_hash demo_externs b1 \<noteq> block_hash demo_externs b2" by auto
  moreover have "bh_height (blk_header b1) = bh_height (blk_header b2)" by (simp add: b2_def)
  ultimately show ?thesis using explorer_hash_lookup_stale [OF demo_hex_ok] by blast
qed

end
