(* ===== verification/Webhooks.thy ===== *)
theory Webhooks
  imports Rpc
begin

text \<open>
  Model of src/crates/pemrix-webhooks: subscriptions, signed deliveries and the delivery log. HMAC-SHA256,
  \<open>serde_json::to_vec\<close> and the random identifiers are parameters. The hash map of subscriptions is listed in
  an order of its own, which the order of deliveries follows: it is a list in that order,
  and where a new key lands is an argument of \<open>subscribe\<close>.
\<close>

section \<open>Subscriptions and deliveries\<close>

datatype EventType = EventBlock | EventTransaction | EventTransactionConfirmed

record WebhookSubscription =
  ws_id :: string
  ws_url :: string
  ws_events :: "EventType list"
  ws_secret :: string
  ws_active :: bool

definition WebhookSubscription_new :: "string \<Rightarrow> string \<Rightarrow> EventType list \<Rightarrow> string \<Rightarrow> WebhookSubscription" where
  "WebhookSubscription_new sid url events secret =
     \<lparr>ws_id = sid, ws_url = url, ws_events = events, ws_secret = secret, ws_active = True\<rparr>"

text \<open>The two JSON values the program passes as payload.\<close>

datatype Payload = PayloadHeight u64 | PayloadHash string

datatype WebhookError =
    WebhookNotFound
  | InvalidUrl
  | DeliveryFailed string
  | Serialization
  | WebhookInternal string

datatype DeliveryResult = Success | RetryableFailure string | PermanentFailure string

record WebhookDelivery =
  wd_subscription_id :: string
  wd_event_type :: EventType
  wd_payload :: Payload
  wd_signature :: string

record signer =
  sg_to_vec :: "Payload \<Rightarrow> bytes option"
  sg_hmac_key :: "bytes \<Rightarrow> string + bytes"
  sg_hmac :: "bytes \<Rightarrow> bytes \<Rightarrow> bytes"

definition as_bytes :: "string \<Rightarrow> bytes" where
  "as_bytes s = map of_char s"

definition compute_signature :: "externs \<Rightarrow> signer \<Rightarrow> string \<Rightarrow> Payload \<Rightarrow> WebhookError + string" where
  "compute_signature E G secret payload =
     bind_result (ok_or Serialization (sg_to_vec G payload)) (\<lambda>bytes.
     bind_result (map_err WebhookInternal (sg_hmac_key G (as_bytes secret))) (\<lambda>mac.
     Inr (hex_encode E (sg_hmac G mac bytes))))"

definition WebhookDelivery_new ::
    "externs \<Rightarrow> signer \<Rightarrow> WebhookSubscription \<Rightarrow> EventType \<Rightarrow> Payload \<Rightarrow> WebhookError + WebhookDelivery" where
  "WebhookDelivery_new E G sub event_type payload =
     bind_result (compute_signature E G (ws_secret sub) payload) (\<lambda>signature.
     Inr \<lparr>wd_subscription_id = ws_id sub, wd_event_type = event_type, wd_payload = payload, wd_signature = signature\<rparr>)"

definition deliver :: "WebhookSubscription \<Rightarrow> WebhookDelivery \<Rightarrow> DeliveryResult" where
  "deliver sub delivery =
     (if wd_subscription_id delivery = [] then PermanentFailure ''invalid subscription id'' else Success)"

section \<open>Service state\<close>

record WebhookState =
  wh_subscriptions :: "(string \<times> WebhookSubscription) list"
  wh_delivery_log :: "(string \<times> DeliveryResult) list"

definition WebhookState_new :: WebhookState where
  "WebhookState_new = \<lparr>wh_subscriptions = [], wh_delivery_log = []\<rparr>"

definition subscribe :: "nat \<Rightarrow> WebhookSubscription \<Rightarrow> WebhookState \<Rightarrow> WebhookState" where
  "subscribe i sub s =
     s\<lparr>wh_subscriptions :=
         (if ws_id sub \<in> fst ` set (wh_subscriptions s)
          then map (\<lambda>(k, x). if k = ws_id sub then (k, sub) else (k, x)) (wh_subscriptions s)
          else take i (wh_subscriptions s) @ (ws_id sub, sub) # drop i (wh_subscriptions s))\<rparr>"

definition unsubscribe :: "string \<Rightarrow> WebhookState \<Rightarrow> WebhookSubscription option \<times> WebhookState" where
  "unsubscribe sid s =
     (map_of (wh_subscriptions s) sid, s\<lparr>wh_subscriptions := filter (\<lambda>(k, _). k \<noteq> sid) (wh_subscriptions s)\<rparr>)"

definition list_active :: "WebhookState \<Rightarrow> WebhookSubscription list" where
  "list_active s = filter ws_active (map snd (wh_subscriptions s))"

definition trigger_one ::
    "externs \<Rightarrow> signer \<Rightarrow> EventType \<Rightarrow> Payload \<Rightarrow> WebhookSubscription \<Rightarrow> WebhookState \<Rightarrow> WebhookState" where
  "trigger_one E G event_type payload sub s =
     (if event_type \<in> set (ws_events sub) then
        (case WebhookDelivery_new E G sub event_type payload of
           Inr delivery \<Rightarrow> s\<lparr>wh_delivery_log := wh_delivery_log s @ [(ws_id sub, deliver sub delivery)]\<rparr>
         | Inl e \<Rightarrow> s)
      else s)"

definition trigger :: "externs \<Rightarrow> signer \<Rightarrow> EventType \<Rightarrow> Payload \<Rightarrow> WebhookState \<Rightarrow> WebhookState" where
  "trigger E G event_type payload s = fold (trigger_one E G event_type payload) (list_active s) s"

section \<open>Handlers\<close>

record SubscribeRequest =
  sr_url :: string
  sr_events :: "EventType list"
  sr_secret :: "string option"

record SubscriptionResponse =
  sre_id :: string
  sre_url :: string
  sre_events :: "EventType list"
  sre_secret :: string

definition SubscriptionResponse_from :: "WebhookSubscription \<Rightarrow> SubscriptionResponse" where
  "SubscriptionResponse_from sub =
     \<lparr>sre_id = ws_id sub, sre_url = ws_url sub, sre_events = ws_events sub, sre_secret = ws_secret sub\<rparr>"

text \<open>Arguments: the place of the new key, the random id and the random secret.\<close>

definition subscribe_handler ::
    "nat \<Rightarrow> string \<Rightarrow> string \<Rightarrow> SubscribeRequest \<Rightarrow> (WebhookState, StatusCode, StatusCode \<times> SubscriptionResponse) action" where
  "subscribe_handler i sid random_secret request =
     (let secret = (case sr_secret request of None \<Rightarrow> random_secret | Some x \<Rightarrow> x);
          events = remdups (sr_events request);
          subscription = WebhookSubscription_new sid (sr_url request) events secret;
          response = SubscriptionResponse_from subscription in
      act_bind (act_modify (subscribe i subscription)) (\<lambda>_.
      act_return (HTTP_CREATED, response)))"

definition unsubscribe_handler :: "string \<Rightarrow> WebhookState \<Rightarrow> StatusCode \<times> WebhookState" where
  "unsubscribe_handler sid s =
     (case unsubscribe sid s of (r, s') \<Rightarrow> (if r \<noteq> None then HTTP_NO_CONTENT else NOT_FOUND, s'))"

definition list_handler :: "WebhookState \<Rightarrow> SubscriptionResponse list" where
  "list_handler s = map SubscriptionResponse_from (list_active s)"

section \<open>Delivery\<close>

definition wh_ok :: "WebhookState \<Rightarrow> bool" where
  "wh_ok s \<longleftrightarrow> distinct (map fst (wh_subscriptions s)) \<and>
     (\<forall>(k, sub)\<in>set (wh_subscriptions s). k = ws_id sub \<and> ws_active sub)"

text \<open>
  The steps are the critical sections: the handlers, and of a \<open>trigger\<close> the delivery to one subscription with the entry it pushes.
\<close>

inductive wh_step :: "externs \<Rightarrow> signer \<Rightarrow> WebhookState \<Rightarrow> WebhookState \<Rightarrow> bool" for E G where
  wh_subscribe: "subscribe_handler i sid secret request s = (r, s') \<Longrightarrow> wh_step E G s s'"
| wh_unsubscribe: "unsubscribe_handler sid s = (r', s') \<Longrightarrow> wh_step E G s s'"
| wh_push: "wh_step E G s (trigger_one E G event_type payload sub s)"

text \<open>
  A call of \<open>trigger\<close> that has still to serve \<open>subs\<close>, which it listed when it began; between two of its entries other tasks take any
  number of steps. \<open>ds\<close> are the entries this call pushes.
\<close>

inductive trigger_run ::
    "externs \<Rightarrow> signer \<Rightarrow> EventType \<Rightarrow> Payload \<Rightarrow> WebhookSubscription list \<Rightarrow> (string \<times> DeliveryResult) list
       \<Rightarrow> WebhookState \<Rightarrow> WebhookState \<Rightarrow> bool" for E G e p where
  run_done: "trigger_run E G e p [] [] s s"
| run_other: "wh_step E G s s1 \<Longrightarrow> trigger_run E G e p subs ds s1 s' \<Longrightarrow> trigger_run E G e p subs ds s s'"
| run_push: "s1 = trigger_one E G e p sub s \<Longrightarrow> wh_delivery_log s1 = wh_delivery_log s @ d \<Longrightarrow>
     trigger_run E G e p subs ds s1 s' \<Longrightarrow> trigger_run E G e p (sub # subs) (d @ ds) s s'"

lemma map_update_keys: "map fst (map (\<lambda>(k, x). if k = a then (k, v) else (k, x)) xs) = map fst xs"
  by (induction xs) auto

lemma distinct_insert_at: "distinct xs \<Longrightarrow> a \<notin> set xs \<Longrightarrow> distinct (take i xs @ a # drop i xs)"
  using distinct_append [of "take i xs" "drop i xs"] by (auto dest: in_set_takeD in_set_dropD)

lemma subscribe_ok:
  assumes "wh_ok s" "ws_active sub"
  shows "wh_ok (subscribe i sub s)"
proof (cases "ws_id sub \<in> fst ` set (wh_subscriptions s)")
  case True
  then show ?thesis
    using assms map_update_keys [of "ws_id sub" sub "wh_subscriptions s"]
    by (auto simp: wh_ok_def subscribe_def simp del: map_map split: if_splits)
next
  case False
  then have "distinct (map fst (take i (wh_subscriptions s) @ (ws_id sub, sub) # drop i (wh_subscriptions s)))"
    using assms distinct_insert_at [of "map fst (wh_subscriptions s)" "ws_id sub" i]
    by (simp add: wh_ok_def take_map drop_map)
  with False assms show ?thesis
    by (auto simp: wh_ok_def subscribe_def dest: in_set_takeD in_set_dropD)
qed

lemma trigger_one_subs [simp]: "wh_subscriptions (trigger_one E G e p sub s) = wh_subscriptions s"
  by (simp add: trigger_one_def split: sum.split)

lemma trigger_subs [simp]: "wh_subscriptions (trigger E G e p s) = wh_subscriptions s"
proof -
  have "wh_subscriptions (fold (trigger_one E G e p) subs s) = wh_subscriptions s" for subs
    by (induction subs arbitrary: s) simp_all
  then show ?thesis by (simp add: trigger_def)
qed

lemma wh_step_ok: "wh_step E G s s' \<Longrightarrow> wh_ok s \<Longrightarrow> wh_ok s'"
proof (induction rule: wh_step.induct)
  case (wh_subscribe i sid secret request s r s')
  then show ?case
    by (auto simp: subscribe_handler_def act_run Let_def WebhookSubscription_new_def intro!: subscribe_ok)
next
  case (wh_unsubscribe sid s r' s')
  then show ?case
    by (auto simp: unsubscribe_handler_def unsubscribe_def wh_ok_def distinct_map_filter)
next
  case (wh_push s event_type payload sub)
  then show ?case by (simp add: wh_ok_def)
qed

lemma wh_run_ok: "(wh_step E G)\<^sup>*\<^sup>* s s' \<Longrightarrow> wh_ok s \<Longrightarrow> wh_ok s'"
  by (induction rule: rtranclp_induct) (auto dest: wh_step_ok)

text \<open>What the third-party parts promise: HMAC takes keys of every length and the two payloads serialise.\<close>

definition signer_ok :: "signer \<Rightarrow> bool" where
  "signer_ok G \<longleftrightarrow> (\<forall>p. sg_to_vec G p \<noteq> None) \<and> (\<forall>k. \<exists>m. sg_hmac_key G k = Inr m)"

lemma delivery_created:
  assumes "signer_ok G"
  shows "\<exists>d. WebhookDelivery_new E G sub e p = Inr d \<and> wd_subscription_id d = ws_id sub"
proof -
  obtain bs where "sg_to_vec G p = Some bs" using assms unfolding signer_ok_def by blast
  moreover obtain m where "sg_hmac_key G (as_bytes (ws_secret sub)) = Inr m" using assms unfolding signer_ok_def by blast
  ultimately show ?thesis by (simp add: WebhookDelivery_new_def compute_signature_def)
qed

lemma trigger_all_log:
  assumes "signer_ok G"
  shows "wh_delivery_log (fold (trigger_one E G e p) subs s) = wh_delivery_log s @
     map (\<lambda>sub. (ws_id sub, if ws_id sub = [] then PermanentFailure ''invalid subscription id'' else Success))
       (filter (\<lambda>sub. e \<in> set (ws_events sub)) subs)"
proof (induction subs arbitrary: s)
  case (Cons sub subs)
  obtain d where "WebhookDelivery_new E G sub e p = Inr d" "wd_subscription_id d = ws_id sub"
    using delivery_created [OF assms] by blast
  then have "trigger_one E G e p sub s = (if e \<in> set (ws_events sub) then s\<lparr>wh_delivery_log := wh_delivery_log s @
      [(ws_id sub, if ws_id sub = [] then PermanentFailure ''invalid subscription id'' else Success)]\<rparr> else s)"
    by (simp add: trigger_one_def deliver_def)
  then show ?case by (simp add: Cons.IH)
qed simp

lemma trigger_one_log:
  assumes "signer_ok G"
  shows "wh_delivery_log (trigger_one E G e p sub s) = wh_delivery_log s @
     (if e \<in> set (ws_events sub) then [(ws_id sub, if ws_id sub = [] then PermanentFailure ''invalid subscription id'' else Success)] else [])"
  using trigger_all_log [OF assms, of E e p "[sub]" s] by simp

lemma wh_step_log: "wh_step E G s s' \<Longrightarrow> \<exists>ys. wh_delivery_log s' = wh_delivery_log s @ ys"
proof (induction rule: wh_step.induct)
  case (wh_push s event_type payload sub)
  then show ?case by (simp add: trigger_one_def split: sum.split)
qed (auto simp: subscribe_handler_def act_run Let_def subscribe_def unsubscribe_handler_def unsubscribe_def split: prod.splits)

lemma trigger_run_log:
  assumes "signer_ok G" "trigger_run E G e p subs ds s s'"
  shows "ds = map (\<lambda>sub. (ws_id sub, if ws_id sub = [] then PermanentFailure ''invalid subscription id'' else Success))
            (filter (\<lambda>sub. e \<in> set (ws_events sub)) subs)
       \<and> (\<exists>ys. wh_delivery_log s' = wh_delivery_log s @ ys \<and> subseq ds ys)"
  using assms(2)
proof (induction rule: trigger_run.induct)
  case (run_other s s1 subs ds s')
  obtain xs where "wh_delivery_log s1 = wh_delivery_log s @ xs" using wh_step_log [OF run_other(1)] by blast
  moreover obtain ys where "wh_delivery_log s' = wh_delivery_log s1 @ ys" "subseq ds ys" using run_other.IH by blast
  ultimately show ?case
    using run_other.IH by (auto intro!: exI [of _ "xs @ ys"] list_emb_append2)
next
  case (run_push s1 sub s d subs ds s')
  then show ?case
    using trigger_one_log [OF assms(1), of E e p sub s] by (auto intro: list_emb_append_mono)
qed simp

lemma trigger_is_run:
  assumes "signer_ok G"
  shows "trigger_run E G e p subs (drop (length (wh_delivery_log s)) (wh_delivery_log (fold (trigger_one E G e p) subs s))) s
     (fold (trigger_one E G e p) subs s)"
proof (induction subs arbitrary: s)
  case (Cons sub subs)
  let ?s1 = "trigger_one E G e p sub s"
  obtain d where d: "wh_delivery_log ?s1 = wh_delivery_log s @ d" using trigger_one_log [OF assms] by blast
  have "drop (length (wh_delivery_log s)) (wh_delivery_log (fold (trigger_one E G e p) (sub # subs) s)) =
      d @ drop (length (wh_delivery_log ?s1)) (wh_delivery_log (fold (trigger_one E G e p) subs ?s1))"
    by (simp add: d trigger_all_log [OF assms])
  then show ?case using run_push [OF refl d Cons.IH] by simp
qed (simp add: run_done)

lemma active_subscriptions:
  assumes "wh_ok s"
  shows "list_active s = map snd (wh_subscriptions s)" "map ws_id (list_active s) = map fst (wh_subscriptions s)"
    "sub \<in> set (list_active s) \<longleftrightarrow> map_of (wh_subscriptions s) (ws_id sub) = Some sub"
proof -
  show active: "list_active s = map snd (wh_subscriptions s)"
    using assms by (auto simp: list_active_def wh_ok_def filter_id_conv)
  show "map ws_id (list_active s) = map fst (wh_subscriptions s)" using assms by (auto simp: active wh_ok_def)
  show "sub \<in> set (list_active s) \<longleftrightarrow> map_of (wh_subscriptions s) (ws_id sub) = Some sub"
    using assms by (force simp: active wh_ok_def)
qed

text \<open>
  C32. Every event is recorded once for every subscriber. In every state the service can reach, a call of \<open>trigger\<close> pushes onto the delivery
  log, in order, exactly one entry for each subscription that was there and listed the event when the call began, and none for the
  others, with the result success when the id is not empty; whatever subscriptions, removals and other events come between two of its
  entries, the entries of the log before it and its own are kept. The call can always be completed. Nothing is sent: \<open>deliver\<close>
  is a simulation, and an entry says that it was called.
\<close>

theorem trigger_records_once:
  assumes "signer_ok G" "(wh_step E G)\<^sup>*\<^sup>* WebhookState_new s"
  shows "(\<forall>ds s'. trigger_run E G e p (list_active s) ds s s' \<longrightarrow>
            distinct (map fst ds)
          \<and> fst ` set ds = {sid. \<exists>sub. map_of (wh_subscriptions s) sid = Some sub \<and> e \<in> set (ws_events sub)}
          \<and> (\<forall>(sid, result)\<in>set ds. sid \<noteq> [] \<longrightarrow> result = Success)
          \<and> (\<exists>ys. wh_delivery_log s' = wh_delivery_log s @ ys \<and> subseq ds ys))
       \<and> (\<exists>ds. trigger_run E G e p (list_active s) ds s (trigger E G e p s))"
proof -
  have ok: "wh_ok s" by (rule wh_run_ok [OF assms(2)]) (simp add: wh_ok_def WebhookState_new_def)
  note active = active_subscriptions [OF ok]
  let ?subs = "filter (\<lambda>sub. e \<in> set (ws_events sub)) (list_active s)"
  let ?ds = "map (\<lambda>sub. (ws_id sub, if ws_id sub = [] then PermanentFailure ''invalid subscription id'' else Success)) ?subs"
  have "distinct (map ws_id ?subs)"
    using ok distinct_map_filter [of ws_id "list_active s"] by (simp add: active(2) wh_ok_def)
  then have "distinct (map fst ?ds)" by (simp add: comp_def)
  moreover have "fst ` set ?ds = {sid. \<exists>sub. map_of (wh_subscriptions s) sid = Some sub \<and> e \<in> set (ws_events sub)}"
  proof -
    have "ws_id sub = sid" if "map_of (wh_subscriptions s) sid = Some sub" for sid sub
      using ok map_of_SomeD [OF that] by (auto simp: wh_ok_def)
    then have "(\<exists>sub. map_of (wh_subscriptions s) sid = Some sub \<and> e \<in> set (ws_events sub)) \<longleftrightarrow> sid \<in> ws_id ` set ?subs" for sid
      unfolding set_filter image_iff Bex_def mem_Collect_eq active(3) by metis
    moreover have "fst ` set ?ds = ws_id ` set ?subs" by (simp add: image_image)
    ultimately show ?thesis by (simp only: Collect_mem_eq)
  qed
  moreover have "\<forall>(sid, result)\<in>set ?ds. sid \<noteq> [] \<longrightarrow> result = Success" by auto
  ultimately have all: "distinct (map fst ds)
      \<and> fst ` set ds = {sid. \<exists>sub. map_of (wh_subscriptions s) sid = Some sub \<and> e \<in> set (ws_events sub)}
      \<and> (\<forall>(sid, result)\<in>set ds. sid \<noteq> [] \<longrightarrow> result = Success)
      \<and> (\<exists>ys. wh_delivery_log s' = wh_delivery_log s @ ys \<and> subseq ds ys)" if "trigger_run E G e p (list_active s) ds s s'" for ds s'
    using trigger_run_log [OF assms(1) that] by (elim conjE) (simp only: simp_thms)
  have "\<exists>ds. trigger_run E G e p (list_active s) ds s (trigger E G e p s)"
    using trigger_is_run [OF assms(1), of E e p "list_active s" s] unfolding trigger_def by blast
  with all show ?thesis by blast
qed

text \<open>
  Unsubscribing ends the deliveries: after a subscription is removed no event logs a delivery for its id,
  and removing an unknown one answers not found and changes nothing.
\<close>

theorem unsubscribed_gets_nothing:
  assumes "signer_ok G" "wh_ok s" "unsubscribe_handler sid s = (code, s')"
  shows "(code = HTTP_NO_CONTENT \<longleftrightarrow> sid \<in> fst ` set (wh_subscriptions s))
       \<and> (code \<noteq> HTTP_NO_CONTENT \<longrightarrow> code = NOT_FOUND \<and> s' = s)
       \<and> (\<forall>e p. \<exists>ds. wh_delivery_log (trigger E G e p s') = wh_delivery_log s @ ds \<and> sid \<notin> fst ` set ds)"
proof -
  have s': "wh_subscriptions s' = filter (\<lambda>(k, _). k \<noteq> sid) (wh_subscriptions s)" "wh_delivery_log s' = wh_delivery_log s"
    and code: "code = (if map_of (wh_subscriptions s) sid \<noteq> None then HTTP_NO_CONTENT else NOT_FOUND)"
    using assms(3) by (auto simp: unsubscribe_handler_def unsubscribe_def)
  have "s' = s" if "sid \<notin> fst ` set (wh_subscriptions s)"
  proof -
    have "filter (\<lambda>(k, _). k \<noteq> sid) (wh_subscriptions s) = wh_subscriptions s"
      using that by (auto simp: filter_id_conv image_iff)
    then show ?thesis using assms(3) by (auto simp: unsubscribe_handler_def unsubscribe_def)
  qed
  moreover have "sid \<noteq> ws_id sub" if "sub \<in> set (list_active s')" for sub
    using that s' assms(2) unfolding list_active_def wh_ok_def by auto
  then have other: "\<forall>sub\<in>set (list_active s'). sid \<noteq> ws_id sub" by blast
  have "\<exists>ds. wh_delivery_log (trigger E G e p s') = wh_delivery_log s @ ds \<and> sid \<notin> fst ` set ds" for e p
    using other by (auto simp: trigger_def trigger_all_log [OF assms(1)] s'(2))
  ultimately show ?thesis
    using code by (auto simp: map_of_eq_None_iff)
qed

section \<open>Witnesses\<close>

definition demo_signer :: signer where
  "demo_signer = \<lparr>sg_to_vec = (\<lambda>_. Some []), sg_hmac_key = (\<lambda>k. Inr k), sg_hmac = (\<lambda>k m. k @ m)\<rparr>"

lemma demo_signer_ok: "signer_ok demo_signer"
  by (simp add: signer_ok_def demo_signer_def)

definition demo_hooks :: WebhookState where
  "demo_hooks = snd (subscribe_handler 0 ''a'' ''s'' \<lparr>sr_url = ''u'', sr_events = [EventBlock], sr_secret = None\<rparr> WebhookState_new)"

lemma demo_hooks_subs:
  "wh_subscriptions demo_hooks = [(''a'', WebhookSubscription_new ''a'' ''u'' [EventBlock] ''s'')]" "wh_delivery_log demo_hooks = []"
  by (simp_all add: demo_hooks_def subscribe_handler_def act_run Let_def subscribe_def WebhookState_new_def
      WebhookSubscription_new_def)

text \<open>An event is in progress while its only subscriber is removed: the entry is pushed all the same.\<close>

theorem trigger_records_once_witness:
  "\<exists>ds s'. trigger_run demo_externs demo_signer EventBlock (PayloadHeight 1) (list_active demo_hooks) ds demo_hooks s'
     \<and> wh_subscriptions s' = [] \<and> fst ` set ds = {''a''} \<and> wh_delivery_log s' = [(''a'', Success)]"
proof -
  have reach: "(wh_step demo_externs demo_signer)\<^sup>*\<^sup>* WebhookState_new demo_hooks"
    unfolding demo_hooks_def by (rule r_into_rtranclp, rule wh_step.wh_subscribe) (rule prod.collapse [symmetric])
  let ?sub = "WebhookSubscription_new ''a'' ''u'' [EventBlock] ''s''" and ?s1 = "snd (unsubscribe_handler ''a'' demo_hooks)"
  let ?s2 = "trigger_one demo_externs demo_signer EventBlock (PayloadHeight 1) ?sub ?s1"
  have list: "list_active demo_hooks = [?sub]" by (simp add: list_active_def demo_hooks_subs) (simp add: WebhookSubscription_new_def)
  have s1: "wh_subscriptions ?s1 = []" "wh_delivery_log ?s1 = []" by (simp_all add: unsubscribe_handler_def unsubscribe_def demo_hooks_subs)
  have log: "wh_delivery_log ?s2 = wh_delivery_log ?s1 @ [(''a'', Success)]"
    by (simp add: trigger_one_log [OF demo_signer_ok]) (simp add: WebhookSubscription_new_def)
  have "trigger_run demo_externs demo_signer EventBlock (PayloadHeight 1) [?sub] ([(''a'', Success)] @ []) ?s1 ?s2"
    by (rule run_push [OF refl log run_done])
  then have run: "trigger_run demo_externs demo_signer EventBlock (PayloadHeight 1) (list_active demo_hooks) [(''a'', Success)] demo_hooks ?s2"
    using run_other [OF wh_unsubscribe [OF prod.collapse [symmetric]]] by (simp add: list)
  from trigger_records_once [OF demo_signer_ok reach, of EventBlock "PayloadHeight 1", THEN conjunct1, rule_format, OF run]
  show ?thesis using run s1 log by (intro exI [of _ "[(''a'', Success)]"] exI [of _ ?s2]) simp
qed

theorem unsubscribed_gets_nothing_witness:
  "fst (unsubscribe_handler ''a'' demo_hooks) = HTTP_NO_CONTENT"
  using unsubscribed_gets_nothing [OF demo_signer_ok _ prod.collapse [symmetric], of demo_hooks "''a''"]
  by (simp add: demo_hooks_subs wh_ok_def WebhookSubscription_new_def)

end
