(* ===== verification/Services.thy ===== *)
theory Services
  imports Node Faucet Explorer Webhooks
begin

text \<open>
  Model of src/node/pemrix-node/src/testnet.rs and services.rs: the RPC, explorer and webhook services kept up to
  date from finalized blocks, the block loop of the single-validator testnet, the network of the
  multi-validator one, and the standalone services that poll a validator. A block is ingested in one step, and what
  clients do to the RPC state between two blocks is an argument of the loop. HTTP answers, the clock and the environment are arguments.
\<close>

section \<open>Ingesting a block\<close>

record SharedServices =
  sv_rpc :: RpcState
  sv_explorer :: ExplorerState
  sv_webhooks :: WebhookState

definition testnet_replay :: "Transaction \<Rightarrow> RpcState \<Rightarrow> RpcState" where
  "testnet_replay tx s =
     (let sender = unwrap_account (rpc_get_account (tx_sender tx) s);
          tot = saturating_add (tx_amount tx) (tx_fee tx) in
      if acc_nonce sender \<noteq> tx_nonce tx then s
      else if acc_balance sender < tot then s
      else
        let s1 = rpc_set_account (tx_sender tx)
              (sender\<lparr>acc_balance := saturating_sub (acc_balance sender) tot, acc_nonce := saturating_add (acc_nonce sender) 1\<rparr>) s;
            recipient = unwrap_account (rpc_get_account (tx_recipient tx) s1)
        in rpc_set_account (tx_recipient tx)
             (recipient\<lparr>acc_balance := saturating_add (acc_balance recipient) (tx_amount tx)\<rparr>) s1)"

text \<open>After the replay: the block goes to the three services, then every transaction to the webhooks and the index.\<close>

definition publish_tx :: "externs \<Rightarrow> signer \<Rightarrow> Transaction \<Rightarrow> SharedServices \<Rightarrow> SharedServices" where
  "publish_tx E G tx sv =
     sv\<lparr>sv_webhooks := trigger E G EventTransaction (PayloadHash (Hash_to_string E (tx_hash E tx))) (sv_webhooks sv),
        sv_rpc := rpc_store_transaction (tx_hash E tx) tx (sv_rpc sv)\<rparr>"

definition publish_block :: "externs \<Rightarrow> signer \<Rightarrow> Block \<Rightarrow> SharedServices \<Rightarrow> SharedServices" where
  "publish_block E G block sv =
     fold (publish_tx E G) (bb_transactions (blk_body block))
       (sv\<lparr>sv_rpc := rpc_store_block E block (sv_rpc sv),
           sv_explorer := ex_ingest_block E block (sv_explorer sv),
           sv_webhooks := trigger E G EventBlock (PayloadHeight (bh_height (blk_header block))) (sv_webhooks sv)\<rparr>)"

definition testnet_ingest_block :: "externs \<Rightarrow> signer \<Rightarrow> Block \<Rightarrow> SharedServices \<Rightarrow> SharedServices" where
  "testnet_ingest_block E G block sv =
     publish_block E G block (sv\<lparr>sv_rpc := fold testnet_replay (bb_transactions (blk_body block)) (sv_rpc sv)\<rparr>)"

section \<open>The single-validator testnet\<close>

record Solo_Testnet =
  tt_consensus :: SoloConsensus
  tt_mempool :: SimpleMempool
  tt_services :: SharedServices

definition tt_drain :: "nat \<Rightarrow> (Solo_Testnet, NodeError, Transaction list) action" where
  "tt_drain n = (\<lambda>t. case mp_drain n (tt_mempool t) of (txs, m) \<Rightarrow> (Inr txs, t\<lparr>tt_mempool := m\<rparr>))"

definition testnet_pass :: "externs \<Rightarrow> signer \<Rightarrow> u64 \<Rightarrow> u64 \<Rightarrow> (Solo_Testnet, NodeError, unit) action" where
  "testnet_pass E G now height =
     act_bind (act_gets (\<lambda>t. rpc_pending_transactions (sv_rpc (tt_services t)))) (\<lambda>pending.
     act_bind (act_on tt_mempool (\<lambda>m t. t\<lparr>tt_mempool := m\<rparr>) (act_map_err (\<lambda>_. NodeConsensus) (add_all mp_add pending))) (\<lambda>_.
     act_bind (tt_drain 100) (\<lambda>txs.
     act_bind (act_on tt_consensus (\<lambda>c t. t\<lparr>tt_consensus := c\<rparr>)
       (act_map_err (\<lambda>_. NodeConsensus) (solo_propose E now height txs))) (\<lambda>block.
     act_modify (\<lambda>t. t\<lparr>tt_services := testnet_ingest_block E G block (tt_services t)\<rparr>)))))"

definition arrive :: "(RpcState \<Rightarrow> RpcState) \<Rightarrow> Solo_Testnet \<Rightarrow> Solo_Testnet" where
  "arrive f t = t\<lparr>tt_services := (tt_services t)\<lparr>sv_rpc := f (sv_rpc (tt_services t))\<rparr>\<rparr>"

text \<open>The loop over the heights; before each block the clients change the RPC state.\<close>

fun testnet_blocks ::
    "externs \<Rightarrow> signer \<Rightarrow> (u64 \<times> u64 \<times> (RpcState \<Rightarrow> RpcState)) list \<Rightarrow> (Solo_Testnet, NodeError, unit) action" where
  "testnet_blocks E G [] = act_return ()"
| "testnet_blocks E G ((height, now, clients) # rest) =
     act_bind (act_modify (arrive clients)) (\<lambda>_.
     act_bind (testnet_pass E G now height) (\<lambda>_. testnet_blocks E G rest))"

definition testnet_genesis :: "u64 \<Rightarrow> TestnetConfig \<Rightarrow> GenesisConfig" where
  "testnet_genesis now testnet =
     \<lparr>gc_chain_id = tn_chain_id testnet, gc_timestamp = genesis_timestamp now testnet,
      gc_allocations = combined_allocations testnet, gc_validators = tn_validators testnet\<rparr>"

definition solo_testnet_config :: "string \<Rightarrow> TestnetConfig \<Rightarrow> 'addr NodeConfig" where
  "solo_testnet_config dir testnet =
     \<lparr>nc_data_dir = dir, nc_rpc_listen = tn_rpc_listen testnet, nc_p2p_listen = p2p_default, nc_validator = True,
      nc_bootstrap_nodes = om_empty, nc_validator_set = None, nc_local_validator_address = None\<rparr>"

definition seed_explorer :: "(address, Account) omap \<Rightarrow> ExplorerState \<Rightarrow> ExplorerState" where
  "seed_explorer allocations s = fold (\<lambda>(a, x). ex_ingest_account a x) (om_entries allocations) s"

definition seed_services :: "externs \<Rightarrow> GenesisConfig \<Rightarrow> Block \<Rightarrow> SharedServices" where
  "seed_services E genesis block =
     \<lparr>sv_rpc = seed_rpc (gc_allocations genesis) (rpc_store_block E block RpcState_new),
      sv_explorer = seed_explorer (gc_allocations genesis) (ex_ingest_block E block ExplorerState_new),
      sv_webhooks = WebhookState_new\<rparr>"

text \<open>The state part of \<open>spawn_shared_services\<close>: the faucet account is set and the faucet built on the RPC state.\<close>

definition shared_faucet :: "string \<Rightarrow> string \<Rightarrow> externs \<Rightarrow> address \<Rightarrow> KeyPair \<Rightarrow> 's \<Rightarrow> 's FaucetState" where
  "shared_faucet listen url E faucet_address keypair backend =
     FaucetService_new
       \<lparr>fc_listen = listen, fc_faucet_address = Address_to_string E faucet_address, fc_max_amount = 10000,
        fc_cooldown_seconds = 0, fc_rpc_url = url\<rparr> keypair faucet_address backend"

definition spawn_shared_services :: "externs \<Rightarrow> TestnetConfig \<Rightarrow> RpcState \<Rightarrow> NodeError + RpcState FaucetState" where
  "spawn_shared_services E testnet s =
     (let faucet_address = (case tn_faucet_address testnet of None \<Rightarrow> zero32 | Some a \<Rightarrow> a);
          faucet_account = unwrap_account (tn_faucet_account testnet);
          s1 = rpc_set_account faucet_address faucet_account s in
      bind_result (map_err (\<lambda>_. Config ''failed to generate faucet keypair'') (tn_faucet_keypair E testnet)) (\<lambda>keypair.
      Inr (shared_faucet (tn_faucet_listen testnet) (tn_rpc_internal_url testnet) E faucet_address keypair s1)))"

definition solo_testnet_start :: "externs \<Rightarrow> TestnetConfig \<Rightarrow> GenesisConfig \<Rightarrow> NodeError + Solo_Testnet" where
  "solo_testnet_start E testnet genesis =
     bind_result (genesis_block E genesis) (\<lambda>block.
     let services = seed_services E genesis block in
     bind_result (spawn_shared_services E testnet (sv_rpc services)) (\<lambda>faucet.
     let consensus = Solo_new_with_previous_hash (first_validator genesis) (block_hash E block) in
     case seed_accounts (im_backend E) (om_entries (gc_allocations genesis)) (so_state consensus) of
       (Inl e, _) \<Rightarrow> Inl e
     | (Inr _, state) \<Rightarrow>
         Inr \<lparr>tt_consensus = consensus\<lparr>so_state := state\<rparr>, tt_mempool = SimpleMempool_new,
              tt_services = services\<lparr>sv_rpc := fs_backend faucet\<rparr>\<rparr>))"

definition testnet_heights :: "u64 list" where
  "testnet_heights = map of_nat [1..<100001]"

definition run_solo_testnet ::
    "externs \<Rightarrow> 'addr files \<Rightarrow> signer \<Rightarrow> string option \<Rightarrow> string \<Rightarrow> u64 \<Rightarrow> (u64 \<Rightarrow> u64) \<Rightarrow> (u64 \<Rightarrow> RpcState \<Rightarrow> RpcState)
       \<Rightarrow> (disk, NodeError, panic + Solo_Testnet) action" where
  "run_solo_testnet E F G env dir now clock clients =
     (case testnet_local E env of
        Inl p \<Rightarrow> act_return (Inl p)
      | Inr testnet \<Rightarrow>
          let genesis = testnet_genesis now testnet in
          act_bind (config_save F (solo_testnet_config dir testnet)) (\<lambda>_.
          act_bind (genesis_save F dir genesis) (\<lambda>_.
          act_bind (act_lift (solo_testnet_start E testnet genesis)) (\<lambda>t.
          act_lift (case testnet_blocks E G (map (\<lambda>h. (h, clock h, clients h)) testnet_heights) t of
                      (Inl e, _) \<Rightarrow> Inl e
                    | (Inr _, t') \<Rightarrow> Inr (Inr t'))))))"

section \<open>The multi-validator testnet\<close>

definition testnet_validator_address :: "externs \<Rightarrow> nat \<Rightarrow> address" where
  "testnet_validator_address E i =
     from_public_key_hash (hash_bytes E (string_bytes (''validator-'' @ nat_to_string i)))"

definition bft_testnet_genesis :: "externs \<Rightarrow> u64 \<Rightarrow> TestnetConfig \<Rightarrow> nat \<Rightarrow> GenesisConfig" where
  "bft_testnet_genesis E now testnet n =
     (let addresses = map (testnet_validator_address E) [0..<n] in
      (testnet_genesis now testnet)\<lparr>gc_allocations :=
           fold (\<lambda>a. om_insert a (Account_new 1000000 0)) addresses (combined_allocations testnet),
         gc_validators := addresses\<rparr>)"

definition testnet_p2p_port :: "nat \<Rightarrow> u16" where
  "testnet_p2p_port i = P2P_BASE + of_nat i"

fun testnet_sockets :: "externs \<Rightarrow> 'addr files \<Rightarrow> nat list \<Rightarrow> panic + (address \<times> 'addr) list" where
  "testnet_sockets E F [] = Inr []"
| "testnet_sockets E F (i # is) =
     (case parse_socket F (host_port ''127.0.0.1'' (testnet_p2p_port i)) of
        None \<Rightarrow> Inl UnwrapFailed
      | Some addr \<Rightarrow> map_sum id (\<lambda>rest. (testnet_validator_address E i, addr) # rest) (testnet_sockets E F is))"

text \<open>Indexing the map of the addresses panics for a missing key, which cannot happen: every validator is in it.\<close>

definition bft_testnet_peers :: "externs \<Rightarrow> (address, 'addr) omap \<Rightarrow> nat \<Rightarrow> (PeerId, 'addr) omap" where
  "bft_testnet_peers E addrs i =
     (if i > 0 then
        let prev = testnet_validator_address E (i - 1) in
        (case om_get addrs prev of Some addr \<Rightarrow> om_insert (peer_id_of E prev) addr om_empty | None \<Rightarrow> om_empty)
      else om_empty)"

definition bft_testnet_config ::
    "externs \<Rightarrow> string \<Rightarrow> TestnetConfig \<Rightarrow> nat \<Rightarrow> (address, 'addr) omap \<Rightarrow> nat \<Rightarrow> 'addr NodeConfig" where
  "bft_testnet_config E dir testnet n addrs i =
     \<lparr>nc_data_dir = dir @ ''/validator-'' @ nat_to_string i, nc_rpc_listen = tn_rpc_listen testnet,
      nc_p2p_listen = host_port ''127.0.0.1'' (testnet_p2p_port i), nc_validator = True,
      nc_bootstrap_nodes = bft_testnet_peers E addrs i,
      nc_validator_set = Some (unit_validator_set (map (testnet_validator_address E) [0..<n])),
      nc_local_validator_address = Some (testnet_validator_address E i)\<rparr>"

fun save_each :: "'addr files \<Rightarrow> 'addr NodeConfig list \<Rightarrow> (disk, NodeError, unit) action" where
  "save_each F [] = act_return ()"
| "save_each F (c # cs) = act_bind (config_save F c) (\<lambda>_. save_each F cs)"

text \<open>The result is the state of the shared services and the configurations the validators are spawned with.\<close>

definition run_bft_testnet ::
    "externs \<Rightarrow> 'addr files \<Rightarrow> string option \<Rightarrow> string \<Rightarrow> u64 \<Rightarrow> nat
       \<Rightarrow> (disk, NodeError, panic + SharedServices \<times> 'addr NodeConfig list) action" where
  "run_bft_testnet E F env dir now n =
     (case testnet_local E env of
        Inl p \<Rightarrow> act_return (Inl p)
      | Inr testnet \<Rightarrow>
          let genesis = bft_testnet_genesis E now testnet n in
          act_bind (genesis_save F dir genesis) (\<lambda>_.
          act_bind (act_lift (genesis_block E genesis)) (\<lambda>block.
          let services = seed_services E genesis block in
          act_bind (act_lift (spawn_shared_services E testnet (sv_rpc services))) (\<lambda>faucet.
          case testnet_sockets E F [0..<n] of
            Inl p \<Rightarrow> act_return (Inl p)
          | Inr sockets \<Rightarrow>
              let addrs = fold (\<lambda>(a, addr). om_insert a addr) sockets om_empty;
                  configs = map (bft_testnet_config E dir testnet n addrs) [0..<n] in
              act_bind (save_each F configs) (\<lambda>_.
              act_return (Inr (services\<lparr>sv_rpc := fs_backend faucet\<rparr>, configs)))))))"

text \<open>The collector: finalized blocks of every validator, in the order they arrive on the channel.\<close>

definition collect_finalized :: "externs \<Rightarrow> signer \<Rightarrow> Block list \<Rightarrow> SharedServices \<Rightarrow> SharedServices" where
  "collect_finalized E G blocks sv = fold (testnet_ingest_block E G) blocks sv"

datatype testnet_mode = SoloTestnet | BftTestnet nat

definition run_testnet :: "string \<Rightarrow> nat \<Rightarrow> (disk, NodeError, testnet_mode) action" where
  "run_testnet dir count =
     (if count = 0 then act_throw (Config ''validator_count must be at least 1'')
      else
        act_bind (create_dir_all dir) (\<lambda>_.
        act_return (if count = 1 then SoloTestnet else BftTestnet count)))"

section \<open>Standalone services\<close>

definition replay_staking :: "address \<Rightarrow> StakingOperation \<Rightarrow> RpcState \<Rightarrow> RpcState" where
  "replay_staking sender x s =
     (let account = unwrap_account (rpc_get_account sender s) in
      case x of
        RegisterValidator consensus_pubkey commission_bps stake \<Rightarrow>
          rpc_set_validator sender (ValidatorRecord_new sender consensus_pubkey stake commission_bps)
            (rpc_set_account sender (account\<lparr>acc_balance := saturating_sub (acc_balance account) stake\<rparr>) s)
      | Delegate validator amount \<Rightarrow>
          let s1 = rpc_set_account sender (account\<lparr>acc_balance := saturating_sub (acc_balance account) amount\<rparr>) s;
              s2 = (case rpc_get_validator validator s1 of
                      None \<Rightarrow> s1
                    | Some r \<Rightarrow> rpc_set_validator validator
                        (r\<lparr>vr_delegated_stake := saturating_add (vr_delegated_stake r) amount\<rparr>) s1);
              dlg = (case rpc_get_delegation sender validator s2 of None \<Rightarrow> default_delegation | Some d \<Rightarrow> d)
          in rpc_set_delegation sender validator (dlg\<lparr>dlg_amount := saturating_add (dlg_amount dlg) amount\<rparr>) s2
      | Undelegate validator amount \<Rightarrow>
          let s1 = (case rpc_get_validator validator s of
                      None \<Rightarrow> s
                    | Some r \<Rightarrow> rpc_set_validator validator
                        (r\<lparr>vr_delegated_stake := saturating_sub (vr_delegated_stake r) amount\<rparr>) s);
              s2 = (case rpc_get_delegation sender validator s1 of
                      None \<Rightarrow> s1
                    | Some d \<Rightarrow>
                        let d' = d\<lparr>dlg_amount := saturating_sub (dlg_amount d) amount\<rparr> in
                        if dlg_amount d' = 0 then rpc_delete_delegation sender validator s1
                        else rpc_set_delegation sender validator d' s1);
              account' = unwrap_account (rpc_get_account sender s2)
          in rpc_set_account sender (account'\<lparr>acc_balance := saturating_add (acc_balance account') amount\<rparr>) s2)"

definition services_replay :: "externs \<Rightarrow> Transaction \<Rightarrow> RpcState \<Rightarrow> RpcState" where
  "services_replay E tx s =
     (let sender = unwrap_account (rpc_get_account (tx_sender tx) s);
          tot = saturating_add (tx_amount tx) (tx_fee tx) in
      if acc_nonce sender \<noteq> tx_nonce tx then s
      else if acc_balance sender < tot then s
      else
        let sender = sender\<lparr>acc_balance := saturating_sub (acc_balance sender) tot, acc_nonce := saturating_add (acc_nonce sender) 1\<rparr>;
            s1 = (case staking_decode E (tx_payload tx) of
                    Inr x \<Rightarrow> replay_staking (tx_sender tx) x s
                  | Inl _ \<Rightarrow> s);
            s2 = rpc_set_account (tx_sender tx) sender s1;
            recipient = unwrap_account (rpc_get_account (tx_recipient tx) s2)
        in rpc_set_account (tx_recipient tx)
             (recipient\<lparr>acc_balance := saturating_add (acc_balance recipient) (tx_amount tx)\<rparr>) s2)"

definition services_ingest_block :: "externs \<Rightarrow> signer \<Rightarrow> Block \<Rightarrow> SharedServices \<Rightarrow> SharedServices" where
  "services_ingest_block E G block sv =
     publish_block E G block (sv\<lparr>sv_rpc := fold (services_replay E) (bb_transactions (blk_body block)) (sv_rpc sv)\<rparr>)"

text \<open>An answer of the validator: the request failed, the body did not parse, or a body. A status body has a height or none.\<close>

datatype 'a http_reply = SendError | ParseError | Body 'a

record Poller =
  po_last_height :: u64
  po_services :: SharedServices

definition polled_height :: "u64 option http_reply \<Rightarrow> u64 \<Rightarrow> u64" where
  "polled_height status last_height =
     (case status of Body (Some h) \<Rightarrow> h | _ \<Rightarrow> last_height)"

definition heights_between :: "u64 \<Rightarrow> u64 \<Rightarrow> u64 list" where
  "heights_between lo hi = map of_nat [unat lo + 1..<unat hi + 1]"

definition poll_block :: "externs \<Rightarrow> signer \<Rightarrow> (u64 \<Rightarrow> Block http_reply) \<Rightarrow> u64 \<Rightarrow> SharedServices \<Rightarrow> SharedServices" where
  "poll_block E G fetch height sv =
     (case fetch height of Body block \<Rightarrow> services_ingest_block E G block sv | _ \<Rightarrow> sv)"

definition poll_pass ::
    "externs \<Rightarrow> signer \<Rightarrow> u64 option http_reply \<Rightarrow> (u64 \<Rightarrow> Block http_reply) \<Rightarrow> Poller \<Rightarrow> Poller" where
  "poll_pass E G status fetch p =
     (let current_height = polled_height status (po_last_height p) in
      if current_height \<le> po_last_height p then p
      else \<lparr>po_last_height = current_height,
            po_services = fold (poll_block E G fetch) (heights_between (po_last_height p) current_height) (po_services p)\<rparr>)"

text \<open>Start-up of the standalone services: the genesis file is used when it loads.\<close>

definition run_services ::
    "externs \<Rightarrow> 'addr files \<Rightarrow> string option \<Rightarrow> string option \<Rightarrow> string \<Rightarrow> disk \<Rightarrow> NodeError + RpcState FaucetState \<times> Poller" where
  "run_services E F bind_env data_env rpc_url d =
     (let host = bind_host bind_env;
          data_dir = (case data_env of None \<Rightarrow> ''/var/lib/pemrix'' | Some p \<Rightarrow> p);
          s = (case genesis_load F data_dir d of Inl _ \<Rightarrow> RpcState_new | Inr g \<Rightarrow> seed_rpc (gc_allocations g) RpcState_new) in
      bind_result (map_err (\<lambda>_. Config ''failed to generate faucet keypair'') (keypair_from_seed E LOCAL_FAUCET_SEED)) (\<lambda>keypair.
      let faucet_address = from_public_key_hash (hash_bytes E (kp_public keypair));
          s1 = rpc_set_account faucet_address (Account_new 1000000000 0) s in
      Inr (shared_faucet (host_port host FAUCET_PORT) rpc_url E faucet_address keypair s1,
           \<lparr>po_last_height = 0, po_services = \<lparr>sv_rpc = s1, sv_explorer = ExplorerState_new, sv_webhooks = WebhookState_new\<rparr>\<rparr>)))"


section \<open>Balances in the RPC state\<close>

definition mirrors :: "RpcState \<Rightarrow> ledger \<Rightarrow> bool" where
  "mirrors s L \<longleftrightarrow> (\<forall>a. unwrap_account (rpc_get_account a s) = lg_account L a)"

text \<open>A transfer that the ledger charges a fee for, but that cannot pay its amount on top of the fee.\<close>

definition fee_only :: "Transaction \<Rightarrow> ledger \<Rightarrow> bool" where
  "fee_only tx L \<longleftrightarrow> acc_nonce (lg_account L (tx_sender tx)) = tx_nonce tx \<and> unat (tx_fee tx) \<le> bal L (tx_sender tx)
     \<and> bal L (tx_sender tx) < unat (tx_amount tx) + unat (tx_fee tx)"

fun transfers_pay :: "externs \<Rightarrow> Transaction list \<Rightarrow> ledger \<Rightarrow> bool" where
  "transfers_pay E [] L = True"
| "transfers_pay E (tx # txs) L \<longleftrightarrow>
     tx_payload tx = [] \<and> \<not> fee_only tx L \<and> transfers_pay E txs (snd (spec_execute E tx L))"

lemma rpc_account_upd [simp]: "rpc_get_account a (rpc_set_account b x s) = (if a = b then Some x else rpc_get_account a s)"
  by (simp add: rpc_get_account_def rpc_set_account_def)

lemma unwrap_Some [simp]: "unwrap_account (Some x) = x"
  by (simp add: unwrap_account_def)

lemma services_replay_transfer: "tx_payload tx = [] \<Longrightarrow> services_replay E tx s = testnet_replay tx s"
  by (simp add: services_replay_def testnet_replay_def staking_decode_def Let_def)

lemma saturating_exact:
  "unat a + unat b < 2 ^ LENGTH('a) \<Longrightarrow> saturating_add a b = a + b" "b \<le> a \<Longrightarrow> saturating_sub a b = a - b"
  for a b :: "'a::len word"
  by (auto simp: saturating_add_def saturating_sub_def)

lemma transfer_room:
  assumes "ledger_ok L" "unat (tx_amount tx) + unat (tx_fee tx) \<le> unat (acc_balance (lg_account L (tx_sender tx)))"
  shows "bal (debit (tx_sender tx) (tx_amount tx) (charge tx L)) a + unat (tx_amount tx) < 2 ^ 128"
proof -
  let ?L = "debit (tx_sender tx) (tx_amount tx) (charge tx L)"
  have "tx_fee tx \<le> acc_balance (lg_account L (tx_sender tx))" using assms(2) by (simp add: word_le_nat_alt)
  note fee = this total_charge [OF this]
  have "tx_amount tx \<le> acc_balance (lg_account (charge tx L) (tx_sender tx))"
    using assms(2) fee(1) by (simp add: word_le_nat_alt unat_sub_exact)
  from total_debit [OF this] fee(2) wealth_bounds(1) [OF assms(1)]
  have "(\<Sum>b\<in>UNIV. bal ?L b) + unat (tx_amount tx) < 2 ^ 128" by linarith
  then show ?thesis using member_le_sum_UNIV [of "bal ?L" a] by linarith
qed

lemma transfer_result:
  assumes "spec_execute E tx L = (r, L')" "verify_signature E tx = Inr ()" "tx_payload tx = []"
    and "acc_nonce (lg_account L (tx_sender tx)) = tx_nonce tx"
    and pays: "unat (tx_amount tx) + unat (tx_fee tx) \<le> unat (acc_balance (lg_account L (tx_sender tx)))"
    and "bal (debit (tx_sender tx) (tx_amount tx) (charge tx L)) (tx_recipient tx) + unat (tx_amount tx) < 2 ^ 128"
  shows "lg_account L' = lg_account (credit (tx_recipient tx) (tx_amount tx) (debit (tx_sender tx) (tx_amount tx) (charge tx L)))"
proof -
  have "\<not> acc_balance (lg_account L (tx_sender tx)) < tx_fee tx" using pays by (simp add: word_less_nat_alt)
  then have r: "spec_transfer tx (charge tx L) = (r, L')" using assms(1-4) by (simp add: spec_execute_def)
  have "\<not> acc_balance (lg_account (charge tx L) (tx_sender tx)) < tx_amount tx"
    using pays by (simp add: word_less_nat_alt unat_sub_exact word_le_nat_alt)
  then show ?thesis
    using r assms(6) by (auto simp: spec_transfer_def bal_def Let_def fun_eq_iff split: if_splits)
qed

lemma replay_paid:
  assumes "unwrap_account (rpc_get_account (tx_sender tx) s) = x" "acc_nonce x = tx_nonce tx" "acc_nonce x \<noteq> - 1"
    and pays: "unat (tx_amount tx) + unat (tx_fee tx) \<le> unat (acc_balance x)"
  shows "testnet_replay tx s =
    (let s1 = rpc_set_account (tx_sender tx) (x\<lparr>acc_balance := acc_balance x - (tx_amount tx + tx_fee tx), acc_nonce := acc_nonce x + 1\<rparr>) s;
         y = unwrap_account (rpc_get_account (tx_recipient tx) s1)
     in rpc_set_account (tx_recipient tx) (y\<lparr>acc_balance := saturating_add (acc_balance y) (tx_amount tx)\<rparr>) s1)"
proof -
  have sum: "unat (tx_amount tx) + unat (tx_fee tx) < 2 ^ 128" using pays unat_less_bound [of "acc_balance x"] by simp
  then have tot: "saturating_add (tx_amount tx) (tx_fee tx) = tx_amount tx + tx_fee tx"
    by (intro saturating_exact(1)) simp
  have le: "tx_amount tx + tx_fee tx \<le> acc_balance x" using pays sum by (simp add: word_le_nat_alt unat_add_exact)
  have "unat (acc_nonce x) + 1 < 2 ^ 64"
    using assms(3) unat_less_bound [of "acc_nonce x"] unat_max_word [where 'a = 64] word_eq_by_unat [of "acc_nonce x" "- 1"] by fastforce
  then have "saturating_add (acc_nonce x) 1 = acc_nonce x + 1" by (intro saturating_exact(1)) simp
  then show ?thesis using assms(1,2) le by (simp add: testnet_replay_def tot saturating_exact(2) not_less Let_def)
qed

lemma unat_Suc_le: "unat (w + 1) \<le> unat w + 1" for w :: "'a::len word"
proof -
  have "unat (w + 1) \<le> unat w + unat (1 :: 'a word)" by (simp add: unat_word_ariths)
  moreover have "unat (1 :: 'a word) \<le> 1" by (cases "LENGTH('a) = 1") (simp_all add: unsigned_1)
  ultimately show ?thesis by linarith
qed

lemma replay_mirrors:
  assumes mir: "mirrors s L" and ok: "ledger_ok L" and sig: "verify_signature E tx = Inr ()"
    and pay: "tx_payload tx = []" "\<not> fee_only tx L"
    and nonce: "acc_nonce (lg_account L (tx_sender tx)) \<noteq> - 1" and run: "spec_execute E tx L = (r, L')"
  shows "mirrors (testnet_replay tx s) L'"
proof -
  let ?x = "lg_account L (tx_sender tx)"
  have x: "unwrap_account (rpc_get_account (tx_sender tx) s) = ?x" using mir by (simp add: mirrors_def)
  consider "acc_nonce ?x \<noteq> tx_nonce tx" | "acc_nonce ?x = tx_nonce tx" "acc_balance ?x < tx_fee tx"
    | "acc_nonce ?x = tx_nonce tx" "unat (tx_amount tx) + unat (tx_fee tx) \<le> unat (acc_balance ?x)"
    using pay(2) by (fastforce simp: fee_only_def bal_def word_less_nat_alt not_le)
  then show ?thesis
  proof cases
    case 1
    then have "L' = L" using run sig by (simp add: spec_execute_def)
    then show ?thesis using 1 x mir by (simp add: testnet_replay_def Let_def)
  next
    case 2
    then have "L' = L" using run sig by (simp add: spec_execute_def)
    moreover have "acc_balance ?x < saturating_add (tx_amount tx) (tx_fee tx)"
      using 2(2) unat_less_bound [of "acc_balance ?x"] unat_less_bound [of "tx_fee tx"]
      by (auto simp: word_less_nat_alt unat_saturating_add)
    ultimately show ?thesis using x mir by (simp add: testnet_replay_def Let_def)
  next
    case 3
    define L1 where "L1 = charge tx L"
    define L2 where "L2 = debit (tx_sender tx) (tx_amount tx) L1"
    define s1 where "s1 = rpc_set_account (tx_sender tx) (?x\<lparr>acc_balance := acc_balance ?x - (tx_amount tx + tx_fee tx),
        acc_nonce := acc_nonce ?x + 1\<rparr>) s"
    have bound: "bal L2 (tx_recipient tx) + unat (tx_amount tx) < 2 ^ 128"
      using transfer_room [OF ok 3(2)] by (simp add: L2_def L1_def)
    have "lg_account L' = lg_account (credit (tx_recipient tx) (tx_amount tx) L2)"
      using transfer_result [OF run sig pay(1) 3 bound [unfolded L2_def L1_def]] by (simp add: L2_def L1_def)
    moreover have "mirrors s1 L2"
      using mir by (simp add: mirrors_def s1_def L2_def L1_def algebra_simps)
    moreover have "testnet_replay tx s = rpc_set_account (tx_recipient tx)
        ((lg_account L2 (tx_recipient tx))\<lparr>acc_balance := acc_balance (lg_account L2 (tx_recipient tx)) + tx_amount tx\<rparr>) s1"
      using 3 x nonce bound \<open>mirrors s1 L2\<close> by (simp add: replay_paid mirrors_def bal_def saturating_exact s1_def Let_def)
    ultimately show ?thesis by (simp add: mirrors_def)
  qed
qed


lemma replay_all_mirrors:
  assumes "mirrors s L" "ledger_ok L" "spec_execute_all E txs L = (Inr (), L')" "transfers_pay E txs L"
    and "\<forall>a. unat (acc_nonce (lg_account L a)) + length txs < 2 ^ 64"
  shows "mirrors (fold testnet_replay txs s) L'"
  using assms
proof (induction txs arbitrary: s L)
  case Nil
  then show ?case by simp
next
  case (Cons tx txs)
  obtain r L1 where run: "spec_execute E tx L = (r, L1)" by fastforce
  with Cons.prems(3) obtain x where x: "r = Inr x" "spec_execute_all E txs L1 = (Inr (), L')" by (cases r) auto
  have sig: "verify_signature E tx = Inr ()" using run x(1) by (auto simp: spec_execute_def split: if_splits)
  have "unat (acc_nonce (lg_account L (tx_sender tx))) + length (tx # txs) < 2 ^ 64" using Cons.prems(5) by blast
  then have "acc_nonce (lg_account L (tx_sender tx)) \<noteq> - 1" using unat_max_word [where 'a = 64] by auto
  then have 1: "mirrors (testnet_replay tx s) L1"
    using replay_mirrors [OF Cons.prems(1,2) sig _ _ _ run] Cons.prems(4) by simp
  have step: "unat (acc_nonce (lg_account L1 a)) \<le> unat (acc_nonce (lg_account L a)) + 1" for a
    using run
  proof (cases rule: execute_cases)
    case charged
    have "acc_nonce (lg_account L1 a) = acc_nonce (lg_account (charge tx L) a)" by (rule dispatch_nonces [OF charged(4)])
    then show ?thesis using unat_Suc_le [of "acc_nonce (lg_account L a)"] by (simp split: if_splits)
  qed simp
  have "unat (acc_nonce (lg_account L1 a)) + length txs < 2 ^ 64" for a
    using spec [OF Cons.prems(5), of a] step [of a] by simp
  then have "\<forall>a. unat (acc_nonce (lg_account L1 a)) + length txs < 2 ^ 64" ..
  then show ?case
    using Cons.IH [OF 1 _ x(2)] execute_conserves [OF Cons.prems(2) run] Cons.prems(4) run by simp
qed


section \<open>One pass of the testnet\<close>

definition queued :: "Solo_Testnet \<Rightarrow> Transaction list" where
  "queued t = mp_transactions (tt_mempool t) @ rpc_pending (sv_rpc (tt_services t))"

lemma add_all_mempool: "add_all mp_add txs m = (Inr (), \<lparr>mp_transactions = mp_transactions m @ txs\<rparr>)"
  by (induction txs arbitrary: m) (simp_all add: mp_add_def act_run)

lemma testnet_pass_eq:
  "testnet_pass E G now height t =
     (case solo_propose E now height (take 100 (queued t)) (tt_consensus t) of
        (Inl e, c) \<Rightarrow> (Inl NodeConsensus, t\<lparr>tt_consensus := c, tt_mempool := \<lparr>mp_transactions = drop 100 (queued t)\<rparr>\<rparr>)
      | (Inr b, c) \<Rightarrow> (Inr (), \<lparr>tt_consensus = c, tt_mempool = \<lparr>mp_transactions = drop 100 (queued t)\<rparr>,
           tt_services = testnet_ingest_block E G b (tt_services t)\<rparr>))"
proof -
  obtain xs m where m: "mp_drain 100 \<lparr>mp_transactions = queued t\<rparr> = (xs, m)" by fastforce
  then have xs: "xs = take 100 (queued t)" "m = \<lparr>mp_transactions = drop 100 (queued t)\<rparr>"
    by (auto simp: mp_drain_def Let_def min_def)
  have "testnet_pass E G now height t = act_bind (act_on tt_consensus (\<lambda>c t. t\<lparr>tt_consensus := c\<rparr>)
       (act_map_err (\<lambda>_. NodeConsensus) (solo_propose E now height xs))) (\<lambda>block.
     act_modify (\<lambda>t. t\<lparr>tt_services := testnet_ingest_block E G block (tt_services t)\<rparr>)) (t\<lparr>tt_mempool := m\<rparr>)"
    using m by (simp add: testnet_pass_def act_run act_on_apply add_all_mempool rpc_pending_transactions_def tt_drain_def queued_def)
  then show ?thesis by (simp add: xs act_bind_def act_on_apply act_map_err_def split: prod.split sum.split)
qed

lemma publish_txs_rpc:
  "rpc_accounts (sv_rpc (fold (publish_tx E G) txs sv)) = rpc_accounts (sv_rpc sv)"
  "rpc_pending (sv_rpc (fold (publish_tx E G) txs sv)) = rpc_pending (sv_rpc sv)"
  "rpc_blocks (sv_rpc (fold (publish_tx E G) txs sv)) = rpc_blocks (sv_rpc sv)"
  by (induction txs arbitrary: sv) (simp_all add: publish_tx_def rpc_store_transaction_def)

lemma publish_block_rpc:
  "rpc_accounts (sv_rpc (publish_block E G b sv)) = rpc_accounts (sv_rpc sv)"
  "rpc_pending (sv_rpc (publish_block E G b sv)) = rpc_pending (sv_rpc sv)"
  "rpc_blocks (sv_rpc (publish_block E G b sv)) = (rpc_blocks (sv_rpc sv))(bh_height (blk_header b) \<mapsto> b)"
  by (simp_all add: publish_block_def publish_txs_rpc rpc_store_block_def Let_def)

lemma replay_frame:
  "rpc_pending (fold testnet_replay txs s) = rpc_pending s" "rpc_blocks (fold testnet_replay txs s) = rpc_blocks s"
  by (induction txs arbitrary: s) (simp_all add: testnet_replay_def rpc_set_account_def Let_def)

lemma mirrors_accounts: "rpc_accounts s = rpc_accounts s' \<Longrightarrow> mirrors s L = mirrors s' L"
  by (simp add: mirrors_def rpc_get_account_def)

text \<open>
  C13. The balances and nonces the testnet's RPC server reports are those of the ledger, as long as every transaction is a
  transfer and no transfer is charged a fee without being able to pay its amount: after a successful
  pass of the block loop every account of the RPC state is the account the solo engine has.
\<close>

theorem testnet_mirror_agrees:
  assumes "json_ok E" "testnet_pass E G now height t = (Inr (), t')"
    and "L = im_ledger E (so_state (tt_consensus t))" "L' = im_ledger E (so_state (tt_consensus t'))"
    and "im_ok E (so_state (tt_consensus t))" "ledger_ok L"
    and "\<forall>a. unwrap_account (rpc_get_account a (sv_rpc (tt_services t))) = lg_account L a"
    and "transfers_pay E (take 100 (queued t)) L" "\<forall>a. unat (acc_nonce (lg_account L a)) + 100 < 2 ^ 64"
  shows "(\<forall>a. unwrap_account (rpc_get_account a (sv_rpc (tt_services t'))) = lg_account L' a)
       \<and> im_ok E (so_state (tt_consensus t')) \<and> ledger_ok L'"
proof -
  let ?txs = "take 100 (queued t)"
  obtain b c where b: "solo_propose E now height ?txs (tt_consensus t) = (Inr b, c)" "tt_consensus t' = c"
    "tt_services t' = testnet_ingest_block E G b (tt_services t)"
    using assms(2) by (auto simp: testnet_pass_eq split: prod.splits sum.splits)
  obtain r where "execute_all E (im_backend E) ?txs (so_state (tt_consensus t)) = (r, so_state c)"
    using solo_propose_state [OF b(1)] by blast
  moreover have "r = Inr ()"
    using b(1) calculation by (cases r) (auto simp: solo_propose_def act_run act_on_apply)
  ultimately have run: "execute_all E (im_backend E) ?txs (so_state (tt_consensus t)) = (Inr (), so_state c)" by simp
  note spec = im_execute_all [OF assms(1,5) run]
  have "mirrors (sv_rpc (tt_services t)) L" using assms(7) by (simp add: mirrors_def)
  moreover have "spec_execute_all E ?txs L = (Inr (), L')" using spec(1) assms(3,4) b(2) by simp
  moreover have "unat (acc_nonce (lg_account L a)) + length ?txs < 2 ^ 64" for a
    using assms(9) [THEN HOL.spec, of a] by simp
  ultimately have "mirrors (fold testnet_replay ?txs (sv_rpc (tt_services t))) L'"
    using replay_all_mirrors [OF _ assms(6) _ assms(8)] by blast
  then have "mirrors (sv_rpc (tt_services t')) L'"
    using mirrors_accounts [OF publish_block_rpc(1)] b(3) solo_propose_ok(4) [OF b(1)]
    by (simp add: testnet_ingest_block_def)
  then show ?thesis
    using spec spec_execute_all_conserves [OF assms(6)] assms(3,4) b(2) by (auto simp: mirrors_def)
qed


lemma ingest_block_rpc:
  "rpc_pending (sv_rpc (testnet_ingest_block E G b sv)) = rpc_pending (sv_rpc sv)"
  "rpc_blocks (sv_rpc (testnet_ingest_block E G b sv)) = (rpc_blocks (sv_rpc sv))(bh_height (blk_header b) \<mapsto> b)"
  by (simp_all add: testnet_ingest_block_def publish_block_rpc replay_frame)

lemma testnet_blocks_bodies:
  assumes "testnet_blocks E G passes t = (Inr (), t')" "mp_transactions (tt_mempool t) = []"
    and "length (rpc_pending (sv_rpc (tt_services t))) \<le> 100"
    and "\<forall>(height, now, clients)\<in>set passes. clients = (\<lambda>s. s)" "distinct (map fst passes)"
  shows "(\<forall>h. h \<notin> fst ` set passes \<longrightarrow> rpc_blocks (sv_rpc (tt_services t')) h = rpc_blocks (sv_rpc (tt_services t)) h)
     \<and> (\<forall>h\<in>fst ` set passes. \<exists>b. rpc_get_block_by_height h (sv_rpc (tt_services t')) = Some b
       \<and> bb_transactions (blk_body b) = rpc_pending (sv_rpc (tt_services t)))"
  using assms
proof (induction passes arbitrary: t)
  case Nil
  then show ?case by simp
next
  case (Cons p passes)
  obtain h now where p: "p = (h, now, \<lambda>s. s)" using Cons.prems(4) by (cases p) auto
  let ?txs = "rpc_pending (sv_rpc (tt_services t))"
  have q: "queued t = ?txs" using Cons.prems(2) by (simp add: queued_def)
  have arr: "arrive (\<lambda>s. s) t = t" by (simp add: arrive_def)
  obtain t1 where t1: "testnet_pass E G now h t = (Inr (), t1)" "testnet_blocks E G passes t1 = (Inr (), t')"
    using Cons.prems(1) by (auto simp: p arr act_bind_def act_modify_apply split: prod.splits sum.splits)
  obtain b c where b: "solo_propose E now h ?txs (tt_consensus t) = (Inr b, c)" "mp_transactions (tt_mempool t1) = []"
    "tt_services t1 = testnet_ingest_block E G b (tt_services t)"
    using t1(1) Cons.prems(3) by (auto simp: testnet_pass_eq q split: prod.splits sum.splits)
  have body: "bb_transactions (blk_body b) = ?txs" "bh_height (blk_header b) = h"
    using solo_propose_ok(4,6) [OF b(1)] by simp_all
  have pend: "rpc_pending (sv_rpc (tt_services t1)) = ?txs" by (simp add: b(3) ingest_block_rpc)
  note ih = Cons.IH [OF t1(2) b(2)]
  have "h \<notin> fst ` set passes" using Cons.prems(5) by (simp add: p)
  then have "rpc_blocks (sv_rpc (tt_services t')) h = Some b"
    using ih Cons.prems(3-5) pend by (simp add: b(3) ingest_block_rpc body p)
  then show ?case
    using ih Cons.prems(3-5) pend body by (auto simp: b(3) ingest_block_rpc p rpc_get_block_by_height_def)
qed

text \<open>
  The RPC state never forgets a pending transaction, so the testnet executes it again in every later block. From a state with an empty
  mempool and at most a hundred pending transactions, when no client sends anything more, every block that
  the loop produces has exactly the pending transactions as its body, again and again.
\<close>

theorem testnet_repeats_transactions:
  assumes "testnet_blocks E G passes t = (Inr (), t')" "mp_transactions (tt_mempool t) = []"
    and "length (rpc_pending (sv_rpc (tt_services t))) \<le> 100"
    and "\<forall>(height, now, clients)\<in>set passes. clients = (\<lambda>s. s)" "distinct (map fst passes)" "height \<in> fst ` set passes"
  shows "\<exists>b. rpc_get_block_by_height height (sv_rpc (tt_services t')) = Some b
       \<and> bb_transactions (blk_body b) = rpc_pending (sv_rpc (tt_services t))"
  using testnet_blocks_bodies [OF assms(1-5)] assms(6) by blast

lemma execute_all_unsigned:
  assumes "tx \<in> set txs" "verify_signature E tx = Inl e"
  shows "\<exists>e' s'. execute_all E B txs s = (Inl e', s')"
  using assms(1)
proof (induction txs arbitrary: s)
  case (Cons a txs)
  obtain r s1 where run: "block_execute E B a s = (r, s1)" by fastforce
  show ?case
  proof (cases r)
    case Inl
    then show ?thesis using run by (simp add: act_run)
  next
    case (Inr x)
    then have "a \<noteq> tx" using run assms(2) by (auto simp: block_execute_def act_run)
    then show ?thesis using Cons run Inr by (simp add: act_run)
  qed
qed simp

text \<open>
  C40. One gRPC transaction ends the testnet. After the gRPC endpoint has accepted a transaction, while fewer than a
  hundred others are queued, the next pass of the block loop fails, which ends \<open>run_solo_testnet\<close> with a consensus error.
\<close>

theorem grpc_transaction_stops_testnet:
  assumes "grpc_send_transaction E request (sv_rpc (tt_services t)) = (Inr r, s')" "length (queued t) < 100"
  shows "\<exists>t'. testnet_blocks E G ((height, now, \<lambda>s. snd (grpc_send_transaction E request s)) # rest) t = (Inl NodeConsensus, t')"
proof -
  let ?t = "arrive (\<lambda>s. snd (grpc_send_transaction E request s)) t"
  obtain tx where tx: "rpc_pending s' = rpc_pending (sv_rpc (tt_services t)) @ [tx]" "verify_signature E tx = Inl InvalidSignature"
    using grpc_queues_unsigned [OF assms(1)] by blast
  have "queued ?t = queued t @ [tx]" using assms(1) tx(1) by (simp add: arrive_def queued_def)
  then have "tx \<in> set (take 100 (queued ?t))" using assms(2) by simp
  from execute_all_unsigned [OF this tx(2), of "im_backend E" "so_state (tt_consensus ?t)"] obtain e c
    where "solo_propose E now height (take 100 (queued ?t)) (tt_consensus ?t) = (Inl e, c)"
    by (auto simp: solo_propose_def act_run act_on_apply)
  then have "testnet_pass E G now height ?t =
      (Inl NodeConsensus, ?t\<lparr>tt_consensus := c, tt_mempool := \<lparr>mp_transactions = drop 100 (queued ?t)\<rparr>\<rparr>)"
    by (simp add: testnet_pass_eq)
  then show ?thesis by (simp add: act_run)
qed


section \<open>The standalone services\<close>

text \<open>
  The standalone services lose the debit of a stake. When the mirrored accounts agree with the ledger and a transaction without
  amount registers a validator or delegates, the ledger takes the stake from the sender, but the replay writes the
  sender's account back as it was before the stake was taken: its balance is too high by the stake.
\<close>

theorem services_forget_stake:
  assumes "\<forall>a. unwrap_account (rpc_get_account a s) = lg_account L a" "spec_execute E tx L = (Inr x, L')"
    and "staking_decode E (tx_payload tx) = Inr (RegisterValidator pk bps stake)
         \<or> staking_decode E (tx_payload tx) = Inr (Delegate v stake)"
    and "acc_nonce (lg_account L (tx_sender tx)) = tx_nonce tx" "tx_fee tx \<le> acc_balance (lg_account L (tx_sender tx))"
    and "tx_amount tx = 0" "tx_recipient tx \<noteq> tx_sender tx"
  shows "unat (acc_balance (unwrap_account (rpc_get_account (tx_sender tx) (services_replay E tx s)))) = bal L' (tx_sender tx) + unat stake"
proof -
  let ?x = "lg_account L (tx_sender tx)"
  have fee: "saturating_add 0 (tx_fee tx) = tx_fee tx" using unat_less_bound [of "tx_fee tx"] by (simp add: saturating_add_def)
  have "unwrap_account (rpc_get_account (tx_sender tx) s) = ?x" using assms(1) by blast
  then have mirror: "acc_balance (unwrap_account (rpc_get_account (tx_sender tx) (services_replay E tx s))) = acc_balance ?x - tx_fee tx"
    using assms(3-7) fee by (auto simp: services_replay_def Let_def saturating_sub_def)
  have pay: "tx_payload tx \<noteq> []" "hd (tx_payload tx) = 1"
    using assms(3) by (cases "tx_payload tx"; force simp: staking_decode_def split: if_splits)+
  have "verify_signature E tx = Inr ()" using assms(2) by (auto simp: spec_execute_def split: if_splits)
  then have run: "spec_staking E tx (charge tx L) = (Inr x, L')" using assms(2,4,5) pay by (simp add: spec_execute_def not_less [symmetric])
  have "stake \<le> acc_balance ?x - tx_fee tx \<and> acc_balance (lg_account L' (tx_sender tx)) = acc_balance ?x - tx_fee tx - stake"
    using run assms(3)
    by (auto simp: spec_staking_def spec_register_def spec_delegate_def Let_def split: if_splits option.splits)
  then show ?thesis by (simp add: mirror bal_def unat_sub_exact word_le_nat_alt)
qed

definition poll_run ::
    "externs \<Rightarrow> signer \<Rightarrow> (u64 option http_reply \<times> (u64 \<Rightarrow> Block http_reply)) list \<Rightarrow> Poller \<Rightarrow> Poller" where
  "poll_run E G replies p = fold (\<lambda>(status, fetch). poll_pass E G status fetch) replies p"

lemma heights_append:
  assumes "lo \<le> hi"
  shows "map of_nat [1..<unat lo + 1] @ heights_between lo hi = map of_nat [1..<unat hi + 1]"
proof -
  have "[1..<unat hi + 1] = [1..<unat lo + 1] @ [unat lo + 1..<unat hi + 1]"
    using assms upt_add_eq_append [of 1 "unat lo + 1" "unat hi - unat lo"] by (simp add: word_le_nat_alt)
  then show ?thesis by (simp add: heights_between_def)
qed

lemma in_heights_between: "h \<in> set (heights_between lo hi) \<longleftrightarrow> lo < h \<and> h \<le> hi"
proof -
  have "h \<in> set (heights_between lo hi)" if "lo < h" "h \<le> hi"
    using that image_eqI [of h of_nat "unat h" "{unat lo + 1..<unat hi + 1}"]
    by (simp add: heights_between_def word_less_nat_alt word_le_nat_alt del: upt_Suc)
  moreover have "lo < of_nat n \<and> of_nat n \<le> hi" if "unat lo < n" "n \<le> unat hi" for n
  proof -
    have "unat (of_nat n :: u64) = n" using that unat_less_bound [of hi] by (intro of_nat_inverse [OF refl]) simp
    then show ?thesis using that by (simp add: word_less_nat_alt word_le_nat_alt)
  qed
  moreover have "\<exists>n. h = of_nat n \<and> unat lo < n \<and> n \<le> unat hi" if "h \<in> set (heights_between lo hi)"
    using that by (auto simp: heights_between_def simp del: upt_Suc)
  ultimately show ?thesis by blast
qed

definition followed :: "externs \<Rightarrow> signer \<Rightarrow> (u64 \<Rightarrow> Block) \<Rightarrow> SharedServices \<Rightarrow> Poller \<Rightarrow> bool" where
  "followed E G chain sv p \<longleftrightarrow>
     po_services p = fold (services_ingest_block E G) (map chain (map of_nat [1..<unat (po_last_height p) + 1])) sv"

lemma poll_pass_followed:
  assumes "followed E G chain sv p"
  shows "followed E G chain sv (poll_pass E G status (\<lambda>h. Body (chain h)) p)"
proof (cases "polled_height status (po_last_height p) \<le> po_last_height p")
  case True
  then show ?thesis using assms by (simp add: poll_pass_def)
next
  case False
  have "poll_block E G (\<lambda>h. Body (chain h)) = (\<lambda>h. services_ingest_block E G (chain h))"
    by (simp add: poll_block_def fun_eq_iff)
  with False show ?thesis
    using assms heights_append [of "po_last_height p" "polled_height status (po_last_height p)", symmetric]
    by (simp add: followed_def poll_pass_def Let_def fold_map comp_def del: upt_Suc map_map)
qed

lemma poll_run_followed:
  assumes "\<forall>(status, fetch)\<in>set replies. fetch = (\<lambda>h. Body (chain h))" "followed E G chain sv p"
  shows "followed E G chain sv (poll_run E G replies p)"
  using assms by (induction replies arbitrary: p) (auto simp: poll_run_def poll_pass_followed)

text \<open>
  C31. The poller follows the chain without gaps or repetitions: when the validator answers every block request, then whatever it answers to the
  status requests, also errors and heights that go back, the services have ingested exactly the blocks from height
  one to the last height seen, each once and in order.
\<close>

theorem poll_follows_chain:
  assumes "\<forall>(status, fetch)\<in>set replies. fetch = (\<lambda>h. Body (chain h))" "p' = poll_run E G replies \<lparr>po_last_height = 0, po_services = sv\<rparr>"
  shows "po_services p' = fold (services_ingest_block E G) (map chain (map of_nat [1..<unat (po_last_height p') + 1])) sv"
proof -
  have "followed E G chain sv p'"
    using poll_run_followed [OF assms(1), of E G sv "\<lparr>po_last_height = 0, po_services = sv\<rparr>"] by (simp add: assms(2) followed_def)
  then show ?thesis by (simp add: followed_def)
qed

text \<open>
  A block whose request fails is lost. After a pass that advanced over a height, no answer the validator may later give for that height
  makes any difference: the block is never asked for again.
\<close>

theorem poll_never_retries:
  assumes "p' = poll_pass E G status fetch p" "h \<le> po_last_height p'"
  shows "poll_run E G (map (\<lambda>(status, fetch). (status, fetch(h := reply))) replies) p' = poll_run E G replies p'"
proof -
  have step: "poll_pass E G status (fetch(h := reply)) q = poll_pass E G status fetch q" if "h \<le> po_last_height q" for q status fetch
  proof -
    have "fold (poll_block E G (fetch(h := reply))) hs sv = fold (poll_block E G fetch) hs sv" if "h \<notin> set hs" for hs sv
      using that by (induction hs arbitrary: sv) (auto simp: poll_block_def)
    moreover have "h \<notin> set (heights_between (po_last_height q) hi)" for hi using that by (auto simp: in_heights_between)
    ultimately show ?thesis by (simp add: poll_pass_def Let_def)
  qed
  have mono: "po_last_height q \<le> po_last_height (poll_pass E G status fetch q)" for q status fetch
    by (auto simp: poll_pass_def Let_def)
  have "poll_run E G (map (\<lambda>(status, fetch). (status, fetch(h := reply))) replies) q = poll_run E G replies q"
    if "h \<le> po_last_height q" for q
    using that
  proof (induction replies arbitrary: q)
    case (Cons r replies)
    obtain st f where r: "r = (st, f)" by fastforce
    have "poll_run E G (map (\<lambda>(status, fetch). (status, fetch(h := reply))) (r # replies)) q =
        poll_run E G (map (\<lambda>(status, fetch). (status, fetch(h := reply))) replies) (poll_pass E G st f q)"
      by (simp add: poll_run_def r step [OF Cons.prems] del: fun_upd_apply)
    also have "\<dots> = poll_run E G replies (poll_pass E G st f q)"
      by (rule Cons.IH) (rule order_trans [OF Cons.prems mono])
    finally show ?case by (simp add: poll_run_def r del: fun_upd_apply)
  qed (simp add: poll_run_def)
  then show ?thesis using assms(2) .
qed


section \<open>Witnesses\<close>

definition demo_services :: "Transaction list \<Rightarrow> SharedServices" where
  "demo_services txs = \<lparr>sv_rpc = fold rpc_submit_transaction txs demo_rpc, sv_explorer = ExplorerState_new, sv_webhooks = WebhookState_new\<rparr>"

definition demo_testnet :: "Transaction list \<Rightarrow> Solo_Testnet" where
  "demo_testnet txs = \<lparr>tt_consensus = demo_solo, tt_mempool = SimpleMempool_new, tt_services = demo_services txs\<rparr>"

lemma demo_testnet_simps [simp]:
  "tt_consensus (demo_testnet txs) = demo_solo" "mp_transactions (tt_mempool (demo_testnet txs)) = []"
  "rpc_pending (sv_rpc (tt_services (demo_testnet [tx]))) = [tx]" "rpc_pending (sv_rpc (tt_services (demo_testnet []))) = []"
  "queued (demo_testnet [tx]) = [tx]" "queued (demo_testnet []) = []" "so_state demo_solo = demo_store"
  "rpc_get_account a (sv_rpc (tt_services (demo_testnet [tx]))) = (if a = demo_address then Some (Account_new 1000 0) else None)"
  by (simp_all add: demo_testnet_def demo_services_def rpc_submit_transaction_def demo_rpc_def rpc_set_account_def
      RpcState_new_def queued_def SimpleMempool_new_def demo_solo_def rpc_get_account_def)

lemma demo_account_default: "lg_account (im_ledger demo_externs demo_store) a = (if a = demo_address then Account_new 1000 0 else default_account)"
  by (simp add: im_ledger_def demo_store_def lg_account_def unwrap_account_def)

lemma demo_pass:
  obtains tx t' where "testnet_pass demo_externs G now height (demo_testnet [tx]) = (Inr (), t')"
    "bal (im_ledger demo_externs (so_state (tt_consensus t'))) demo_address = 899"
    "transfers_pay demo_externs [tx] (im_ledger demo_externs demo_store)"
    "\<exists>b. execute_all demo_externs (im_backend demo_externs) [tx] (so_state (tt_consensus t')) = (Inr (), b)"
proof -
  obtain tx where tx: "verify_signature demo_externs tx = Inr ()" "tx_sender tx = demo_address"
    "tx_recipient tx = zero32" "tx_amount tx = 100" "tx_nonce tx = 0" "tx_fee tx = 1" "tx_payload tx = []"
    by (rule demo_signed_transfer)
  obtain st where st: "block_execute demo_externs (im_backend demo_externs) tx demo_store = (Inr (success 21000 ''ok''), st)"
    "bal (im_ledger demo_externs st) demo_address = 899" "im_ok demo_externs st"
    using demo_transfer_runs [OF tx] by metis
  have "execute_all demo_externs (im_backend demo_externs) [tx] (so_state demo_solo) = (Inr (), st)"
    using st(1) by (simp add: act_run)
  from solo_propose_succeeds [OF this] obtain b c
    where "solo_propose demo_externs now height [tx] demo_solo = (Inr b, c)" "so_state c = st" by blast
  then obtain t' where t': "testnet_pass demo_externs G now height (demo_testnet [tx]) = (Inr (), t')"
    "so_state (tt_consensus t') = st" by (simp add: testnet_pass_eq)
  have "acc_nonce (lg_account (im_ledger demo_externs st) demo_address) = 1"
    using execute_charges [OF im_refines(1) [OF demo_json_ok demo_store_ok(1) st(1)] tx(1)] tx
    by (simp add: demo_account_default Account_new_def)
  then have "spec_execute demo_externs tx (im_ledger demo_externs st) = (Inr (failure ''invalid nonce''), im_ledger demo_externs st)"
    by (simp add: spec_execute_def tx)
  moreover obtain r st' where again: "block_execute demo_externs (im_backend demo_externs) tx st = (r, st')" by fastforce
  ultimately have "r = Inr (failure ''invalid nonce'')" using im_refines(1) [OF demo_json_ok st(3) again] by simp
  then have "execute_all demo_externs (im_backend demo_externs) [tx] st = (Inr (), st')" using again by (simp add: act_run)
  moreover have "transfers_pay demo_externs [tx] (im_ledger demo_externs demo_store)"
    by (simp add: tx fee_only_def bal_def demo_account_default Account_new_def)
  ultimately show ?thesis using that t' st(2) by simp
qed

theorem testnet_mirror_agrees_witness:
  "\<exists>tx t'. testnet_pass demo_externs demo_signer 7 1 (demo_testnet [tx]) = (Inr (), t')
     \<and> unat (acc_balance (unwrap_account (rpc_get_account demo_address (sv_rpc (tt_services t'))))) = 899"
proof -
  obtain tx t' where run: "testnet_pass demo_externs demo_signer 7 1 (demo_testnet [tx]) = (Inr (), t')"
    "bal (im_ledger demo_externs (so_state (tt_consensus t'))) demo_address = 899"
    "transfers_pay demo_externs [tx] (im_ledger demo_externs demo_store)"
    by (rule demo_pass)
  have "unwrap_account (rpc_get_account a (sv_rpc (tt_services (demo_testnet [tx])))) = lg_account (im_ledger demo_externs demo_store) a" for a
    by (simp add: demo_account_default unwrap_account_def)
  then have "unwrap_account (rpc_get_account demo_address (sv_rpc (tt_services t'))) =
      lg_account (im_ledger demo_externs (so_state (tt_consensus t'))) demo_address"
    using testnet_mirror_agrees [OF demo_json_ok run(1) refl refl] demo_store_ok run(3)
    by (simp add: demo_account_default Account_new_def default_account_def)
  then show ?thesis using run(1,2) by (intro exI [of _ tx] exI [of _ t']) (simp add: bal_def)
qed

theorem testnet_repeats_transactions_witness:
  "\<exists>tx t' b. testnet_blocks demo_externs demo_signer [(1, 7, \<lambda>s. s), (2, 8, \<lambda>s. s)] (demo_testnet [tx]) = (Inr (), t')
     \<and> rpc_get_block_by_height 2 (sv_rpc (tt_services t')) = Some b \<and> bb_transactions (blk_body b) = [tx]"
proof -
  obtain tx t1 st where t1: "testnet_pass demo_externs demo_signer 7 1 (demo_testnet [tx]) = (Inr (), t1)"
    "execute_all demo_externs (im_backend demo_externs) [tx] (so_state (tt_consensus t1)) = (Inr (), st)"
    by (metis demo_pass)
  have "queued t1 = [tx]"
    using t1(1) by (auto simp: testnet_pass_eq queued_def [of t1] ingest_block_rpc split: prod.splits sum.splits)
  moreover from solo_propose_succeeds [OF t1(2)] obtain b c
    where "solo_propose demo_externs 8 2 [tx] (tt_consensus t1) = (Inr b, c)" by blast
  ultimately obtain t2 where "testnet_pass demo_externs demo_signer 8 2 t1 = (Inr (), t2)" by (simp add: testnet_pass_eq)
  then have run: "testnet_blocks demo_externs demo_signer [(1, 7, \<lambda>s. s), (2, 8, \<lambda>s. s)] (demo_testnet [tx]) = (Inr (), t2)"
    using t1(1) by (simp add: act_run arrive_def)
  then show ?thesis using testnet_repeats_transactions [OF run, of 2] by auto
qed

theorem grpc_transaction_stops_testnet_witness:
  "\<exists>t'. testnet_blocks demo_externs demo_signer [(1, 7, \<lambda>s. snd (grpc_send_transaction demo_externs
       (Some (transaction_to_proto demo_externs (Transaction_transfer demo_address zero32 5 0 1))) s)), (2, 8, \<lambda>s. s)] (demo_testnet []) = (Inl NodeConsensus, t')"
proof -
  obtain r s' where "grpc_send_transaction demo_externs
      (Some (transaction_to_proto demo_externs (Transaction_transfer demo_address zero32 5 0 1))) (sv_rpc (tt_services (demo_testnet []))) = (Inr r, s')"
    by (simp add: grpc_send_run proto_to_transaction_def transaction_to_proto_def parse_address_def
        Address_roundtrip [OF demo_hex_ok])
  from grpc_transaction_stops_testnet [OF this, of demo_signer 1 7 "[(2, 8, \<lambda>s. s)]"] show ?thesis
    by (simp only: demo_testnet_simps list.size)
qed

theorem services_forget_stake_witness:
  "\<exists>tx L x L'. spec_execute demo_externs tx L = (Inr x, L') \<and> bal L' demo_address = 9999 \<and>
     unat (acc_balance (unwrap_account (rpc_get_account demo_address
       (services_replay demo_externs tx (rpc_set_account demo_address (Account_new 20000 0) RpcState_new))))) = 19999"
proof -
  define L :: ledger where "L = lg_put demo_address (Account_new 20000 0) \<lparr>lg_acct = Map.empty, lg_val = Map.empty, lg_dlg = (\<lambda>_. Map.empty)\<rparr>"
  define p where "p = staking_encode demo_externs (RegisterValidator [1] 100 10000)"
  have dec: "staking_decode demo_externs p = Inr (RegisterValidator [1] 100 10000)"
  proof -
    have "json_staking_op demo_externs (RegisterValidator [1] 100 10000) \<noteq> []" by (simp add: demo_externs_def)
    then show ?thesis
      using json_okD(4) [OF demo_json_ok, of "RegisterValidator [1] 100 10000"] by (simp add: p_def staking_encode_def staking_decode_def)
  qed
  have "tb_sender (with_payload p (with_fee 1 (with_sender demo_address TransactionBuilder_new))) =
      hash_bytes demo_externs (kp_public (keypair_of_secret demo_externs demo_address))"
    by (simp add: with_sender_def with_fee_def with_payload_def TransactionBuilder_new_def keypair_of_secret_def hash_bytes_def demo_externs_def)
  from sign_verifies [OF demo_dalek_ok this] obtain tx where tx: "verify_signature demo_externs tx = Inr ()"
    "tx_sender tx = demo_address" "tx_recipient tx = zero32" "tx_amount tx = 0" "tx_nonce tx = 0" "tx_fee tx = 1" "tx_payload tx = p"
    by (auto simp: with_sender_def with_fee_def with_payload_def TransactionBuilder_new_def)
  have acct: "lg_account L a = (if a = demo_address then Account_new 20000 0 else default_account)" for a
    by (simp add: L_def) (simp add: lg_account_def unwrap_account_def)
  obtain x L' where run: "spec_execute demo_externs tx L = (Inr x, L')" "bal L' demo_address = 9999"
    using dec by (auto simp: spec_execute_def tx acct Account_new_def p_def staking_encode_def spec_staking_def spec_register_def L_def
        MIN_SELF_STAKE_def bal_def)
  note zero_not_demo
  moreover have "\<forall>a. unwrap_account (rpc_get_account a (rpc_set_account demo_address (Account_new 20000 0) RpcState_new)) = lg_account L a"
    by (simp add: acct) (simp add: RpcState_new_def rpc_get_account_def unwrap_account_def)
  ultimately show ?thesis
    using services_forget_stake [OF _ run(1), of "rpc_set_account demo_address (Account_new 20000 0) RpcState_new" "[1]" 100 10000] run dec
    by (auto simp: tx acct Account_new_def)
qed

theorem poll_follows_chain_witness:
  "po_services (poll_run demo_externs demo_signer [(Body (Some 2), \<lambda>h. Body (demo_block h)), (SendError, \<lambda>h. Body (demo_block h))]
     \<lparr>po_last_height = 0, po_services = demo_services []\<rparr>) =
   services_ingest_block demo_externs demo_signer (demo_block 2) (services_ingest_block demo_externs demo_signer (demo_block 1) (demo_services []))"
  using poll_follows_chain [of "[(Body (Some 2), \<lambda>h. Body (demo_block h)), (SendError, \<lambda>h. Body (demo_block h))]" demo_block _
      demo_externs demo_signer "demo_services []", OF _ refl]
  by (simp add: poll_run_def poll_pass_def polled_height_def Let_def upt_rec)

theorem poll_never_retries_witness:
  "poll_run demo_externs demo_signer [(Body (Some 3), (\<lambda>_. SendError)(1 := Body (demo_block 1)))]
     (poll_pass demo_externs demo_signer (Body (Some 2)) (\<lambda>_. SendError) \<lparr>po_last_height = 0, po_services = demo_services []\<rparr>) =
   poll_run demo_externs demo_signer [(Body (Some 3), \<lambda>_. SendError)]
     (poll_pass demo_externs demo_signer (Body (Some 2)) (\<lambda>_. SendError) \<lparr>po_last_height = 0, po_services = demo_services []\<rparr>)"
  using poll_never_retries [OF refl, of 1 demo_externs demo_signer "Body (Some 2)" "\<lambda>_. SendError"
      "\<lparr>po_last_height = 0, po_services = demo_services []\<rparr>" "Body (demo_block 1)" "[(Body (Some 3), \<lambda>_. SendError)]"]
  by (simp add: poll_pass_def polled_height_def Let_def)

end
