(* ===== verification/Sandbox.thy ===== *)
theory Sandbox
  imports Consensus
begin

text \<open>
  Model of src/crates/pemrix-sandbox/src/lib.rs: the in-memory developer environment around a solo engine and a
  mempool. Every method is an action on the sandbox, so that what \<open>produce_block\<close> did before its proposal failed stays
  done. The hash maps are never iterated and are partial maps; the error type's variants have the prefix \<open>Sandbox\<close>.
\<close>

section \<open>Errors\<close>

datatype SandboxError =
    SandboxConsensus string
  | SandboxStorage string
  | SandboxTransactionNotFound
  | SandboxBlockNotFound

fun ConsensusError_to_string :: "ConsensusError \<Rightarrow> string" where
  "ConsensusError_to_string InvalidProposal = ''invalid proposal''"
| "ConsensusError_to_string InvalidVote = ''invalid vote''"
| "ConsensusError_to_string (ExecutionFailed e) = ''execution failed: '' @ e"
| "ConsensusError_to_string ConsensusStorage = ''storage error''"
| "ConsensusError_to_string (ConsensusNetwork e) = ''network error: '' @ e"
| "ConsensusError_to_string NotProposer = ''not the proposer''"
| "ConsensusError_to_string AlreadyFinalized = ''already finalized''"

fun StorageError_to_string :: "StorageError \<Rightarrow> string" where
  "StorageError_to_string NotFound = ''key not found''"
| "StorageError_to_string (Backend e) = ''backend error: '' @ e"
| "StorageError_to_string Serialization = ''serialization error''"
| "StorageError_to_string StateRootMismatch = ''state root mismatch''"

definition SandboxError_from_consensus :: "ConsensusError \<Rightarrow> SandboxError" where
  "SandboxError_from_consensus e = SandboxConsensus (ConsensusError_to_string e)"

definition SandboxError_from_storage :: "StorageError \<Rightarrow> SandboxError" where
  "SandboxError_from_storage e = SandboxStorage (StorageError_to_string e)"

section \<open>The sandbox\<close>

record Sandbox =
  sb_proposer :: address
  sb_consensus :: SoloConsensus
  sb_mempool :: SimpleMempool
  sb_blocks :: "u64 \<rightharpoonup> Block"
  sb_blocks_by_hash :: "hash \<rightharpoonup> Block"
  sb_transactions :: "hash \<rightharpoonup> Transaction"
  sb_pending :: "Transaction list"
  sb_height :: u64

definition Sandbox_new :: "address \<Rightarrow> Sandbox" where
  "Sandbox_new a =
     \<lparr>sb_proposer = a, sb_consensus = Solo_new a, sb_mempool = SimpleMempool_new, sb_blocks = Map.empty,
      sb_blocks_by_hash = Map.empty, sb_transactions = Map.empty, sb_pending = [], sb_height = 0\<rparr>"

definition default_sandbox :: Sandbox where
  "default_sandbox = Sandbox_new zero32"

definition sb_fund :: "externs \<Rightarrow> address \<Rightarrow> u128 \<Rightarrow> (Sandbox, SandboxError, unit) action" where
  "sb_fund E a amount =
     act_on (\<lambda>s. so_state (sb_consensus s)) (\<lambda>st s. s\<lparr>sb_consensus := (sb_consensus s)\<lparr>so_state := st\<rparr>\<rparr>)
       (act_map_err SandboxError_from_storage (set_account (im_backend E) a (Account_new amount 0)))"

definition sb_submit :: "externs \<Rightarrow> Transaction \<Rightarrow> (Sandbox, SandboxError, hash) action" where
  "sb_submit E tx =
     (let h = tx_hash E tx in
      act_bind (act_on sb_mempool (\<lambda>m s. s\<lparr>sb_mempool := m\<rparr>) (act_map_err SandboxConsensus (mp_add tx))) (\<lambda>_.
      act_bind (act_modify (\<lambda>s. s\<lparr>sb_pending := sb_pending s @ [tx], sb_transactions := (sb_transactions s)(h \<mapsto> tx)\<rparr>)) (\<lambda>_.
      act_return h)))"

definition sb_take :: "externs \<Rightarrow> (Sandbox, SandboxError, Transaction list) action" where
  "sb_take E = (\<lambda>s.
     case mp_drain 1000 (sb_mempool s) of
       (txs, m) \<Rightarrow>
         (Inr txs, s\<lparr>sb_mempool := m,
            sb_pending := filter (\<lambda>tx. \<not> list_ex (\<lambda>t. tx_hash E t = tx_hash E tx) txs) (sb_pending s)\<rparr>))"

definition sb_store :: "externs \<Rightarrow> u64 \<Rightarrow> Block \<Rightarrow> Transaction list \<Rightarrow> Sandbox \<Rightarrow> Sandbox" where
  "sb_store E height block txs s =
     s\<lparr>sb_blocks := (sb_blocks s)(height \<mapsto> block),
       sb_blocks_by_hash := (sb_blocks_by_hash s)(block_hash E block \<mapsto> block),
       sb_transactions := fold (\<lambda>tx m. m(tx_hash E tx \<mapsto> tx)) txs (sb_transactions s)\<rparr>"

definition sb_produce_block :: "externs \<Rightarrow> u64 \<Rightarrow> (Sandbox, SandboxError, Block) action" where
  "sb_produce_block E now =
     act_bind (act_modify (\<lambda>s. s\<lparr>sb_height := sb_height s + 1\<rparr>)) (\<lambda>_.
     act_bind (act_gets sb_height) (\<lambda>height.
     act_bind (sb_take E) (\<lambda>txs.
     act_bind (act_on sb_consensus (\<lambda>c s. s\<lparr>sb_consensus := c\<rparr>)
       (act_map_err SandboxError_from_consensus (solo_propose E now height txs))) (\<lambda>block.
     act_bind (act_modify (sb_store E height block txs)) (\<lambda>_.
     act_return block)))))"

definition sb_balance :: "externs \<Rightarrow> address \<Rightarrow> Sandbox \<Rightarrow> SandboxError + u128" where
  "sb_balance E a s = map_err SandboxError_from_storage (store_balance (im_backend E) (so_state (sb_consensus s)) a)"

definition sb_nonce :: "externs \<Rightarrow> address \<Rightarrow> Sandbox \<Rightarrow> SandboxError + u64" where
  "sb_nonce E a s = map_err SandboxError_from_storage (store_nonce (im_backend E) (so_state (sb_consensus s)) a)"

definition sb_block_by_height :: "u64 \<Rightarrow> Sandbox \<Rightarrow> SandboxError + Block" where
  "sb_block_by_height height s = ok_or SandboxBlockNotFound (sb_blocks s height)"

definition sb_block_by_hash :: "hash \<Rightarrow> Sandbox \<Rightarrow> SandboxError + Block" where
  "sb_block_by_hash h s = ok_or SandboxBlockNotFound (sb_blocks_by_hash s h)"

definition sb_transaction :: "hash \<Rightarrow> Sandbox \<Rightarrow> SandboxError + Transaction" where
  "sb_transaction h s = ok_or SandboxTransactionNotFound (sb_transactions s h)"

definition sb_reset :: "Sandbox \<Rightarrow> Sandbox" where
  "sb_reset s =
     s\<lparr>sb_consensus := Solo_new (sb_proposer s), sb_mempool := SimpleMempool_new, sb_blocks := Map.empty,
       sb_blocks_by_hash := Map.empty, sb_transactions := Map.empty, sb_pending := [], sb_height := 0\<rparr>"

section \<open>Producing a block\<close>

lemma mempool_eq: "m\<lparr>mp_transactions := xs\<rparr> = \<lparr>mp_transactions = xs\<rparr>"
  by (cases m) simp

lemma produce_block_eq:
  "sb_produce_block E now s =
     (let height = sb_height s + 1; txs = take 1000 (mp_transactions (sb_mempool s));
          s1 = s\<lparr>sb_height := height, sb_mempool := \<lparr>mp_transactions = drop 1000 (mp_transactions (sb_mempool s))\<rparr>,
                 sb_pending := filter (\<lambda>tx. tx_hash E tx \<notin> tx_hash E ` set txs) (sb_pending s)\<rparr>
      in case solo_propose E now height txs (sb_consensus s) of
           (Inl e, c) \<Rightarrow> (Inl (SandboxError_from_consensus e), s1\<lparr>sb_consensus := c\<rparr>)
         | (Inr b, c) \<Rightarrow> (Inr b, sb_store E height b txs (s1\<lparr>sb_consensus := c\<rparr>)))"
proof -
  let ?s = "s\<lparr>sb_height := sb_height s + 1\<rparr>"
  have drain: "sb_take E ?s = (Inr (take 1000 (mp_transactions (sb_mempool s))),
      ?s\<lparr>sb_mempool := \<lparr>mp_transactions = drop 1000 (mp_transactions (sb_mempool s))\<rparr>,
         sb_pending := filter (\<lambda>tx. tx_hash E tx \<notin> tx_hash E ` set (take 1000 (mp_transactions (sb_mempool s)))) (sb_pending s)\<rparr>)"
  proof -
    have "(\<lambda>tx. \<not> list_ex (\<lambda>t. tx_hash E t = tx_hash E tx) txs) = (\<lambda>tx. tx_hash E tx \<notin> tx_hash E ` set txs)" for txs
      by (auto simp: list_ex_iff fun_eq_iff image_iff)
    then show ?thesis by (simp add: sb_take_def mp_drain_def Let_def min_def mempool_eq)
  qed
  show ?thesis
    by (simp add: sb_produce_block_def act_run act_gets_def drain Let_def act_bind_def act_on_apply act_map_err_def act_modify_apply
        split: prod.split sum.split)
qed

fun submit_all :: "externs \<Rightarrow> Transaction list \<Rightarrow> (Sandbox, SandboxError, unit) action" where
  "submit_all E [] = act_return ()"
| "submit_all E (tx # txs) = act_bind (sb_submit E tx) (\<lambda>_. submit_all E txs)"


lemma submit_all_eq:
  "submit_all E txs s = (Inr (), s\<lparr>sb_mempool := \<lparr>mp_transactions = mp_transactions (sb_mempool s) @ txs\<rparr>,
     sb_pending := sb_pending s @ txs, sb_transactions := fold (\<lambda>tx m. m(tx_hash E tx \<mapsto> tx)) txs (sb_transactions s)\<rparr>)"
  by (induction txs arbitrary: s) (simp_all add: sb_submit_def act_run act_on_apply mp_add_def mempool_eq Let_def)

lemma index_finds:
  "tx \<in> set txs \<Longrightarrow> \<exists>t. fold (\<lambda>tx m. m(tx_hash E tx \<mapsto> tx)) txs m (tx_hash E tx) = Some t \<and> tx_hash E t = tx_hash E tx"
proof (induction txs arbitrary: m rule: rev_induct)
  case (snoc x xs)
  then show ?case by (cases "tx_hash E tx = tx_hash E x") auto
qed simp

text \<open>
  A block contains exactly what was submitted. When at most a thousand transactions are submitted to a sandbox with nothing
  pending and the next block is produced, the block has those transactions in order at the next height; it
  is found by height and by hash, every transaction is found by its hash, and nothing is pending any more.
\<close>

theorem sandbox_block_has_submitted:
  assumes "submit_all E txs s = (r, s1)" "sb_produce_block E now s1 = (Inr b, s2)"
    and "mp_transactions (sb_mempool s) = []" "sb_pending s = []" "length txs \<le> 1000"
  shows "bb_transactions (blk_body b) = txs \<and> bh_height (blk_header b) = sb_height s + 1 \<and> sb_height s2 = sb_height s + 1
       \<and> sb_block_by_height (sb_height s2) s2 = Inr b \<and> sb_block_by_hash (block_hash E b) s2 = Inr b
       \<and> sb_pending s2 = [] \<and> (\<forall>tx\<in>set txs. \<exists>t. sb_transaction (tx_hash E tx) s2 = Inr t \<and> tx_hash E t = tx_hash E tx)"
proof -
  have s1: "mp_transactions (sb_mempool s1) = txs" "sb_pending s1 = txs" "sb_height s1 = sb_height s"
    using assms(1,3,4) by (auto simp: submit_all_eq)
  obtain c where c: "solo_propose E now (sb_height s + 1) txs (sb_consensus s1) = (Inr b, c)"
    "s2 = sb_store E (sb_height s + 1) b txs (s1\<lparr>sb_height := sb_height s + 1, sb_mempool := \<lparr>mp_transactions = []\<rparr>,
       sb_pending := filter (\<lambda>tx. tx_hash E tx \<notin> tx_hash E ` set txs) txs, sb_consensus := c\<rparr>)"
    using assms(2,5) by (auto simp: produce_block_eq Let_def s1 split: prod.splits sum.splits)
  have "filter (\<lambda>tx. tx_hash E tx \<notin> tx_hash E ` set txs) txs = []" by (simp add: filter_empty_conv)
  then show ?thesis
    using solo_propose_ok(4,6) [OF c(1)] index_finds
    by (auto simp: c(2) sb_store_def sb_block_by_height_def sb_block_by_hash_def sb_transaction_def)
qed

text \<open>
  A failed block loses its transactions. When the proposal fails, the height has advanced all the same without a block at
  it, and every transaction that was taken for the block is gone from the mempool and from the pending list.
\<close>

theorem sandbox_failed_block_loses_transactions:
  assumes "sb_produce_block E now s = (Inl e, s')" "sb_blocks s (sb_height s + 1) = None"
  shows "sb_height s' = sb_height s + 1 \<and> sb_block_by_height (sb_height s') s' = Inl SandboxBlockNotFound
       \<and> mp_transactions (sb_mempool s') = drop 1000 (mp_transactions (sb_mempool s))
       \<and> set (sb_pending s') \<inter> set (take 1000 (mp_transactions (sb_mempool s))) = {}"
  using assms by (auto simp: produce_block_eq Let_def sb_block_by_height_def split: prod.splits sum.splits)

theorem sandbox_block_has_submitted_witness:
  "\<exists>tx b s'. sb_produce_block demo_externs 7 (snd (submit_all demo_externs [tx] (default_sandbox\<lparr>sb_consensus := demo_solo\<rparr>))) = (Inr b, s')
     \<and> bb_transactions (blk_body b) = [tx]"
proof -
  obtain tx st where run: "block_execute demo_externs (im_backend demo_externs) tx demo_store = (Inr (success 21000 ''ok''), st)"
    by (metis demo_signed_transfer demo_transfer_runs)
  let ?s = "default_sandbox\<lparr>sb_consensus := demo_solo\<rparr>"
  have "execute_all demo_externs (im_backend demo_externs) [tx] (so_state demo_solo) = (Inr (), st)"
    using run by (simp add: act_run demo_solo_def)
  from solo_propose_succeeds [OF this] obtain b c where "solo_propose demo_externs 7 1 [tx] demo_solo = (Inr b, c)" by blast
  then obtain s' where s': "sb_produce_block demo_externs 7 (snd (submit_all demo_externs [tx] ?s)) = (Inr b, s')"
    by (simp add: submit_all_eq produce_block_eq Let_def default_sandbox_def Sandbox_new_def SimpleMempool_new_def del: submit_all.simps)
  from sandbox_block_has_submitted [OF prod.collapse [symmetric] this] this show ?thesis
    by (auto simp: default_sandbox_def Sandbox_new_def SimpleMempool_new_def)
qed

theorem sandbox_failed_block_loses_transactions_witness:
  "\<exists>tx e s'. sb_produce_block demo_externs 7 (snd (submit_all demo_externs [tx] default_sandbox)) = (Inl e, s')
     \<and> sb_height s' = 1 \<and> sb_pending s' = []"
proof -
  define tx where "tx = Transaction_transfer zero32 zero32 1 0 1"
  let ?s = "snd (submit_all demo_externs [tx] default_sandbox)"
  have "block_execute demo_externs B tx t = (Inl InvalidSignature, t)" for B :: "InMemoryBackend StateBackend" and t
    by (simp add: block_execute_def act_run verify_signature_def tx_def Transaction_transfer_def)
  then obtain e s' where run: "sb_produce_block demo_externs 7 ?s = (Inl e, s')"
    by (simp add: submit_all_eq produce_block_eq Let_def default_sandbox_def Sandbox_new_def SimpleMempool_new_def solo_propose_def
        act_run act_on_apply del: submit_all.simps)
  have "sb_blocks ?s (sb_height ?s + 1) = None" "mp_transactions (sb_mempool ?s) = [tx]" "sb_height ?s = 0" "sb_pending ?s = [tx]"
    by (simp_all add: submit_all_eq default_sandbox_def Sandbox_new_def SimpleMempool_new_def del: submit_all.simps)
  moreover have "sb_pending s' = []" using run calculation(2,4) by (auto simp: produce_block_eq Let_def split: prod.splits sum.splits)
  ultimately show ?thesis
    using sandbox_failed_block_loses_transactions [OF run] run by (auto intro!: exI [of _ tx])
qed

end
