(* ===== verification/Client.thy ===== *)
theory Client
  imports Rpc Genesis Faucet
begin

text \<open>
  Model of the clients: the router of src/crates/pemrix-rpc/src/server.rs, the clients of src/crates/pemrix-sdk
  (client.rs, faucet\_client.rs, explorer\_client.rs, webhook\_client.rs) and the commands of src/crates/pemrix-cli. reqwest is an
  action that takes a request to a status and a body, or to a printed error, and may change
  the world at the other end; what serde\_json prints and scans is a parameter. \<open>rpc_exchange\<close> is that action for a
  server of the Rpc theory, so that client and server are composed through their URLs.
\<close>

section \<open>Requests and routes\<close>

datatype HttpRequest =
    HttpGet string
  | HttpPost string SendTransactionRequest

datatype 'v RpcBody =
    BodyStatus "string \<times> u64 \<times> string"
  | BodyRaw Block
  | BodyBlock "'v BlockResponse"
  | BodyTransaction "'v TransactionResponse"
  | BodyBalance BalanceResponse
  | BodyNonce NonceResponse
  | BodyValidator ValidatorResponse
  | BodyDelegation DelegationResponse

fun split_slash :: "string \<Rightarrow> string list" where
  "split_slash [] = [[]]"
| "split_slash (c # cs) =
     (if c = CHR ''/'' then [] # split_slash cs
      else case split_slash cs of [] \<Rightarrow> [[c]] | x # xs \<Rightarrow> (c # x) # xs)"

definition answer :: "('a \<Rightarrow> 'v RpcBody) \<Rightarrow> StatusCode + 'a \<Rightarrow> StatusCode \<times> 'v RpcBody option" where
  "answer f r = (case r of Inl code \<Rightarrow> (code, None) | Inr x \<Rightarrow> (HTTP_OK, Some (f x)))"

text \<open>A segment for \<open>Path<u64>\<close> that does not parse is answered by axum with 400.\<close>

definition path_height :: "string \<Rightarrow> StatusCode + u64" where
  "path_height p = map_err (\<lambda>_. BAD_REQUEST) (parse_uint p)"

datatype Route =
    RouteStatus
  | RouteRaw string
  | RouteBlock string
  | RouteBlockHash string
  | RouteTransaction string
  | RouteBalance string
  | RouteNonce string
  | RouteValidator string
  | RouteDelegation string string
  | RouteTransactions

text \<open>The router; a parameter of a path stands for one segment that is not empty. Percent escapes do not occur in the paths
  the clients build and are not decoded.\<close>

definition rpc_route :: "string list \<Rightarrow> Route option" where
  "rpc_route p =
     (if [] \<in> set (tl p) then None
      else if p = [[], ''v1'', ''status''] then Some RouteStatus
      else if p = [[], ''v1'', ''transactions''] then Some RouteTransactions
      else if length p = 4 \<and> take 3 p = [[], ''v1'', ''blocks''] then Some (RouteBlock (p ! 3))
      else if length p = 4 \<and> take 3 p = [[], ''v1'', ''transactions''] then Some (RouteTransaction (p ! 3))
      else if length p = 4 \<and> take 3 p = [[], ''v1'', ''validators''] then Some (RouteValidator (p ! 3))
      else if length p = 5 \<and> take 4 p = [[], ''v1'', ''blocks'', ''raw''] then Some (RouteRaw (p ! 4))
      else if length p = 5 \<and> take 4 p = [[], ''v1'', ''blocks'', ''hash''] then Some (RouteBlockHash (p ! 4))
      else if length p = 5 \<and> take 3 p = [[], ''v1'', ''accounts''] \<and> p ! 4 = ''balance'' then Some (RouteBalance (p ! 3))
      else if length p = 5 \<and> take 3 p = [[], ''v1'', ''accounts''] \<and> p ! 4 = ''nonce'' then Some (RouteNonce (p ! 3))
      else if length p = 5 \<and> take 3 p = [[], ''v1'', ''delegations''] then Some (RouteDelegation (p ! 3) (p ! 4))
      else None)"

definition rpc_get :: "externs \<Rightarrow> 'v json_values \<Rightarrow> string list \<Rightarrow> RpcState \<Rightarrow> StatusCode \<times> 'v RpcBody option" where
  "rpc_get E J p s =
     (case rpc_route p of
        None \<Rightarrow> (NOT_FOUND, None)
      | Some RouteStatus \<Rightarrow> (HTTP_OK, Some (BodyStatus (status_handler s)))
      | Some (RouteRaw x) \<Rightarrow> answer BodyRaw (bind_result (path_height x) (\<lambda>h. block_raw_handler h s))
      | Some (RouteBlock x) \<Rightarrow> answer BodyBlock (bind_result (path_height x) (\<lambda>h. block_by_height_handler E J h s))
      | Some (RouteBlockHash x) \<Rightarrow> answer BodyBlock (block_by_hash_handler E J x s)
      | Some (RouteTransaction x) \<Rightarrow> answer BodyTransaction (transaction_handler E J x s)
      | Some (RouteBalance x) \<Rightarrow> answer BodyBalance (balance_handler E x s)
      | Some (RouteNonce x) \<Rightarrow> answer BodyNonce (nonce_handler E x s)
      | Some (RouteValidator x) \<Rightarrow> answer BodyValidator (validator_handler E x s)
      | Some (RouteDelegation x y) \<Rightarrow> answer BodyDelegation (delegation_handler E x y s)
      | Some RouteTransactions \<Rightarrow> (METHOD_NOT_ALLOWED, None))"

definition rpc_post ::
    "externs \<Rightarrow> 'v json_values \<Rightarrow> string list \<Rightarrow> SendTransactionRequest \<Rightarrow> RpcState \<Rightarrow> (StatusCode \<times> 'v RpcBody option) \<times> RpcState" where
  "rpc_post E J p request s =
     (case rpc_route p of
        None \<Rightarrow> ((NOT_FOUND, None), s)
      | Some RouteTransactions \<Rightarrow>
          (case send_transaction_handler E J request s of (r, s') \<Rightarrow> (answer BodyTransaction r, s'))
      | Some _ \<Rightarrow> ((METHOD_NOT_ALLOWED, None), s))"

section \<open>The transport\<close>

text \<open>serde\_json at the bodies the client reads, the conversions of a payload, and the printed form of a status.\<close>

record 'v wire =
  wr_print :: "'v RpcBody \<Rightarrow> bytes"
  wr_balance :: "bytes \<Rightarrow> string + BalanceResponse"
  wr_nonce :: "bytes \<Rightarrow> string + NonceResponse"
  wr_block :: "bytes \<Rightarrow> string + 'v BlockResponse"
  wr_transaction :: "bytes \<Rightarrow> string + 'v TransactionResponse"
  wr_value_block :: "'v \<Rightarrow> string + Block"
  wr_value_tx :: "'v \<Rightarrow> string + Transaction"
  wr_faucet :: "bytes \<Rightarrow> string + FaucetResponse"
  wr_status :: "StatusCode \<Rightarrow> string"

type_synonym 'w exchange = "HttpRequest \<Rightarrow> ('w, string, StatusCode \<times> bytes) action"

definition strip_base :: "string \<Rightarrow> string \<Rightarrow> string option" where
  "strip_base base url = (if take (length base) url = base then Some (drop (length base) url) else None)"

definition reply :: "'v wire \<Rightarrow> StatusCode \<times> 'v RpcBody option \<Rightarrow> StatusCode \<times> bytes" where
  "reply W r = (fst r, case snd r of None \<Rightarrow> [] | Some b \<Rightarrow> wr_print W b)"

definition rpc_exchange :: "externs \<Rightarrow> 'v json_values \<Rightarrow> 'v wire \<Rightarrow> string \<Rightarrow> RpcState exchange" where
  "rpc_exchange E J W base request s =
     (case request of
        HttpGet url \<Rightarrow>
          (case strip_base base url of
             None \<Rightarrow> (Inl ''connect'', s)
           | Some path \<Rightarrow> (Inr (reply W (rpc_get E J (split_slash path) s)), s))
      | HttpPost url body \<Rightarrow>
          (case strip_base base url of
             None \<Rightarrow> (Inl ''connect'', s)
           | Some path \<Rightarrow> (case rpc_post E J (split_slash path) body s of (r, s') \<Rightarrow> (Inr (reply W r), s'))))"

section \<open>Clients\<close>

record 'w Client =
  cl_balance :: "address \<Rightarrow> ('w, SdkError, balance) action"
  cl_nonce :: "address \<Rightarrow> ('w, SdkError, nonce) action"
  cl_block_by_height :: "u64 \<Rightarrow> ('w, SdkError, Block) action"
  cl_transaction :: "hash \<Rightarrow> ('w, SdkError, Transaction option) action"
  cl_send_transaction :: "Transaction \<Rightarrow> ('w, SdkError, hash) action"

definition default_block :: Block where
  "default_block = \<lparr>blk_header = default_header, blk_body = \<lparr>bb_transactions = []\<rparr>\<rparr>"

definition LocalClient :: "externs \<Rightarrow> balance \<Rightarrow> 'w Client" where
  "LocalClient E amount =
     \<lparr>cl_balance = (\<lambda>_. act_return amount), cl_nonce = (\<lambda>_. act_return 0),
      cl_block_by_height = (\<lambda>_. act_return default_block), cl_transaction = (\<lambda>_. act_return None),
      cl_send_transaction = (\<lambda>tx. act_return (tx_hash E tx))\<rparr>"

definition not_implemented :: SdkError where
  "not_implemented = SdkRpc ''gRPC client not implemented''"

definition GrpcClient :: "'w Client" where
  "GrpcClient =
     \<lparr>cl_balance = (\<lambda>_. act_throw not_implemented), cl_nonce = (\<lambda>_. act_throw not_implemented),
      cl_block_by_height = (\<lambda>_. act_throw not_implemented), cl_transaction = (\<lambda>_. act_throw not_implemented),
      cl_send_transaction = (\<lambda>_. act_throw not_implemented)\<rparr>"

definition trim_slashes :: "string \<Rightarrow> string" where
  "trim_slashes s = rev (dropWhile (\<lambda>c. c = CHR ''/'') (rev s))"

definition is_success :: "StatusCode \<Rightarrow> bool" where
  "is_success status \<longleftrightarrow> status \<in> {HTTP_OK, HTTP_CREATED, HTTP_NO_CONTENT}"

definition http_send :: "'w exchange \<Rightarrow> HttpRequest \<Rightarrow> ('w, SdkError, StatusCode \<times> bytes) action" where
  "http_send X request = act_map_err SdkRpc (X request)"

definition http_balance :: "externs \<Rightarrow> 'v wire \<Rightarrow> 'w exchange \<Rightarrow> string \<Rightarrow> address \<Rightarrow> ('w, SdkError, balance) action" where
  "http_balance E W X base a =
     act_bind (http_send X (HttpGet (base @ ''/v1/accounts/'' @ Address_to_string E a @ ''/balance''))) (\<lambda>(_, body).
     act_bind (act_lift (map_err SdkRpc (wr_balance W body))) (\<lambda>r. act_return (br_balance r)))"

definition http_nonce :: "externs \<Rightarrow> 'v wire \<Rightarrow> 'w exchange \<Rightarrow> string \<Rightarrow> address \<Rightarrow> ('w, SdkError, nonce) action" where
  "http_nonce E W X base a =
     act_bind (http_send X (HttpGet (base @ ''/v1/accounts/'' @ Address_to_string E a @ ''/nonce''))) (\<lambda>(_, body).
     act_bind (act_lift (map_err SdkRpc (wr_nonce W body))) (\<lambda>r. act_return (nr_nonce r)))"

definition http_block_by_height :: "'v wire \<Rightarrow> 'w exchange \<Rightarrow> string \<Rightarrow> u64 \<Rightarrow> ('w, SdkError, Block) action" where
  "http_block_by_height W X base height =
     act_bind (http_send X (HttpGet (base @ ''/v1/blocks/'' @ word_to_string height))) (\<lambda>(status, body).
     if is_success status then
       act_bind (act_lift (map_err SdkRpc (wr_block W body))) (\<lambda>r.
       act_lift (map_err SdkRpc (wr_value_block W (blr_payload r))))
     else act_throw (SdkRpc (''block not found or server error: '' @ wr_status W status)))"

definition http_transaction :: "externs \<Rightarrow> 'v wire \<Rightarrow> 'w exchange \<Rightarrow> string \<Rightarrow> hash \<Rightarrow> ('w, SdkError, Transaction option) action" where
  "http_transaction E W X base h =
     act_bind (http_send X (HttpGet (base @ ''/v1/transactions/'' @ Hash_to_string E h))) (\<lambda>(status, body).
     if is_success status then
       act_bind (act_lift (map_err SdkRpc (wr_transaction W body))) (\<lambda>r.
       act_bind (act_lift (map_err SdkRpc (wr_value_tx W (tr_payload r)))) (\<lambda>tx. act_return (Some tx)))
     else if status = NOT_FOUND then act_return None
     else act_throw (SdkRpc (''transaction query failed: '' @ wr_status W status)))"

definition http_send_transaction :: "'v wire \<Rightarrow> 'w exchange \<Rightarrow> string \<Rightarrow> Transaction \<Rightarrow> ('w, SdkError, hash) action" where
  "http_send_transaction W X base tx =
     act_bind (http_send X (HttpPost (base @ ''/v1/transactions'') \<lparr>str_transaction = tx\<rparr>)) (\<lambda>(_, body).
     act_bind (act_lift (map_err SdkRpc (wr_transaction W body))) (\<lambda>r. act_return (tr_hash r)))"

definition HttpClient :: "externs \<Rightarrow> 'v wire \<Rightarrow> 'w exchange \<Rightarrow> string \<Rightarrow> 'w Client" where
  "HttpClient E W X base_url =
     (let base = trim_slashes base_url in
      \<lparr>cl_balance = http_balance E W X base, cl_nonce = http_nonce E W X base,
       cl_block_by_height = http_block_by_height W X base, cl_transaction = http_transaction E W X base,
       cl_send_transaction = http_send_transaction W X base\<rparr>)"


text \<open>The faucet client, and the explorer and webhook clients, which are stubs in the source.\<close>

record FaucetCall =
  fq_url :: string
  fq_body :: FaucetRequest

definition faucet_client_request ::
    "externs \<Rightarrow> 'v wire \<Rightarrow> (FaucetCall \<Rightarrow> ('w, string, StatusCode \<times> bytes) action) \<Rightarrow> string \<Rightarrow> address \<Rightarrow> u128
       \<Rightarrow> ('w, SdkError, FaucetResponse) action" where
  "faucet_client_request E W X base_url a amount =
     act_bind (act_map_err SdkRpc (X \<lparr>fq_url = trim_slashes base_url @ ''/faucet/request'',
         fq_body = \<lparr>fr_address = Address_to_string E a, fr_amount = word_to_string amount\<rparr>\<rparr>)) (\<lambda>(_, body).
     act_lift (map_err SdkRpc (wr_faucet W body)))"

record ClientStatus =
  es_height :: u64
  es_transaction_count :: nat
  es_account_count :: nat

record ExplorerAccount =
  ea_address :: address
  ea_balance :: u128
  ea_nonce :: u64

definition explorer_client_status :: "SdkError + ClientStatus" where
  "explorer_client_status = Inr \<lparr>es_height = 0, es_transaction_count = 0, es_account_count = 0\<rparr>"

definition explorer_client_block_by_height :: "'v json_values \<Rightarrow> u64 \<Rightarrow> SdkError + 'v" where
  "explorer_client_block_by_height J height = Inr (value_null J)"

definition explorer_client_transaction :: "'v json_values \<Rightarrow> hash \<Rightarrow> SdkError + 'v" where
  "explorer_client_transaction J h = Inr (value_null J)"

definition explorer_client_account :: "address \<Rightarrow> SdkError + ExplorerAccount" where
  "explorer_client_account a = Inl (SdkRpc ''mock explorer client'')"

datatype ClientEventType = OnBlock | OnTransaction | OnTransactionConfirmed

record ClientSubscription =
  cs_id :: string
  cs_url :: string
  cs_events :: "ClientEventType list"
  cs_secret :: string

definition webhook_client_subscribe :: "string \<Rightarrow> ClientEventType list \<Rightarrow> SdkError + ClientSubscription" where
  "webhook_client_subscribe url events =
     Inr \<lparr>cs_id = ''mock-id'', cs_url = url, cs_events = events, cs_secret = ''mock-secret''\<rparr>"

section \<open>Commands\<close>

datatype CliError =
    CliContext string
  | CliNode NodeError
  | CliSdk SdkError
  | CliPanic panic

definition wallet_from_key_file :: "externs \<Rightarrow> 'addr files \<Rightarrow> string \<Rightarrow> disk \<Rightarrow> CliError + Wallet" where
  "wallet_from_key_file E F path d =
     bind_result (ok_or (CliContext (''failed to read key file: '' @ path)) (dk_files d path)) (\<lambda>contents.
     bind_result (map_err (\<lambda>_. CliContext (''failed to parse key file: '' @ path)) (scan_key F contents)) (\<lambda>key_file.
     bind_result (map_err CliNode (to_keypair E key_file)) (\<lambda>keypair.
     Inr (Wallet_from_keypair E keypair))))"

text \<open>What the three staking commands share: nonce, then the operation, then the signed transaction is sent.\<close>

definition cli_stake ::
    "externs \<Rightarrow> 'w Client \<Rightarrow> CliError + Wallet \<Rightarrow> CliError + StakingOperation \<Rightarrow> balance \<Rightarrow> ('w, CliError, hash) action" where
  "cli_stake E C wallet operation fee =
     act_bind (act_lift wallet) (\<lambda>w.
     act_bind (act_map_err CliSdk (cl_nonce C (w_address w))) (\<lambda>n.
     act_bind (act_lift operation) (\<lambda>x.
     act_bind (act_lift (map_err CliPanic (custom_payload E w (staking_encode E x) n fee))) (\<lambda>tx.
     act_map_err CliSdk (cl_send_transaction C tx)))))"

definition cli_register_validator ::
    "externs \<Rightarrow> 'addr files \<Rightarrow> disk \<Rightarrow> 'w Client \<Rightarrow> string \<Rightarrow> string \<Rightarrow> u16 \<Rightarrow> u128 \<Rightarrow> u128 \<Rightarrow> ('w, CliError, hash) action" where
  "cli_register_validator E F d C key_file consensus_pubkey commission_bps stake fee =
     cli_stake E C (wallet_from_key_file E F key_file d)
       (map_sum id (\<lambda>bytes. RegisterValidator bytes commission_bps stake)
         (ok_or (CliContext ''invalid consensus_pubkey hex'') (hex_decode E consensus_pubkey))) fee"

definition cli_validator :: "externs \<Rightarrow> string \<Rightarrow> CliError + address" where
  "cli_validator E validator =
     map_err (\<lambda>e. CliContext (''invalid validator address: '' @ validator @ '': '' @ e)) (Address_from_str E validator)"

definition cli_delegate ::
    "externs \<Rightarrow> 'addr files \<Rightarrow> disk \<Rightarrow> 'w Client \<Rightarrow> string \<Rightarrow> string \<Rightarrow> u128 \<Rightarrow> u128 \<Rightarrow> ('w, CliError, hash) action" where
  "cli_delegate E F d C key_file validator amount fee =
     cli_stake E C (wallet_from_key_file E F key_file d)
       (map_sum id (\<lambda>v. Delegate v amount) (cli_validator E validator)) fee"

definition cli_undelegate ::
    "externs \<Rightarrow> 'addr files \<Rightarrow> disk \<Rightarrow> 'w Client \<Rightarrow> string \<Rightarrow> string \<Rightarrow> u128 \<Rightarrow> u128 \<Rightarrow> ('w, CliError, hash) action" where
  "cli_undelegate E F d C key_file validator amount fee =
     cli_stake E C (wallet_from_key_file E F key_file d)
       (map_sum id (\<lambda>v. Undelegate v amount) (cli_validator E validator)) fee"

definition cli_init :: "externs \<Rightarrow> 'addr files \<Rightarrow> u64 \<Rightarrow> bytes32 \<Rightarrow> string \<Rightarrow> bool \<Rightarrow> (disk, CliError, unit) action" where
  "cli_init E F now rng dir validator =
     act_bind (act_map_err CliNode (node_init F now dir validator)) (\<lambda>_.
     if validator then act_bind (act_map_err CliNode (generate_and_save E F rng dir)) (\<lambda>_. act_return ())
     else act_return ())"

definition cli_start :: "externs \<Rightarrow> 'addr files \<Rightarrow> string \<Rightarrow> bool \<Rightarrow> (disk, CliError, 'addr start_mode) action" where
  "cli_start E F dir validator =
     act_map_err CliNode (if validator then start_validator E F dir else act_query (node_start E F dir))"

definition parse_entry :: "string \<Rightarrow> CliError + string \<times> string" where
  "parse_entry s =
     (let pre = takeWhile (\<lambda>c. c \<noteq> CHR ''@'') s in
      if length pre < length s then Inr (pre, drop (length pre + 1) s)
      else Inl (CliContext (''invalid validator entry: '' @ s @ '' (expected path@host:port)'')))"

fun parse_entries :: "string list \<Rightarrow> CliError + (string \<times> string) list" where
  "parse_entries [] = Inr []"
| "parse_entries (s # ss) = bind_result (parse_entry s) (\<lambda>e. bind_result (parse_entries ss) (\<lambda>es. Inr (e # es)))"

definition cli_bootstrap_network ::
    "externs \<Rightarrow> 'addr files \<Rightarrow> u64 \<Rightarrow> string \<Rightarrow> string \<Rightarrow> string list \<Rightarrow> (disk, CliError, unit) action" where
  "cli_bootstrap_network E F now output_dir chain_id specs =
     act_bind (act_lift (parse_entries specs)) (\<lambda>entries.
     act_bind (act_map_err CliNode (act_query (manifest_from_key_files E F entries))) (\<lambda>manifest.
     act_map_err CliNode (bootstrap_bft_network E F now chain_id manifest [] output_dir)))"


section \<open>The payment demo\<close>

definition FAUCET_AMOUNT :: u128 where "FAUCET_AMOUNT = 10000"

definition PAYMENT_AMOUNT :: u128 where "PAYMENT_AMOUNT = 1000"

definition TX_FEE :: u128 where "TX_FEE = 1"

definition SETTLE_TIMEOUT :: nat where "SETTLE_TIMEOUT = 30"

abbreviation with_context :: "string \<Rightarrow> ('w, SdkError, 'a) action \<Rightarrow> ('w, CliError, 'a) action" where
  "with_context msg m \<equiv> act_map_err (\<lambda>_. CliContext msg) m"

text \<open>The polling loop; the list has the elapsed seconds read at the end of each round, \<open>wait\<close> is what happens to the
  world while the client sleeps. The result is \<open>False\<close> while the loop has not ended.\<close>

fun demo_poll :: "'w Client \<Rightarrow> ('w \<Rightarrow> 'w) \<Rightarrow> address \<Rightarrow> address \<Rightarrow> balance \<Rightarrow> nat list \<Rightarrow> ('w, CliError, bool) action" where
  "demo_poll C wait payer merchant before [] = act_return False"
| "demo_poll C wait payer merchant before (seconds # rest) =
     act_bind (act_modify wait) (\<lambda>_.
     act_bind (with_context ''failed to query merchant balance'' (cl_balance C merchant)) (\<lambda>merchant_after.
     act_bind (with_context ''failed to query payer balance'' (cl_balance C payer)) (\<lambda>payer_after.
     if merchant_after \<ge> before + PAYMENT_AMOUNT then act_return True
     else if seconds > SETTLE_TIMEOUT then act_throw (CliContext ''payment settlement timeout'')
     else demo_poll C wait payer merchant before rest)))"

definition demo_pay ::
    "externs \<Rightarrow> 'w Client \<Rightarrow> ('w \<Rightarrow> 'w) \<Rightarrow> Wallet \<Rightarrow> address \<Rightarrow> nat list \<Rightarrow> ('w, CliError, bool) action" where
  "demo_pay E C wait payer merchant readings =
     act_bind (with_context ''failed to query payer balance'' (cl_balance C (w_address payer))) (\<lambda>payer_before.
     act_bind (with_context ''failed to query merchant balance'' (cl_balance C merchant)) (\<lambda>merchant_before.
     if payer_before < PAYMENT_AMOUNT + TX_FEE then
       act_throw (CliContext (''payer balance too low: have '' @ word_to_string payer_before @ '', need ''
         @ word_to_string (PAYMENT_AMOUNT + TX_FEE)))
     else
       act_bind (with_context ''failed to query payer nonce'' (cl_nonce C (w_address payer))) (\<lambda>n.
       act_bind (act_lift (map_err CliPanic (wallet_transfer E payer merchant PAYMENT_AMOUNT n TX_FEE))) (\<lambda>tx.
       act_bind (with_context ''failed to submit payment transaction'' (cl_send_transaction C tx)) (\<lambda>_.
       demo_poll C wait (w_address payer) merchant merchant_before readings)))))"

definition demo_run ::
    "externs \<Rightarrow> 'v wire \<Rightarrow> 'w Client \<Rightarrow> (FaucetCall \<Rightarrow> ('w, string, StatusCode \<times> bytes) action) \<Rightarrow> string \<Rightarrow> ('w \<Rightarrow> 'w)
       \<Rightarrow> bytes32 \<Rightarrow> bytes32 \<Rightarrow> nat list \<Rightarrow> ('w, CliError, bool) action" where
  "demo_run E W C X faucet_url wait rng1 rng2 readings =
     act_bind (act_lift (map_err (\<lambda>_. CliContext ''failed to generate payer wallet'') (Wallet_generate E rng1))) (\<lambda>payer.
     act_bind (act_lift (map_err (\<lambda>_. CliContext ''failed to generate merchant wallet'') (Wallet_generate E rng2))) (\<lambda>merchant.
     act_bind (with_context ''faucet request failed'' (faucet_client_request E W X faucet_url (w_address payer) FAUCET_AMOUNT)) (\<lambda>r.
     if \<not> fp_success r then act_throw (CliContext (''faucet request rejected: '' @ fp_message r))
     else
       act_bind (act_modify wait) (\<lambda>_.
       demo_pay E C wait payer (w_address merchant) readings))))"

section \<open>Any client\<close>

text \<open>What the commands rely on: queries do not change the world, and sending a transaction changes it by that transaction or not at all.\<close>

locale client =
  fixes C :: "'w Client" and accept :: "Transaction \<Rightarrow> 'w \<Rightarrow> 'w"
  assumes nonce_law: "snd (cl_nonce C a w) = w"
    and balance_law: "snd (cl_balance C a w) = w"
    and block_law: "snd (cl_block_by_height C h w) = w"
    and transaction_law: "snd (cl_transaction C x w) = w"
    and send_law: "snd (cl_send_transaction C tx w) \<in> {w, accept tx w}"
begin

lemma stake_changes:
  assumes "cli_stake E C wallet operation fee w = (r, w')"
  shows "w' = w \<or> (\<exists>u n x tx q. wallet = Inr u \<and> cl_nonce C (w_address u) w = (Inr n, w) \<and> operation = Inr x
    \<and> custom_payload E u (staking_encode E x) n fee = Inr tx \<and> cl_send_transaction C tx w = (q, w')
    \<and> r = map_err CliSdk q \<and> w' = accept tx w)"
proof (cases wallet)
  case (Inr u)
  obtain q where q: "cl_nonce C (w_address u) w = (q, w)" using nonce_law [of "w_address u" w] by (metis prod.collapse)
  show ?thesis
  proof (cases "\<exists>n x tx. q = Inr n \<and> operation = Inr x \<and> custom_payload E u (staking_encode E x) n fee = Inr tx")
    case True
    then obtain n x tx where n: "q = Inr n" "operation = Inr x" "custom_payload E u (staking_encode E x) n fee = Inr tx" by blast
    obtain r' w1 where send: "cl_send_transaction C tx w = (r', w1)" by fastforce
    have "r = map_err CliSdk r' \<and> w' = w1" using assms by (simp add: cli_stake_def act_run act_map_err_def Inr q n send)
    moreover have "w1 = w \<or> w1 = accept tx w" using send_law [of tx w] send by simp
    ultimately show ?thesis using Inr q n send by auto
  next
    case False
    then have "w' = w"
      using assms q Inr
      by (cases q; cases operation) (auto simp: cli_stake_def act_bind_def act_map_err_def split: sum.splits)
    then show ?thesis ..
  qed
qed (use assms in \<open>simp add: cli_stake_def act_run\<close>)

end

section \<open>The three clients\<close>

interpretation local_client: client "LocalClient E amount" "\<lambda>_ w. w" for E amount
  by unfold_locales (simp_all add: LocalClient_def)

interpretation grpc_client: client GrpcClient "\<lambda>_ w. w"
  by unfold_locales (simp_all add: GrpcClient_def)

text \<open>What a request does to the server.\<close>

abbreviation rpc_accept :: "externs \<Rightarrow> Transaction \<Rightarrow> RpcState \<Rightarrow> RpcState" where
  "rpc_accept E tx s \<equiv> rpc_submit_transaction tx (rpc_store_transaction (tx_hash E tx) tx s)"

lemma rpc_exchange_get: "snd (rpc_exchange E J W base (HttpGet url) s) = s"
  by (simp add: rpc_exchange_def split: option.split)

lemma rpc_exchange_post: "snd (rpc_exchange E J W base (HttpPost url \<lparr>str_transaction = tx\<rparr>) s) \<in> {s, rpc_accept E tx s}"
  by (auto simp: rpc_exchange_def rpc_post_def send_transaction_run split: option.splits Route.splits sum.splits
      dest: validate_transaction_hash)

lemma bind_pure_state:
  assumes "\<And>x s. snd (f x s) = s"
  shows "snd (act_bind (http_send X request) f s) = snd (X request s)"
  by (auto simp: act_bind_def http_send_def act_map_err_def assms split: prod.splits sum.splits)

lemma client_tail_state:
  "snd (act_bind (act_lift r) (\<lambda>x. act_return (g x)) s) = s" "snd (act_bind (act_lift r) (\<lambda>x. act_lift (h x)) s) = s"
  "snd (act_bind (act_lift r) (\<lambda>x. act_bind (act_lift (h x)) (\<lambda>y. act_return (k y))) s) = s"
  by (auto simp: act_run split: sum.split)

interpretation http_client: client "HttpClient E W (rpc_exchange E J W base) url" "rpc_accept E" for E W J base url
proof unfold_locales
  fix tx s
  have "snd (http_send_transaction W (rpc_exchange E J W base) (trim_slashes url) tx s) =
      snd (rpc_exchange E J W base (HttpPost (trim_slashes url @ ''/v1/transactions'') \<lparr>str_transaction = tx\<rparr>) s)"
    unfolding http_send_transaction_def by (rule bind_pure_state) (simp add: client_tail_state split: prod.split)
  then show "snd (cl_send_transaction (HttpClient E W (rpc_exchange E J W base) url) tx s) \<in> {s, rpc_accept E tx s}"
    using rpc_exchange_post by (simp add: HttpClient_def Let_def)
qed (simp_all add: HttpClient_def Let_def http_balance_def http_nonce_def http_block_by_height_def http_transaction_def
    bind_pure_state rpc_exchange_get client_tail_state split: prod.split)

section \<open>A client and a server\<close>

text \<open>What the client relies on of serde\_json: it scans what was printed, and an empty body is an error.\<close>

definition wire_ok :: "'v wire \<Rightarrow> bool" where
  "wire_ok W \<longleftrightarrow>
     (\<forall>r. wr_balance W (wr_print W (BodyBalance r)) = Inr r) \<and>
     (\<forall>r. wr_nonce W (wr_print W (BodyNonce r)) = Inr r) \<and>
     (\<forall>r. wr_transaction W (wr_print W (BodyTransaction r)) = Inr r) \<and>
     (\<exists>e. wr_transaction W [] = Inl e)"

lemma split_slash_segment [simp]:
  "CHR ''/'' \<notin> set s \<Longrightarrow> split_slash (s @ CHR ''/'' # t) = s # split_slash t"
  "CHR ''/'' \<notin> set s \<Longrightarrow> split_slash s = [s]"
  by (induction s) auto

lemma strip_base_append [simp]: "strip_base base (base @ path) = Some path"
  by (simp add: strip_base_def)

lemma address_has_no_slash: "hex_digits_ok E \<Longrightarrow> CHR ''/'' \<notin> set (Address_to_string E a)"
  using subsetD [of "set (hex_encode E (bytes_of a))" "set ''0123456789abcdef''" "CHR ''/''"]
  by (auto simp: hex_digits_ok_def Address_to_string_def)

lemma address_string_not_empty: "Address_to_string E a \<noteq> []"
  by (simp add: Address_to_string_def)

lemma account_routes:
  assumes "CHR ''/'' \<notin> set x" "x \<noteq> []"
  shows "rpc_route (split_slash (''/v1/accounts/'' @ x @ ''/nonce'')) = Some (RouteNonce x)"
    "rpc_route (split_slash (''/v1/accounts/'' @ x @ ''/balance'')) = Some (RouteBalance x)"
proof -
  have "split_slash (''/v1/accounts/'' @ x @ ''/nonce'') = [[], ''v1'', ''accounts'', x, ''nonce'']"
    "split_slash (''/v1/accounts/'' @ x @ ''/balance'') = [[], ''v1'', ''accounts'', x, ''balance'']"
    using assms by simp_all
  then show "rpc_route (split_slash (''/v1/accounts/'' @ x @ ''/nonce'')) = Some (RouteNonce x)"
    "rpc_route (split_slash (''/v1/accounts/'' @ x @ ''/balance'')) = Some (RouteBalance x)"
    using assms(2) by (simp_all only: rpc_route_def) simp_all
qed

lemma transactions_route: "rpc_route (split_slash ''/v1/transactions'') = Some RouteTransactions"
  by (simp add: rpc_route_def)

abbreviation server_client :: "externs \<Rightarrow> 'v json_values \<Rightarrow> 'v wire \<Rightarrow> string \<Rightarrow> RpcState Client" where
  "server_client E J W url \<equiv> HttpClient E W (rpc_exchange E J W (trim_slashes url)) url"

abbreviation rpc_account :: "RpcState \<Rightarrow> address \<Rightarrow> Account" where
  "rpc_account s a \<equiv> unwrap_account (rpc_get_account a s)"

lemma server_client_nonce:
  assumes "wire_ok W" "hex_ok E" "hex_digits_ok E"
  shows "cl_nonce (server_client E J W url) a s = (Inr (acc_nonce (rpc_account s a)), s)"
proof -
  have "rpc_get E J (split_slash (''/v1/accounts/'' @ Address_to_string E a @ ''/nonce'')) s =
      (HTTP_OK, Some (BodyNonce \<lparr>nr_address = a, nr_nonce = acc_nonce (rpc_account s a)\<rparr>))"
    using account_routes(1) [OF address_has_no_slash [OF assms(3)] address_string_not_empty]
    by (simp add: rpc_get_def nonce_handler_def answer_def Address_roundtrip [OF assms(2)] unwrap_account_def
        default_account_def split: option.split)
  then show ?thesis
    using assms(1)
    by (simp add: HttpClient_def Let_def http_nonce_def act_run http_send_def rpc_exchange_def reply_def wire_ok_def)
qed

lemma server_client_balance:
  assumes "wire_ok W" "hex_ok E" "hex_digits_ok E"
  shows "cl_balance (server_client E J W url) a s = (Inr (acc_balance (rpc_account s a)), s)"
proof -
  have "rpc_get E J (split_slash (''/v1/accounts/'' @ Address_to_string E a @ ''/balance'')) s =
      (HTTP_OK, Some (BodyBalance \<lparr>br_address = a, br_balance = acc_balance (rpc_account s a)\<rparr>))"
    using account_routes(2) [OF address_has_no_slash [OF assms(3)] address_string_not_empty]
    by (simp add: rpc_get_def balance_handler_def answer_def Address_roundtrip [OF assms(2)] unwrap_account_def
        default_account_def split: option.split)
  then show ?thesis
    using assms(1)
    by (simp add: HttpClient_def Let_def http_balance_def act_run http_send_def rpc_exchange_def reply_def wire_ok_def)
qed

lemma server_client_send:
  assumes "wire_ok W"
  shows "cl_send_transaction (server_client E J W url) tx s =
     (case validate_transaction E s tx of
        Inl _ \<Rightarrow> (map_err SdkRpc (Inl (projl (wr_transaction W []))), s)
      | Inr h \<Rightarrow> (Inr h, rpc_submit_transaction tx (rpc_store_transaction h tx s)))"
proof -
  have "rpc_post E J (split_slash ''/v1/transactions'') \<lparr>str_transaction = tx\<rparr> s =
      (case send_transaction_handler E J \<lparr>str_transaction = tx\<rparr> s of (r, s') \<Rightarrow> (answer BodyTransaction r, s'))"
    by (simp only: rpc_post_def transactions_route option.case Route.case)
  then show ?thesis
    using assms
    by (auto simp: HttpClient_def Let_def http_send_transaction_def act_run http_send_def rpc_exchange_def reply_def wire_ok_def
        send_transaction_run answer_def split: sum.split)
qed

section \<open>Commands against a server\<close>

lemma key_file_wallet:
  assumes "key_file_ok F (from_keypair E (keypair_of_secret E rng))" "generate_and_save E F rng dir d0 = (Inr k, d)" "hex_ok E"
  shows "wallet_from_key_file E F (path_join dir KEY_FILE_NAME) d = Inr (Wallet_from_keypair E (keypair_of_secret E rng))"
proof -
  have "key_load F dir d = Inr (from_keypair E (keypair_of_secret E rng))" using key_save_load [OF assms(1,2)] by simp
  then show ?thesis
    using assms(3)
    by (auto simp: wallet_from_key_file_def key_load_def read_to_string_def bind_result_eq_Inr to_keypair_def
        from_keypair_def hex_ok_def keypair_of_secret_def split: option.splits)
qed

lemma wallet_payload:
  assumes "dalek_ok E" "w = Wallet_from_keypair E (keypair_of_secret E rng)"
  obtains tx where "custom_payload E w payload n fee = Inr tx" "verify_signature E tx = Inr ()" "tx_sender tx = w_address w"
    "tx_amount tx = 0" "tx_nonce tx = n" "tx_fee tx = fee" "tx_payload tx = payload"
  using sign_verifies [OF assms(1), of "with_payload payload (with_fee fee (with_nonce n (with_amount 0
        (with_recipient zero32 (with_sender (w_address w) TransactionBuilder_new)))))" rng] that
  by (simp add: assms(2) custom_payload_def Wallet_from_keypair_def with_sender_def with_recipient_def with_amount_def
      with_nonce_def with_fee_def with_payload_def TransactionBuilder_new_def) blast

text \<open>A staking command whose sender is known to the server and can pay the fee.\<close>

lemma stake_command:
  assumes "wire_ok W" "hex_ok E" "hex_digits_ok E" "json_ok E" "dalek_ok E" "json_staking_op E x \<noteq> []"
    and w: "w = Wallet_from_keypair E (keypair_of_secret E rng)"
    and known: "rpc_accounts s (w_address w) = Some (lg_account L (w_address w))" and fee: "fee \<le> acc_balance (lg_account L (w_address w))"
  obtains tx where "cli_stake E (server_client E J W url) (Inr w) (Inr x) fee s = (Inr (tx_hash E tx), rpc_accept E tx s)"
    "tx_sender tx = w_address w" "tx_fee tx = fee" "spec_execute E tx L = spec_staking E tx (charge tx L)"
    "staking_decode E (tx_payload tx) = Inr x"
proof -
  let ?n = "acc_nonce (lg_account L (w_address w))"
  obtain tx where tx: "custom_payload E w (staking_encode E x) ?n fee = Inr tx" "verify_signature E tx = Inr ()"
    "tx_sender tx = w_address w" "tx_amount tx = 0" "tx_nonce tx = ?n" "tx_fee tx = fee" "tx_payload tx = staking_encode E x"
    using wallet_payload [OF assms(5) w] by blast
  have "rpc_account s (w_address w) = lg_account L (w_address w)"
    using known by (simp add: rpc_get_account_def unwrap_account_def)
  then have nonce: "cl_nonce (server_client E J W url) (w_address w) s = (Inr ?n, s)"
    using server_client_nonce [OF assms(1-3)] by simp
  have "saturating_add 0 fee = fee" by (rule word_eq_by_unat) (use unat_less_bound [of fee] in \<open>simp add: unat_saturating_add\<close>)
  then have "validate_transaction E s tx = Inr (tx_hash E tx)"
    using validate_iff [of s tx] known fee tx validate_transaction_hash [of E s tx] by (metis)
  then have "cli_stake E (server_client E J W url) (Inr w) (Inr x) fee s = (Inr (tx_hash E tx), rpc_accept E tx s)"
    using tx(1) nonce server_client_send [OF assms(1)] by (simp add: cli_stake_def act_run)
  moreover have "spec_execute E tx L = spec_staking E tx (charge tx L)"
    using tx fee by (simp add: spec_execute_def staking_encode_def not_less [symmetric])
  moreover have "staking_decode E (tx_payload tx) = Inr x"
    using assms(6) json_okD(4) [OF assms(4), of x] by (simp add: tx(7) staking_decode_def staking_encode_def)
  ultimately show ?thesis using that tx(3,6) by blast
qed

lemma charge_effects:
  assumes "tx_sender tx = a" "tx_fee tx \<le> acc_balance (lg_account L a)"
  shows "bal (charge tx L) a + unat (tx_fee tx) = bal L a" "delegated_by (charge tx L) = delegated_by L" "delegated_stake (charge tx L) = delegated_stake L"
  using assms stakes_of_val [of "charge tx L" L]
  by (simp_all add: bal_def unat_sub_exact word_le_nat_alt fun_eq_iff delegated_by_def lg_delegated_def)

lemma delegate_charged:
  assumes "ledger_ok L" "tx_sender tx = a" "tx_fee tx = fee" "lg_val L v = Some rec" "vr_status rec = Active" "MIN_DELEGATION \<le> amount"
    and "unat fee + unat amount \<le> bal L a" "spec_delegate a v amount (charge tx L) = (r, L')"
  shows "r = Inr (success 30000 ''delegated'') \<and> bal L' a + unat fee + unat amount = bal L a
    \<and> delegated_by L' a v = delegated_by L a v + unat amount \<and> delegated_stake L' v = delegated_stake L v + unat amount"
proof -
  have fee: "tx_fee tx \<le> acc_balance (lg_account L a)" using assms(3,7) by (simp add: bal_def word_le_nat_alt)
  note c = charge_effects [OF assms(2) fee]
  have "ledger_ok (charge tx L)" using charge_conserves [OF assms(1), of tx] fee assms(2) by (simp add: not_less)
  moreover have "amount \<le> acc_balance (lg_account (charge tx L) a)"
    using c(1) assms(3,7) by (simp add: bal_def word_le_nat_alt)
  ultimately show ?thesis
    using delegate_succeeds [of "charge tx L" v rec amount a] assms(3-6,8) c by auto
qed

lemma undelegate_charged:
  assumes "ledger_ok L" "tx_sender tx = a" "tx_fee tx = fee" "fee \<le> acc_balance (lg_account L a)" "lg_val L v = Some rec"
    and "lg_dlg L a v = Some dl" "amount \<le> dlg_amount dl" "spec_undelegate a v amount (charge tx L) = (r, L')"
  shows "r = Inr (success 30000 ''undelegated'') \<and> bal L' a + unat fee = bal L a + unat amount
    \<and> delegated_by L' a v + unat amount = delegated_by L a v \<and> delegated_stake L' v + unat amount = delegated_stake L v"
proof -
  note c = charge_effects [OF assms(2), of L, unfolded assms(3), OF assms(4)]
  have "ledger_ok (charge tx L)" using charge_conserves [OF assms(1), of tx] assms(2-4) by (simp add: not_less)
  then show ?thesis
    using undelegate_succeeds [of "charge tx L" v rec a dl amount] assms(5-8) c by auto
qed

text \<open>
  C16. The staking commands end to end. With the key that \<open>init --validator\<close> wrote, against a server that knows the sender's account as
  the ledger has it, and with the fee covered, \<open>delegate\<close> and \<open>undelegate\<close> read the nonce over HTTP, the server queues exactly one
  transaction and its hash is returned; the block executor then charges the fee and has the outcome the specification gives for
  that operation. When the validator is registered and active, the amount is not below the minimum and the balance covers fee and
  amount, a delegation succeeds: the sender pays both, and the sender's delegation and the validator's delegated stake grow by the amount. When
  the validator is registered and the sender's delegation to it is at least the amount, an undelegation succeeds and moves the amount back.
\<close>

theorem staking_commands_execute:
  assumes "wire_ok W" "hex_ok E" "hex_digits_ok E" "json_ok E" "dalek_ok E" "\<forall>x. json_staking_op E x \<noteq> []"
    and "key_file_ok F (from_keypair E (keypair_of_secret E rng))" "generate_and_save E F rng dir d0 = (Inr k, d)"
    and "a = hash_bytes E (kp_public (keypair_of_secret E rng))" "Address_from_str E validator = Inr v"
    and "im_ok E b" "rpc_accounts s a = Some (lg_account (im_ledger E b) a)" "fee \<le> acc_balance (lg_account (im_ledger E b) a)"
    and "ledger_ok (im_ledger E b)" "L = im_ledger E b"
  shows "(\<exists>tx r b'. cli_delegate E F d (server_client E J W url) (path_join dir KEY_FILE_NAME) validator amount fee s
              = (Inr (tx_hash E tx), rpc_accept E tx s) \<and> tx_sender tx = a \<and> tx_fee tx = fee
            \<and> block_execute E (im_backend E) tx b = (r, b')
            \<and> spec_delegate a v amount (charge tx L) = (r, im_ledger E b')
            \<and> (\<forall>rec. lg_val L v = Some rec \<and> vr_status rec = Active \<and> MIN_DELEGATION \<le> amount \<and> unat fee + unat amount \<le> bal L a \<longrightarrow>
                 r = Inr (success 30000 ''delegated'') \<and> bal (im_ledger E b') a + unat fee + unat amount = bal L a
               \<and> delegated_by (im_ledger E b') a v = delegated_by L a v + unat amount
               \<and> delegated_stake (im_ledger E b') v = delegated_stake L v + unat amount))
       \<and> (\<exists>tx r b'. cli_undelegate E F d (server_client E J W url) (path_join dir KEY_FILE_NAME) validator amount fee s
              = (Inr (tx_hash E tx), rpc_accept E tx s) \<and> tx_sender tx = a \<and> tx_fee tx = fee
            \<and> block_execute E (im_backend E) tx b = (r, b')
            \<and> spec_undelegate a v amount (charge tx L) = (r, im_ledger E b')
            \<and> (\<forall>rec dl. lg_val L v = Some rec \<and> lg_dlg L a v = Some dl \<and> amount \<le> dlg_amount dl \<longrightarrow>
                 r = Inr (success 30000 ''undelegated'') \<and> bal (im_ledger E b') a + unat fee = bal L a + unat amount
               \<and> delegated_by (im_ledger E b') a v + unat amount = delegated_by L a v
               \<and> delegated_stake (im_ledger E b') v + unat amount = delegated_stake L v))"
proof -
  define w where "w = Wallet_from_keypair E (keypair_of_secret E rng)"
  have a: "w_address w = a" by (simp add: w_def Wallet_from_keypair_def assms(9))
  have wallet: "wallet_from_key_file E F (path_join dir KEY_FILE_NAME) d = Inr w"
    unfolding w_def by (rule key_file_wallet [OF assms(7,8,2)])
  have cv: "cli_validator E validator = Inr v" by (simp add: cli_validator_def assms(10))
  have exec: "\<exists>r b'. block_execute E (im_backend E) tx b = (r, b') \<and> spec_execute E tx L = (r, im_ledger E b')" for tx
    using im_refines(1) [OF assms(4,11)] assms(15) by (metis surj_pair)
  have ok: "ledger_ok L" and fee: "fee \<le> acc_balance (lg_account L a)" using assms(13-15) by simp_all
  note stake = stake_command [OF assms(1-5) spec [OF assms(6)] w_def, unfolded a, OF assms(12,13), folded assms(15)]
  obtain tx where tx: "cli_stake E (server_client E J W url) (Inr w) (Inr (Delegate v amount)) fee s = (Inr (tx_hash E tx), rpc_accept E tx s)"
    "tx_sender tx = a" "tx_fee tx = fee" "spec_execute E tx L = spec_staking E tx (charge tx L)"
    "staking_decode E (tx_payload tx) = Inr (Delegate v amount)"
    by (rule stake)
  obtain r b' where r: "block_execute E (im_backend E) tx b = (r, b')" "spec_delegate a v amount (charge tx L) = (r, im_ledger E b')"
    using exec [of tx] tx(2,4,5) by (auto simp: spec_staking_def)
  obtain tx' where tx': "cli_stake E (server_client E J W url) (Inr w) (Inr (Undelegate v amount)) fee s = (Inr (tx_hash E tx'), rpc_accept E tx' s)"
    "tx_sender tx' = a" "tx_fee tx' = fee" "spec_execute E tx' L = spec_staking E tx' (charge tx' L)"
    "staking_decode E (tx_payload tx') = Inr (Undelegate v amount)"
    by (rule stake)
  obtain r' b'' where r': "block_execute E (im_backend E) tx' b = (r', b'')" "spec_undelegate a v amount (charge tx' L) = (r', im_ledger E b'')"
    using exec [of tx'] tx'(2,4,5) by (auto simp: spec_staking_def)
  have "cli_delegate E F d (server_client E J W url) (path_join dir KEY_FILE_NAME) validator amount fee s = (Inr (tx_hash E tx), rpc_accept E tx s)"
    "cli_undelegate E F d (server_client E J W url) (path_join dir KEY_FILE_NAME) validator amount fee s = (Inr (tx_hash E tx'), rpc_accept E tx' s)"
    using tx(1) tx'(1) by (simp_all add: cli_delegate_def cli_undelegate_def wallet cv)
  with tx(2,3) tx'(2,3) r r' delegate_charged [OF ok tx(2,3) _ _ _ _ r(2)] undelegate_charged [OF ok tx'(2,3) fee _ _ _ r'(2)]
  show ?thesis by (intro conjI exI [of _ tx] exI [of _ r] exI [of _ b'] exI [of _ tx'] exI [of _ r'] exI [of _ b'']) blast+
qed

text \<open>
  A staking command that fails changes nothing at the server unless the server had accepted its transaction; no command
  makes the server accept two.
\<close>

theorem staking_command_all_or_nothing:
  assumes "cli_stake E (server_client E J W url) wallet operation fee s = (r, s')"
  shows "s' = s \<or> (\<exists>tx. s' = rpc_accept E tx s)"
  using http_client.stake_changes [OF assms] by blast

text \<open>
  The client loses the reason of a rejection: whatever the server objects to, the client returns the error of scanning an empty body.
\<close>

theorem rejection_reason_lost:
  assumes "wire_ok W" "validate_transaction E s tx = Inl code" "validate_transaction E s' tx' = Inl code'"
  shows "\<exists>e. cl_send_transaction (server_client E J W url) tx s = (Inl (SdkRpc e), s)
           \<and> cl_send_transaction (server_client E J W url) tx' s' = (Inl (SdkRpc e), s')"
  using assms by (simp add: server_client_send)

text \<open>
  The payment demo ends: once the clock has passed the settlement timeout the polling loop returns, with success or with an
  error, whatever the client answers and whatever happens between two rounds.
\<close>

theorem demo_poll_ends:
  assumes "\<exists>seconds\<in>set readings. SETTLE_TIMEOUT < seconds"
  shows "fst (demo_poll C wait payer merchant before readings w) \<noteq> Inr False"
  using assms
proof (induction readings arbitrary: w)
  case (Cons seconds rest)
  then show ?case by (cases "SETTLE_TIMEOUT < seconds") (auto simp: act_run split: prod.split sum.split)
qed simp

section \<open>Witnesses\<close>

definition demo_print :: "unit RpcBody \<Rightarrow> bytes" where
  "demo_print b =
     (case b of
        BodyBalance r \<Rightarrow> bytes_of (br_address r) @ demo_word (br_balance r)
      | BodyNonce r \<Rightarrow> bytes_of (nr_address r) @ demo_word (nr_nonce r)
      | BodyTransaction r \<Rightarrow> bytes_of (tr_hash r) @ map (\<lambda>c. word_of_nat (of_char c)) (tr_status r)
      | _ \<Rightarrow> [])"

definition demo_wire :: "unit wire" where
  "demo_wire =
     \<lparr>wr_print = demo_print,
      wr_balance = (\<lambda>bs. Inr \<lparr>br_address = array32 (take 32 bs), br_balance = demo_unword (drop 32 bs)\<rparr>),
      wr_nonce = (\<lambda>bs. Inr \<lparr>nr_address = array32 (take 32 bs), nr_nonce = demo_unword (drop 32 bs)\<rparr>),
      wr_block = (\<lambda>_. Inl ''EOF''),
      wr_transaction = (\<lambda>bs. if bs = [] then Inl ''EOF'' else
        Inr \<lparr>tr_hash = array32 (take 32 bs), tr_status = map (\<lambda>b. char_of (unat b)) (drop 32 bs), tr_payload = ()\<rparr>),
      wr_value_block = (\<lambda>_. Inl ''null''), wr_value_tx = (\<lambda>_. Inl ''null''), wr_faucet = (\<lambda>_. Inl ''EOF''),
      wr_status = (\<lambda>_. [])\<rparr>"

lemma demo_wire_ok: "wire_ok demo_wire"
proof -
  have "bytes_of h \<noteq> []" for h using length_bytes_of [of h] by (metis list.size(3) zero_neq_numeral)
  moreover have "unat (word_of_nat (of_char c) :: u8) = of_char c" for c
    by (rule of_nat_inverse [OF refl]) simp
  ultimately show ?thesis
    by (simp add: wire_ok_def demo_wire_def demo_print_def comp_def)
qed

theorem staking_commands_execute_witness:
  "\<exists>F d tx b'. cli_delegate demo_externs (F :: unit files) d (server_client demo_externs demo_values demo_wire ''http://localhost:8080/'')
       (path_join ''x'' KEY_FILE_NAME) (Address_to_string demo_externs zero32) 200 1 demo_rpc =
       (Inr (tx_hash demo_externs tx), rpc_accept demo_externs tx demo_rpc) \<and>
     block_execute demo_externs (im_backend demo_externs) tx demo_staked = (Inr (success 30000 ''delegated''), b') \<and>
     bal (im_ledger demo_externs b') demo_address = 799 \<and> delegated_by (im_ledger demo_externs b') demo_address zero32 = 500"
proof -
  define F where "F = demo_files\<lparr>scan_key := \<lambda>_. Inr (from_keypair demo_externs (keypair_of_secret demo_externs demo_address))\<rparr>"
  have key: "key_file_ok F (from_keypair demo_externs (keypair_of_secret demo_externs demo_address))"
    by (simp add: key_file_ok_def F_def demo_files_def)
  obtain k d where d: "generate_and_save demo_externs F demo_address ''x'' demo_disk = (Inr k, d)"
    by (simp add: generate_and_save_def act_run run_create_dir fs_write_def Let_def node_generate_keypair_def
        ed25519_generate_keypair_def F_def demo_files_def demo_disk_def)
  have op: "\<forall>x. json_staking_op demo_externs x \<noteq> []"
  proof
    fix x show "json_staking_op demo_externs x \<noteq> []" by (cases x) (simp_all add: demo_externs_def)
  qed
  have a: "demo_address = hash_bytes demo_externs (kp_public (keypair_of_secret demo_externs demo_address))"
    by (simp add: keypair_of_secret_def hash_bytes_def demo_externs_def)
  let ?L = "im_ledger demo_externs demo_staked"
  note facts = demo_staked_facts
  have known: "rpc_accounts demo_rpc demo_address = Some (lg_account ?L demo_address)" "(1 :: u128) \<le> acc_balance (lg_account ?L demo_address)"
    by (simp_all only: facts) (simp_all add: demo_rpc_def rpc_set_account_def Account_new_def)
  have now: "bal ?L demo_address = 1000" by (simp add: bal_def facts(4)) (simp add: Account_new_def)
  have "delegated_by ?L demo_address zero32 = 300" using facts(6) by (auto simp: delegated_by_def lg_delegated_def)
  moreover have "lg_val ?L zero32 = Some ((ValidatorRecord_new zero32 [1] 200000000000000 0)\<lparr>vr_delegated_stake := 300\<rparr>)"
    by (simp add: facts(5))
  ultimately show ?thesis
    using staking_commands_execute [OF demo_wire_ok demo_hex_ok demo_hex_digits_ok demo_json_ok demo_dalek_ok op key d a
      Address_roundtrip [OF demo_hex_ok] facts(1) known facts(2) refl, of demo_values "''http://localhost:8080/''" zero32 200] now
    by (fastforce simp: ValidatorRecord_new_def MIN_DELEGATION_def)
qed

theorem rejection_reason_lost_witness:
  "\<exists>e. cl_send_transaction (server_client demo_externs demo_values demo_wire ''http://localhost:8080'')
         (Transaction_transfer demo_address zero32 1 0 1) RpcState_new = (Inl (SdkRpc e), RpcState_new)"
proof -
  have "validate_transaction demo_externs RpcState_new (Transaction_transfer demo_address zero32 1 0 1) = Inl BAD_REQUEST"
    by (simp add: validate_transaction_def Transaction_transfer_def)
  from rejection_reason_lost [OF demo_wire_ok this this] show ?thesis by blast
qed

theorem demo_poll_ends_witness:
  "fst (demo_poll (LocalClient demo_externs 5) (\<lambda>w. w) demo_address zero32 5 [2, 31] ()) \<noteq> Inr False"
  by (rule demo_poll_ends) (simp add: SETTLE_TIMEOUT_def)

end
