(* ===== verification/Routes.thy ===== *)
theory Routes
  imports Client Explorer Webhooks
begin

text \<open>
  The routers of src/crates/pemrix-explorer/src/service.rs, src/crates/pemrix-webhooks/src/service.rs and src/crates/pemrix-faucet/src/service.rs
  over the handlers of the theories Explorer, Webhooks and Faucet, and the faucet client of the SDK composed with the faucet through its URL.
  As in axum, a fixed segment comes before a parameter, and a path that is known for another method is answered with 405.
\<close>

section \<open>Explorer\<close>

record ExplorerService =
  exs_state :: ExplorerState
  exs_listen :: string

definition ExplorerService_new :: "string \<Rightarrow> ExplorerService" where
  "ExplorerService_new listen = \<lparr>exs_state = ExplorerState_new, exs_listen = listen\<rparr>"

datatype ExplorerBody =
    ExStatus ExplorerStatus
  | ExBlocks "Block list"
  | ExBlock Block
  | ExTransaction Transaction
  | ExAccount AccountInfo

definition explorer_answer :: "('a \<Rightarrow> ExplorerBody) \<Rightarrow> StatusCode + 'a \<Rightarrow> StatusCode \<times> ExplorerBody option" where
  "explorer_answer f r = (case r of Inl code \<Rightarrow> (code, None) | Inr x \<Rightarrow> (HTTP_OK, Some (f x)))"

definition explorer_get :: "externs \<Rightarrow> string list \<Rightarrow> ExplorerState \<Rightarrow> StatusCode \<times> ExplorerBody option" where
  "explorer_get E p s =
     (if [] \<in> set (tl p) then (NOT_FOUND, None)
      else if p = [[], ''explorer'', ''status''] then (HTTP_OK, Some (ExStatus (ex_status_handler s)))
      else if p = [[], ''explorer'', ''blocks''] then (HTTP_OK, Some (ExBlocks (ex_blocks_handler s)))
      else if length p = 4 \<and> take 3 p = [[], ''explorer'', ''blocks''] then
        explorer_answer ExBlock (bind_result (path_height (p ! 3)) (\<lambda>h. ex_block_by_height_handler h s))
      else if length p = 5 \<and> take 4 p = [[], ''explorer'', ''blocks'', ''hash''] then
        explorer_answer ExBlock (ex_block_by_hash_handler E (p ! 4) s)
      else if length p = 4 \<and> take 3 p = [[], ''explorer'', ''transactions''] then
        explorer_answer ExTransaction (ex_transaction_handler E (p ! 3) s)
      else if length p = 4 \<and> take 3 p = [[], ''explorer'', ''accounts''] then
        explorer_answer ExAccount (ex_account_handler E (p ! 3) s)
      else (NOT_FOUND, None))"

section \<open>Webhooks\<close>

record WebhookService =
  whs_state :: WebhookState
  whs_listen :: string

definition WebhookService_new :: "string \<Rightarrow> WebhookService" where
  "WebhookService_new listen = \<lparr>whs_state = WebhookState_new, whs_listen = listen\<rparr>"

datatype WebhookBody = WhSubscription SubscriptionResponse | WhList "SubscriptionResponse list"

text \<open>\<open>body\<close> is what axum's \<open>Json\<close> extractor makes of the body: the request or its own rejection.\<close>

definition webhooks_post ::
    "nat \<Rightarrow> string \<Rightarrow> string \<Rightarrow> string list \<Rightarrow> StatusCode + SubscribeRequest \<Rightarrow> WebhookState
       \<Rightarrow> (StatusCode \<times> WebhookBody option) \<times> WebhookState" where
  "webhooks_post i sid random_secret p body s =
     (if p = [[], ''webhooks'', ''subscribe''] then
        (case act_bind (act_lift body) (subscribe_handler i sid random_secret) s of
           (Inl code, s') \<Rightarrow> ((code, None), s')
         | (Inr (code, x), s') \<Rightarrow> ((code, Some (WhSubscription x)), s'))
      else if p = [[], ''webhooks''] then ((HTTP_OK, Some (WhList (list_handler s))), s)
      else if length p = 3 \<and> take 2 p = [[], ''webhooks''] \<and> p ! 2 \<noteq> [] then ((METHOD_NOT_ALLOWED, None), s)
      else ((NOT_FOUND, None), s))"

definition webhooks_delete :: "string list \<Rightarrow> WebhookState \<Rightarrow> StatusCode \<times> WebhookState" where
  "webhooks_delete p s =
     (if p = [[], ''webhooks'', ''subscribe''] \<or> p = [[], ''webhooks''] then (METHOD_NOT_ALLOWED, s)
      else if length p = 3 \<and> take 2 p = [[], ''webhooks''] \<and> p ! 2 \<noteq> [] then unsubscribe_handler (p ! 2) s
      else (NOT_FOUND, s))"

section \<open>Faucet\<close>

text \<open>\<open>print\<close> is serde\_json on the response; an early return with a bare status has an empty body.\<close>

definition faucet_post ::
    "externs \<Rightarrow> 's TransactionSubmitter \<Rightarrow> (FaucetResponse \<Rightarrow> bytes) \<Rightarrow> nat \<Rightarrow> nat \<Rightarrow> string list \<Rightarrow> FaucetRequest \<Rightarrow> 's FaucetState
       \<Rightarrow> (StatusCode \<times> bytes) \<times> 's FaucetState" where
  "faucet_post E S print now1 now2 p request s =
     (if p = [[], ''faucet'', ''request''] then
        (case request_handler E S now1 now2 request s of
           (Inl code, s') \<Rightarrow> ((code, []), s')
         | (Inr (code, r), s') \<Rightarrow> ((code, print r), s'))
      else ((NOT_FOUND, []), s))"

definition faucet_exchange ::
    "externs \<Rightarrow> 's TransactionSubmitter \<Rightarrow> (FaucetResponse \<Rightarrow> bytes) \<Rightarrow> nat \<Rightarrow> nat \<Rightarrow> string
       \<Rightarrow> FaucetCall \<Rightarrow> ('s FaucetState, string, StatusCode \<times> bytes) action" where
  "faucet_exchange E S print now1 now2 base call s =
     (case strip_base base (fq_url call) of
        None \<Rightarrow> (Inl ''connect'', s)
      | Some path \<Rightarrow>
          (case faucet_post E S print now1 now2 (split_slash path) (fq_body call) s of (r, s') \<Rightarrow> (Inr r, s')))"

section \<open>What the explorer serves\<close>

lemma slash_not_digit: "CHR ''/'' \<notin> set (word_to_string w)"
  using nat_to_string_digits [of "CHR ''/''"] by (auto simp: word_to_string_def to_digit_def)

lemma explorer_routes:
  assumes "CHR ''/'' \<notin> set x" "x \<noteq> []"
  shows "explorer_get E (split_slash (''/explorer/blocks/'' @ x)) s =
      explorer_answer ExBlock (bind_result (path_height x) (\<lambda>h. ex_block_by_height_handler h s))"
    "explorer_get E (split_slash (''/explorer/blocks/hash/'' @ x)) s = explorer_answer ExBlock (ex_block_by_hash_handler E x s)"
    "explorer_get E (split_slash (''/explorer/accounts/'' @ x)) s = explorer_answer ExAccount (ex_account_handler E x s)"
proof -
  have paths: "split_slash (''/explorer/blocks/'' @ x) = [[], ''explorer'', ''blocks'', x]"
    "split_slash (''/explorer/blocks/hash/'' @ x) = [[], ''explorer'', ''blocks'', ''hash'', x]"
    "split_slash (''/explorer/accounts/'' @ x) = [[], ''explorer'', ''accounts'', x]"
    using assms by simp_all
  show "explorer_get E (split_slash (''/explorer/blocks/'' @ x)) s =
      explorer_answer ExBlock (bind_result (path_height x) (\<lambda>h. ex_block_by_height_handler h s))"
    "explorer_get E (split_slash (''/explorer/blocks/hash/'' @ x)) s = explorer_answer ExBlock (ex_block_by_hash_handler E x s)"
    "explorer_get E (split_slash (''/explorer/accounts/'' @ x)) s = explorer_answer ExAccount (ex_account_handler E x s)"
    unfolding paths using assms(2) by (simp_all add: explorer_get_def)
qed

text \<open>
  What was ingested is served: the block of a height, the account of an address, and for an address that is not one, 400.
\<close>

theorem explorer_serves_ingested:
  assumes "hex_ok E" "hex_digits_ok E"
  shows "explorer_get E (split_slash (''/explorer/blocks/'' @ word_to_string (bh_height (blk_header b)))) (ex_ingest_block E b s) = (HTTP_OK, Some (ExBlock b))"
    "explorer_get E (split_slash (''/explorer/accounts/'' @ Address_to_string E a)) (ex_ingest_account a x s) =
       (HTTP_OK, Some (ExAccount \<lparr>ai_address = a, ai_balance = acc_balance x, ai_nonce = acc_nonce x\<rparr>))"
    "CHR ''/'' \<notin> set y \<Longrightarrow> y \<noteq> [] \<Longrightarrow> Address_from_str E y = Inl e \<Longrightarrow>
       explorer_get E (split_slash (''/explorer/accounts/'' @ y)) s = (BAD_REQUEST, None)"
proof -
  have "word_to_string h \<noteq> []" for h :: u64 by (simp add: word_to_string_def)
  from explorer_routes(1) [OF slash_not_digit this] show
    "explorer_get E (split_slash (''/explorer/blocks/'' @ word_to_string (bh_height (blk_header b)))) (ex_ingest_block E b s) = (HTTP_OK, Some (ExBlock b))"
    by (simp add: explorer_answer_def path_height_def ex_block_by_height_handler_def ex_block_by_height_def ex_ingest_block_def Let_def)
  show "explorer_get E (split_slash (''/explorer/accounts/'' @ Address_to_string E a)) (ex_ingest_account a x s) =
       (HTTP_OK, Some (ExAccount \<lparr>ai_address = a, ai_balance = acc_balance x, ai_nonce = acc_nonce x\<rparr>))"
    using explorer_routes(3) [OF address_has_no_slash [OF assms(2)] address_string_not_empty]
    by (simp add: explorer_answer_def ex_account_handler_def ex_account_def ex_ingest_account_def Address_roundtrip [OF assms(1)])
  show "CHR ''/'' \<notin> set y \<Longrightarrow> y \<noteq> [] \<Longrightarrow> Address_from_str E y = Inl e \<Longrightarrow>
       explorer_get E (split_slash (''/explorer/accounts/'' @ y)) s = (BAD_REQUEST, None)"
    using explorer_routes(3) by (simp add: explorer_answer_def ex_account_handler_def)
qed

section \<open>A subscription from its creation to its end\<close>

lemma webhook_routes:
  assumes "CHR ''/'' \<notin> set sid" "sid \<noteq> []" "sid \<noteq> ''subscribe''"
  shows "webhooks_delete (split_slash (''/webhooks/'' @ sid)) s = unsubscribe_handler sid s"
    "webhooks_post i x y (split_slash ''/webhooks'') r s = ((HTTP_OK, Some (WhList (list_handler s))), s)"
proof -
  have "split_slash (''/webhooks/'' @ sid) = [[], ''webhooks'', sid]" using assms(1) by simp
  then show "webhooks_delete (split_slash (''/webhooks/'' @ sid)) s = unsubscribe_handler sid s"
    using assms(2,3) by (simp add: webhooks_delete_def)
qed (simp add: webhooks_post_def)

text \<open>
  A new subscription is answered 201 with its id and secret, is in the list, and can be deleted by its id; afterwards the list is as before, and
  a second deletion answers 404.
\<close>

theorem subscription_lifecycle:
  assumes "sid \<notin> fst ` set (wh_subscriptions s)" "CHR ''/'' \<notin> set sid" "sid \<noteq> []" "sid \<noteq> ''subscribe''"
    and "webhooks_post i sid rnd (split_slash ''/webhooks/subscribe'') (Inr request) s = (r, s1)"
    and "webhooks_delete (split_slash (''/webhooks/'' @ sid)) s1 = (code, s2)"
  shows "\<exists>x subs. r = (HTTP_CREATED, Some (WhSubscription x)) \<and> sre_id x = sid \<and> sre_url x = sr_url request
       \<and> webhooks_post j y z (split_slash ''/webhooks'') body s1 = ((HTTP_OK, Some (WhList subs)), s1) \<and> x \<in> set subs
       \<and> code = HTTP_NO_CONTENT \<and> wh_subscriptions s2 = wh_subscriptions s
       \<and> webhooks_delete (split_slash (''/webhooks/'' @ sid)) s2 = (NOT_FOUND, s2)"
proof -
  define sub where "sub = WebhookSubscription_new sid (sr_url request) (remdups (sr_events request))
    (case sr_secret request of None \<Rightarrow> rnd | Some k \<Rightarrow> k)"
  have sub: "ws_id sub = sid" "ws_url sub = sr_url request" "ws_active sub" by (simp_all add: sub_def WebhookSubscription_new_def)
  have s1: "wh_subscriptions s1 = take i (wh_subscriptions s) @ (sid, sub) # drop i (wh_subscriptions s)"
    and r: "r = (HTTP_CREATED, Some (WhSubscription (SubscriptionResponse_from sub)))"
    using assms(1,5) sub(1) by (auto simp: webhooks_post_def act_run subscribe_handler_def Let_def subscribe_def sub_def [symmetric])
  have others: "filter (\<lambda>(k, _). k \<noteq> sid) xs = xs" if "set xs \<subseteq> set (wh_subscriptions s)" for xs
    using assms(1) that by (auto simp: filter_id_conv image_iff dest!: subsetD)
  have s2: "code = HTTP_NO_CONTENT" "wh_subscriptions s2 = wh_subscriptions s"
    using assms(6) [unfolded webhook_routes(1) [OF assms(2-4)]] s1 others [OF set_take_subset] others [OF set_drop_subset]
    by (auto simp: unsubscribe_handler_def unsubscribe_def map_of_eq_None_iff split: if_splits)
  then have "webhooks_delete (split_slash (''/webhooks/'' @ sid)) s2 = (NOT_FOUND, s2)"
    unfolding webhook_routes(1) [OF assms(2-4)] using assms(1) others [of "wh_subscriptions s"]
    by (auto simp: unsubscribe_handler_def unsubscribe_def map_of_eq_None_iff)
  moreover have "SubscriptionResponse_from sub \<in> set (list_handler s1)"
    using s1 sub(3) by (auto simp: list_handler_def list_active_def)
  ultimately show ?thesis
    unfolding webhook_routes(2) [OF assms(2-4)] using r s2 sub
    by (intro exI [of _ "SubscriptionResponse_from sub"] exI [of _ "list_handler s1"]) (simp add: SubscriptionResponse_from_def)
qed

section \<open>The faucet through its client\<close>

lemma faucet_served:
  assumes "dalek_ok E" "fs_keypair s = keypair_of_secret E sk" "faucet_admit E now1 request s = Inr (a, amount)"
  shows "\<exists>r s'. request_handler E (LocalSubmitter E f) now1 now2 request s = (Inr (HTTP_OK, r), s') \<and> fp_success r"
proof -
  define tx where "tx = (Transaction_transfer (fs_address s) a amount (sub_nonce (LocalSubmitter E f) (fs_address s) (fs_backend s)) 0)
    \<lparr>tx_public_key := kp_public (fs_keypair s)\<rparr>"
  obtain sig where "ed25519_sign E (kp_secret (fs_keypair s)) (bytes_of (signing_hash E tx)) = Inr sig"
    using ed25519_sign_verify [OF assms(1), of sk "bytes_of (signing_hash E tx)"] assms(2) by (auto simp: keypair_of_secret_def)
  then show ?thesis
    using assms(3) by (auto simp: request_handler_def faucet_send_def Let_def tx_def LocalSubmitter_def local_submit_def act_run)
qed

text \<open>
  C33. The faucet end to end. A client that asks the faucet over HTTP for an amount within the limit, for an address that is not on cooldown,
  is told that it succeeded, and exactly one transaction is queued at the node: a signed transfer of that amount from the faucet's account to that
  address, whatever the address and the amount are.
\<close>

theorem faucet_client_granted:
  assumes "hex_ok E" "dalek_ok E" "\<forall>r. wr_faucet W (print r) = Inr r"
    and "fs_keypair s = keypair_of_secret E sk" "fs_address s = hash_bytes E (kp_public (fs_keypair s))"
    and "amount \<le> fc_max_amount (fs_config s)"
    and "\<forall>t. fs_cooldowns s a = Some t \<longrightarrow> from_secs (fc_cooldown_seconds (fs_config s)) \<le> elapsed now1 t"
  shows "\<exists>r s' tx. faucet_client_request E W (faucet_exchange E (LocalSubmitter E f) print now1 now2 (trim_slashes base_url)) base_url a amount s = (Inr r, s')
       \<and> fp_success r \<and> rpc_pending (fs_backend s') = rpc_pending (fs_backend s) @ [tx] \<and> verify_signature E tx = Inr ()
       \<and> tx_sender tx = fs_address s \<and> tx_recipient tx = a \<and> tx_amount tx = amount \<and> tx_fee tx = 0
       \<and> tx_nonce tx = local_nonce f (fs_address s) (fs_backend s)"
proof -
  let ?req = "\<lparr>fr_address = Address_to_string E a, fr_amount = word_to_string amount\<rparr>"
  have "faucet_admit E now1 ?req s = Inr (a, amount)"
    using assms(6,7) by (auto simp: faucet_admit_def Address_roundtrip [OF assms(1)] split: option.split)
  then obtain r s' where r: "request_handler E (LocalSubmitter E f) now1 now2 ?req s = (Inr (HTTP_OK, r), s')" "fp_success r"
    using faucet_served [OF assms(2,4)] by blast
  from faucet_grant [OF r(1) assms(2,4,5)] obtain tx where tx: "rpc_pending (fs_backend s') = rpc_pending (fs_backend s) @ [tx]"
    "verify_signature E tx = Inr ()" "tx_sender tx = fs_address s" "tx_recipient tx = a" "tx_amount tx = amount"
    "tx_nonce tx = local_nonce f (fs_address s) (fs_backend s)" "tx_fee tx = 0"
    by (auto simp: Address_roundtrip [OF assms(1)])
  have "faucet_post E (LocalSubmitter E f) print now1 now2 (split_slash ''/faucet/request'') ?req s = ((HTTP_OK, print r), s')"
    using r(1) by (simp add: faucet_post_def)
  then have "faucet_client_request E W (faucet_exchange E (LocalSubmitter E f) print now1 now2 (trim_slashes base_url)) base_url a amount s = (Inr r, s')"
    using assms(3) by (simp add: faucet_client_request_def faucet_exchange_def act_run del: split_slash.simps)
  with r(2) tx show ?thesis by blast
qed

section \<open>Witnesses\<close>

text \<open>A concrete printed form: a flag, the characters of the hash each after a 1, a 0, and the message.\<close>

definition char_byte :: "char \<Rightarrow> u8" where
  "char_byte c = word_of_nat (of_char c)"

fun pack :: "string \<Rightarrow> bytes \<Rightarrow> bytes" where
  "pack [] bs = 0 # bs"
| "pack (c # cs) bs = 1 # char_byte c # pack cs bs"

fun unpack :: "bytes \<Rightarrow> string \<times> bytes" where
  "unpack (k # bs) = (if k = 0 then ([], bs) else case bs of [] \<Rightarrow> ([], []) | c # bs' \<Rightarrow> map_prod ((#) (char_of (unat c))) id (unpack bs'))"
| "unpack [] = ([], [])"

definition demo_print_faucet :: "FaucetResponse \<Rightarrow> bytes" where
  "demo_print_faucet r = of_bool (fp_success r) # pack (fp_tx_hash r) (map char_byte (fp_message r))"

definition demo_faucet_wire :: "unit wire" where
  "demo_faucet_wire = demo_wire\<lparr>wr_faucet := (\<lambda>bs. case bs of [] \<Rightarrow> Inl ''EOF''
     | k # bs' \<Rightarrow> (case unpack bs' of (h, m) \<Rightarrow> Inr \<lparr>fp_success = (k = 1), fp_tx_hash = h, fp_message = map (\<lambda>c. char_of (unat c)) m\<rparr>))\<rparr>"

lemma unpack_pack: "unpack (pack cs bs) = (cs, bs)" "map ((\<lambda>c. char_of (unat c)) \<circ> char_byte) cs = cs"
proof -
  have byte: "char_of (unat (char_byte c)) = c" for c
  proof -
    have "unat (char_byte c) = of_char c" unfolding char_byte_def by (rule of_nat_inverse [OF refl]) simp
    then show ?thesis by simp
  qed
  show "unpack (pack cs bs) = (cs, bs)" by (induction cs) (simp_all add: byte)
  show "map ((\<lambda>c. char_of (unat c)) \<circ> char_byte) cs = cs" by (induction cs) (simp_all add: byte)
qed

lemma demo_faucet_reads: "wr_faucet demo_faucet_wire (demo_print_faucet r) = Inr r"
  by (cases r) (simp add: demo_faucet_wire_def demo_print_faucet_def unpack_pack)

theorem faucet_client_granted_witness:
  "\<exists>r s' tx. faucet_client_request demo_externs demo_faucet_wire
       (faucet_exchange demo_externs demo_submitter demo_print_faucet 0 1 (trim_slashes ''http://localhost:8082/'')) ''http://localhost:8082/'' zero32 100 demo_faucet = (Inr r, s')
     \<and> fp_success r \<and> rpc_pending (fs_backend s') = rpc_pending (fs_backend demo_faucet) @ [tx] \<and> tx_recipient tx = zero32 \<and> tx_amount tx = 100"
proof -
  have "\<forall>r. wr_faucet demo_faucet_wire (demo_print_faucet r) = Inr r" using demo_faucet_reads by blast
  moreover have "(100 :: u128) \<le> fc_max_amount (fs_config demo_faucet)" "fs_cooldowns demo_faucet a = None" for a
    by (simp_all add: demo_faucet_def FaucetService_new_def default_faucet_config_def)
  ultimately show ?thesis
    using faucet_client_granted [OF demo_hex_ok demo_dalek_ok _ demo_faucet_key, of demo_faucet_wire demo_print_faucet 100 zero32 0] by fastforce
qed

end
