(* ===== verification/Dialer.thy ===== *)
theory Dialer
  imports Network
begin

text \<open>
  Model of the dialing task of \<open>TcpTransport::new\<close> in src/crates/pemrix-network/src/tcp.rs: every two seconds it collects the
  bootstrap peers that are neither connected nor being dialed, and spawns one task per peer that connects, runs the connection
  and, at its end, takes the peer out of the set of dials in flight. The tasks run between any two critical sections of
  the loop, so that the steps are those sections.
\<close>

record 'addr Dialer =
  dl_local_id :: PeerId
  dl_transport :: TcpTransport
  dl_bootstrap :: "(PeerId, 'addr) omap"
  dl_dialing :: "PeerId oset"
  dl_pending :: "(PeerId \<times> 'addr) list"
  dl_tasks :: "PeerId list"

definition Dialer_new :: "PeerId \<Rightarrow> (PeerId, 'addr) omap \<Rightarrow> 'addr Dialer" where
  "Dialer_new local_id bootstrap =
     \<lparr>dl_local_id = local_id, dl_transport = TcpTransport_new local_id, dl_bootstrap = bootstrap, dl_dialing = om_empty,
      dl_pending = [], dl_tasks = []\<rparr>"

text \<open>The start of a pass, the body of its loop, and the end of a dial.\<close>

definition dial_collect :: "'addr Dialer \<Rightarrow> 'addr Dialer" where
  "dial_collect d =
     d\<lparr>dl_pending := pending_dials (dl_local_id d) (tcp_peers (dl_transport d)) (dl_dialing d) (dl_bootstrap d)\<rparr>"

fun dial_spawn :: "(PeerId \<times> 'addr) list \<Rightarrow> 'addr Dialer \<Rightarrow> 'addr Dialer" where
  "dial_spawn [] d = d"
| "dial_spawn ((peer_id, _) # rest) d =
     d\<lparr>dl_dialing := os_insert peer_id (dl_dialing d), dl_tasks := dl_tasks d @ [peer_id], dl_pending := rest\<rparr>"

definition dial_end :: "PeerId \<Rightarrow> 'addr Dialer \<Rightarrow> 'addr Dialer" where
  "dial_end peer_id d =
     d\<lparr>dl_dialing := om_remove peer_id (dl_dialing d), dl_tasks := remove1 peer_id (dl_tasks d)\<rparr>"

inductive dial_step :: "message_codec \<Rightarrow> 'addr Dialer \<Rightarrow> 'addr Dialer \<Rightarrow> bool" for M where
  ds_collect: "dl_pending d = [] \<Longrightarrow> dial_step M d (dial_collect d)"
| ds_spawn: "dl_pending d \<noteq> [] \<Longrightarrow> dial_step M d (dial_spawn (dl_pending d) d)"
| ds_end: "p \<in> set (dl_tasks d) \<Longrightarrow> dial_step M d (dial_end p d)"
| ds_network: "tcp_step M (dl_transport d) t \<Longrightarrow> dial_step M d (d\<lparr>dl_transport := t\<rparr>)"

section \<open>At most one dial per peer\<close>

definition dial_ok :: "PeerId \<Rightarrow> (PeerId, 'addr) omap \<Rightarrow> 'addr Dialer \<Rightarrow> bool" where
  "dial_ok local_id bootstrap d \<longleftrightarrow>
     dl_local_id d = local_id \<and> dl_bootstrap d = bootstrap \<and>
     distinct (dl_tasks d @ map fst (dl_pending d)) \<and> (\<forall>p. os_member (dl_dialing d) p \<longleftrightarrow> p \<in> set (dl_tasks d)) \<and>
     (\<forall>p\<in>set (dl_tasks d @ map fst (dl_pending d)). p \<noteq> local_id \<and> om_contains bootstrap p)"

lemma os_member_remove [simp]: "os_member (om_remove k s) j \<longleftrightarrow> j \<noteq> k \<and> os_member s j"
  by (simp add: os_member_def om_contains_def)

lemma pending_dials_member:
  "p \<in> fst ` set (pending_dials i c d b) \<longleftrightarrow> p \<noteq> i \<and> \<not> om_contains c p \<and> \<not> os_member d p \<and> om_contains b p"
  by (force simp: pending_dials_def om_contains_iff om_keys_def)

lemma pending_dials_distinct: "distinct (map fst (pending_dials i c d b))"
  using om_keys_distinct [of b] by (simp add: pending_dials_def om_keys_def distinct_map_filter)

lemma dial_step_ok: "dial_step M d d' \<Longrightarrow> dial_ok i b d \<Longrightarrow> dial_ok i b d'"
proof (induction rule: dial_step.induct)
  case (ds_collect d)
  then show ?case
    using pending_dials_member [of _ i "tcp_peers (dl_transport d)" "dl_dialing d" b]
      pending_dials_distinct [of i "tcp_peers (dl_transport d)" "dl_dialing d" b]
    by (auto simp: dial_ok_def dial_collect_def)
next
  case (ds_spawn d)
  then obtain p x rest where "dl_pending d = (p, x) # rest" by (metis list.exhaust surj_pair)
  with ds_spawn show ?case by (auto simp: dial_ok_def)
next
  case (ds_end p d)
  then show ?case by (auto simp: dial_ok_def dial_end_def)
qed (simp add: dial_ok_def)

lemma dial_run_ok: "(dial_step M)\<^sup>*\<^sup>* d d' \<Longrightarrow> dial_ok i b d \<Longrightarrow> dial_ok i b d'"
  by (induction rule: rtranclp_induct) (auto dest: dial_step_ok)

lemma spawn_all:
  assumes "dl_pending d = ps"
  shows "\<exists>d'. (dial_step M)\<^sup>*\<^sup>* d d' \<and> dl_pending d' = [] \<and> dl_tasks d' = dl_tasks d @ map fst ps
    \<and> dl_transport d' = dl_transport d"
  using assms
proof (induction ps arbitrary: d)
  case (Cons x ps)
  obtain p a where x: "x = (p, a)" by fastforce
  have "dial_step M d (dial_spawn (dl_pending d) d)" by (rule dial_step.ds_spawn) (simp add: Cons.prems)
  moreover have "dl_pending (dial_spawn (dl_pending d) d) = ps" "dl_tasks (dial_spawn (dl_pending d) d) = dl_tasks d @ [p]"
    "dl_transport (dial_spawn (dl_pending d) d) = dl_transport d"
    by (simp_all add: Cons.prems x)
  moreover from Cons.IH [OF this(1)] this obtain d' where "(dial_step M)\<^sup>*\<^sup>* (dial_spawn (dl_pending d) d) d'" "dl_pending d' = []"
    "dl_tasks d' = dl_tasks d @ p # map fst ps" "dl_transport d' = dl_transport d" by auto
  ultimately show ?case using x by (metis converse_rtranclp_into_rtranclp list.simps(9) fst_conv)
qed auto

text \<open>
  C27. Dialing: in every interleaving of the retry loop, the dial tasks and the network, a bootstrap peer has at
  most one dial in flight and the node never dials itself; and from every state between two passes the loop can
  finish a pass after which each other bootstrap peer is connected or being dialed.
\<close>

theorem one_dial_per_peer:
  assumes "(dial_step M)\<^sup>*\<^sup>* (Dialer_new local_id bootstrap) d"
  shows "distinct (dl_tasks d) \<and> (\<forall>p\<in>set (dl_tasks d). p \<noteq> local_id \<and> om_contains bootstrap p)
       \<and> (dl_pending d = [] \<longrightarrow> (\<exists>d'. (dial_step M)\<^sup>*\<^sup>* d d' \<and> dl_transport d' = dl_transport d \<and> dl_pending d' = []
            \<and> (\<forall>p. om_contains bootstrap p \<and> p \<noteq> local_id \<longrightarrow>
                 om_contains (tcp_peers (dl_transport d')) p \<or> p \<in> set (dl_tasks d'))))"
proof -
  have ok: "dial_ok local_id bootstrap d"
    by (rule dial_run_ok [OF assms]) (simp add: dial_ok_def Dialer_new_def)
  have "\<exists>d'. (dial_step M)\<^sup>*\<^sup>* d d' \<and> dl_transport d' = dl_transport d \<and> dl_pending d' = []
      \<and> (\<forall>p. om_contains bootstrap p \<and> p \<noteq> local_id \<longrightarrow> om_contains (tcp_peers (dl_transport d')) p \<or> p \<in> set (dl_tasks d'))"
    if idle: "dl_pending d = []"
  proof -
    obtain d' where d': "(dial_step M)\<^sup>*\<^sup>* (dial_collect d) d'" "dl_pending d' = []"
      "dl_tasks d' = dl_tasks d @ map fst (dl_pending (dial_collect d))" "dl_transport d' = dl_transport d"
      using spawn_all [OF refl, of M "dial_collect d"] by (auto simp: dial_collect_def)
    have "(dial_step M)\<^sup>*\<^sup>* d d'"
      using dial_step.ds_collect [OF idle] d'(1) by (rule converse_rtranclp_into_rtranclp)
    moreover have "om_contains (tcp_peers (dl_transport d')) p \<or> p \<in> set (dl_tasks d')"
      if "om_contains bootstrap p" "p \<noteq> local_id" for p
      using that ok pending_dials_member [of p local_id "tcp_peers (dl_transport d)" "dl_dialing d" bootstrap]
      by (auto simp: d'(3,4) dial_ok_def dial_collect_def)
    ultimately show ?thesis using d'(2,4) by blast
  qed
  then show ?thesis using ok by (auto simp: dial_ok_def)
qed

theorem one_dial_per_peer_witness:
  "\<exists>d'. (dial_step demo_codec)\<^sup>*\<^sup>* (Dialer_new (demo_peer 1) (om_insert (demo_peer 2) () om_empty)) d'
     \<and> (om_contains (tcp_peers (dl_transport d')) (demo_peer 2) \<or> demo_peer 2 \<in> set (dl_tasks d'))"
proof -
  have "demo_peer 2 \<noteq> demo_peer 1" using demo_peer_less by simp
  moreover have "om_contains (om_insert (demo_peer 2) () om_empty) (demo_peer 2)" by (simp add: om_contains_def)
  moreover have "dl_pending (Dialer_new (demo_peer 1) (om_insert (demo_peer 2) () om_empty)) = []" by (simp add: Dialer_new_def)
  ultimately show ?thesis
    using one_dial_per_peer [where M = demo_codec, OF rtranclp.rtrancl_refl, of "demo_peer 1" "om_insert (demo_peer 2) () om_empty"] by blast
qed

end
