(* ===== verification/Startup.thy ===== *)
theory Startup
  imports Node
begin

text \<open>
  The state a validator starts from, for the default build, which keeps its state in a RocksDB database in the data directory
  (\<open>open_state_store\<close> and \<open>run_bft_validator\<close> in src/node/pemrix-node/src/node.rs): on a fresh database it is the state the genesis block
  commits to; on one with earlier state the allocations are written over it.
\<close>

section \<open>Seeding a store\<close>

context state_backend
begin

lemma seed_law:
  assumes "inv s"
  shows "\<exists>s'. seed_accounts B xs s = (Inr (), s') \<and> inv s' \<and> acct s' = acct s ++ map_of (rev xs) \<and> raw s' = raw s"
  using assms
proof (induction xs arbitrary: s)
  case (Cons p xs)
  obtain a x where p: "p = (a, x)" by fastforce
  note put = run_put_account [OF Cons.prems, of a x]
  from Cons.IH [OF put(2)] show ?case
    using put by (auto simp: p act_run set_account_def map_add_def fun_eq_iff split: option.split)
qed simp

end

lemma map_of_entries: "map_of (rev (om_entries m)) = om_get m"
proof -
  have "distinct (map fst (om_entries m))" using om_keys_distinct [of m] by (simp add: om_keys_def)
  then show ?thesis by (simp add: om_get_def map_of_inject_set rev_map [symmetric])
qed

lemma seed_rocks:
  assumes "json_ok E" "rocksdb_ok R db" "rocks_ok E db d"
  obtains d' where "seed_accounts (rocks_backend E R) (om_entries m) d = (Inr (), d')" "rocks_ok E db d'"
    "rocks_acct E db d' = rocks_acct E db d ++ om_get m" "rocks_raw db d' = rocks_raw db d"
  using state_backend.seed_law [OF rocks_state_backend [OF assms(1,2)], of d "om_entries m"] assms(3) that
  by (auto simp: rocks_ok_def map_of_entries)

definition fresh_database :: "externs \<Rightarrow> ('d \<Rightarrow> (bytes, bytes) omap) \<Rightarrow> 'd \<Rightarrow> bool" where
  "fresh_database E db d \<longleftrightarrow> rocks_acct E db d = Map.empty \<and> rocks_raw db d = Map.empty"

lemma fresh_seed_root:
  assumes "json_ok E" "hex_ok E" "rocksdb_ok R db" "rocks_ok E db d'" "rocks_acct E db d' = om_get m" "rocks_raw db d' = Map.empty"
    and "im_accounts s = m" "im_raw s = om_empty"
  shows "store_state_root (rocks_backend E R) d' = store_state_root (im_backend E) s"
proof -
  note law = rocks_state_backend [OF assms(1,3)]
  have inv: "rocks_inv E db d'" "im_inv s" using assms(4,8) by (simp_all add: rocks_ok_def im_inv_def)
  show ?thesis
    using state_backend.store_get_account_law [OF law inv(1)] state_backend.get_raw_law [OF law inv(1)]
      im.store_get_account_law [OF inv(2), of E] im.get_raw_law [OF inv(2), of _ E] assms(5-8)
    by (intro same_state_root [OF assms(1-3) inv]) simp_all
qed

section \<open>The start of a validator\<close>

lemma seed_rpc_accounts: "rpc_accounts (seed_rpc m s) = rpc_accounts s ++ om_get m"
proof -
  have "rpc_accounts (fold (\<lambda>(a, x). rpc_set_account a x) xs s) = rpc_accounts s ++ map_of (rev xs)" for xs
    by (induction xs arbitrary: s) (auto simp: rpc_set_account_def map_add_def fun_eq_iff split: option.split)
  then show ?thesis by (simp add: seed_rpc_def map_of_entries)
qed

lemma genesis_block_exists: "\<exists>b. genesis_block E g = Inr b"
proof -
  obtain s where "seed_accounts (im_backend E) (om_entries (gc_allocations g)) InMemoryBackend_new = (Inr (), s)"
    using seed_entries_im by blast
  then show ?thesis by (simp add: genesis_block_def store_state_root_def im_backend_def im_state_root_def)
qed

text \<open>
  C28. Where a validator starts. A validator that comes up on its RocksDB database has an engine at height 0 whose tip is the hash of the genesis
  block; in its store the accounts with an allocation are as allocated, the other accounts and all validator and delegation records are as
  the database had them. When the database is fresh and the allocations fit a balance, the root of the store, which RocksDB computes
  from its own keys, is the state root in the genesis block, the value of the ledger is the sum of the allocations, the invariant
  of the conservation theorem holds, and the RPC state has the same accounts.
\<close>

theorem validator_starts_at_genesis:
  assumes "json_ok E" "hex_ok E" "rocksdb_ok R db" "rocks_ok E db d"
    and "run_bft_validator E (rocks_backend E R) F bind_ok d config g = Inr (Inr n)"
    and "d' = bft_state (vn_consensus n)" "L = rocks_ledger E db d" "L' = rocks_ledger E db d'"
  shows "\<exists>b. genesis_block E g = Inr b \<and> bft_height (vn_consensus n) = 0 \<and> bft_previous_hash (vn_consensus n) = block_hash E b
       \<and> lg_acct L' = lg_acct L ++ om_get (gc_allocations g) \<and> lg_val L' = lg_val L \<and> lg_dlg L' = lg_dlg L
       \<and> (fresh_database E db d \<and> sum_list (map (unat \<circ> acc_balance) (om_values (gc_allocations g))) < 2 ^ 128 \<longrightarrow>
            store_state_root (rocks_backend E R) d' = Inr (bh_state_root (blk_header b)) \<and> ledger_ok L'
          \<and> wealth L' = sum_list (map (unat \<circ> acc_balance) (om_values (gc_allocations g)))
          \<and> rpc_accounts (vn_rpc_state n) = lg_acct L')"
proof -
  let ?m = "gc_allocations g"
  obtain b where b: "genesis_block E g = Inr b" and c: "bft_height (vn_consensus n) = 0" "bft_previous_hash (vn_consensus n) = block_hash E b"
    and n: "bft_state (vn_consensus n) = snd (seed_accounts (rocks_backend E R) (om_entries ?m) d)" "vn_rpc_state n = seed_rpc ?m RpcState_new"
    using assms(5) unfolding run_bft_validator_def Let_def
    by (auto simp: bind_result_eq_Inr Bft_new_with_store_def split: if_splits sum.splits prod.splits)
  obtain d1 where d1: "seed_accounts (rocks_backend E R) (om_entries ?m) d = (Inr (), d1)" "rocks_ok E db d1"
    "rocks_acct E db d1 = rocks_acct E db d ++ om_get ?m" "rocks_raw db d1 = rocks_raw db d"
    by (rule seed_rocks [OF assms(1,3,4)])
  then have d': "d' = d1" using assms(6) by (simp add: n)
  obtain s where s: "seed_accounts (im_backend E) (om_entries ?m) InMemoryBackend_new = (Inr (), s)" "im_accounts s = ?m" "im_raw s = om_empty"
    using seed_entries_im by blast
  have root: "store_state_root (im_backend E) s = Inr (bh_state_root (blk_header b))"
    using b s(1) by (auto simp: genesis_block_def bind_result_eq_Inr map_err_eq_Inr)
  have "store_state_root (rocks_backend E R) d' = Inr (bh_state_root (blk_header b)) \<and> ledger_ok L'
      \<and> wealth L' = sum_list (map (unat \<circ> acc_balance) (om_values ?m)) \<and> rpc_accounts (vn_rpc_state n) = lg_acct L'"
    if fresh: "fresh_database E db d" and fits: "sum_list (map (unat \<circ> acc_balance) (om_values ?m)) < 2 ^ 128"
  proof -
    have view: "rocks_acct E db d1 = om_get ?m" "rocks_raw db d1 = Map.empty" using d1(3,4) fresh by (simp_all add: fresh_database_def)
    then have "L' = ledger_view E (om_get ?m) Map.empty" by (simp add: assms(8) d' rocks_ledger_def)
    then show ?thesis
      using fresh_seed_root [OF assms(1-3) d1(2) view s(2,3)] root ledger_ok_accounts [OF fits, of E] d'
      by (simp add: n seed_rpc_accounts RpcState_new_def ledger_view_def)
  qed
  then show ?thesis
    using b c d1(3,4) by (simp add: n assms(7,8) d' rocks_ledger_def ledger_view_def)
qed

text \<open>
  A restart undoes payments: an account with an allocation has its allocation again, whatever the database says, while the account that was
  paid keeps what it received.
\<close>

theorem restart_restores_allocations:
  assumes "json_ok E" "rocksdb_ok R db" "rocks_ok E db d" "om_get m a = Some x" "om_get m b = None"
  shows "\<exists>d'. seed_accounts (rocks_backend E R) (om_entries m) d = (Inr (), d')
       \<and> lg_acct (rocks_ledger E db d') a = Some x \<and> lg_acct (rocks_ledger E db d') b = lg_acct (rocks_ledger E db d) b"
proof -
  obtain d' where "seed_accounts (rocks_backend E R) (om_entries m) d = (Inr (), d')" "rocks_acct E db d' = rocks_acct E db d ++ om_get m"
    by (rule seed_rocks [OF assms(1-3)])
  then show ?thesis using assms(4,5) by (simp add: rocks_ledger_def ledger_view_def map_add_def)
qed

section \<open>Witness\<close>

lemma empty_db_ok: "rocks_ok demo_externs (\<lambda>d. d) om_empty" "fresh_database demo_externs (\<lambda>d. d) om_empty"
  by (simp_all add: rocks_ok_def rocks_inv_def fresh_database_def rocks_acct_def rocks_raw_def fun_eq_iff canonical_def)

theorem validator_starts_at_genesis_witness:
  "\<exists>n b. run_bft_validator demo_externs (rocks_backend demo_externs demo_rocksdb) demo_files True om_empty
       ((for_data_dir ''x'')\<lparr>nc_validator_set := Some (single_validator_set zero32), nc_local_validator_address := Some zero32\<rparr>)
       (local_development 0 [(demo_address, 7)]) = Inr (Inr n)
     \<and> genesis_block demo_externs (local_development 0 [(demo_address, 7)]) = Inr b
     \<and> store_state_root (rocks_backend demo_externs demo_rocksdb) (bft_state (vn_consensus n)) = Inr (bh_state_root (blk_header b))
     \<and> wealth (rocks_ledger demo_externs (\<lambda>d. d) (bft_state (vn_consensus n))) = 7"
proof -
  let ?g = "local_development 0 [(demo_address, 7)]" and ?R = "rocks_backend demo_externs demo_rocksdb"
  let ?config = "(for_data_dir ''x'')\<lparr>nc_validator_set := Some (single_validator_set zero32), nc_local_validator_address := Some zero32\<rparr>"
  have total: "sum_list (map (unat \<circ> acc_balance) (om_values (gc_allocations ?g))) = 7"
    by (simp add: local_development_def om_values_def om_insert.rep_eq om_empty.rep_eq Account_new_def)
  obtain b where b: "genesis_block demo_externs ?g = Inr b"
    using genesis_block_exists [of demo_externs ?g] by blast
  obtain d' where d': "seed_accounts ?R (om_entries (gc_allocations ?g)) om_empty = (Inr (), d')"
    by (rule seed_rocks [OF demo_json_ok demo_rocksdb_ok empty_db_ok(1)])
  have "is_validator (single_validator_set zero32) zero32"
    by (simp add: single_validator_set_def from_validators_def Validator_new_def vs_add_def is_validator_def om_contains_def)
  then obtain n where n: "run_bft_validator demo_externs ?R demo_files True om_empty ?config ?g = Inr (Inr n)"
    using b d' by (simp add: run_bft_validator_def Bft_new_with_store_def demo_files_def Let_def)
  from validator_starts_at_genesis [OF demo_json_ok demo_hex_ok demo_rocksdb_ok empty_db_ok(1) n refl refl refl] empty_db_ok(2) total
  show ?thesis using n by auto
qed

end
