(* ===== verification/Spec2Isabelle.thy ===== *)
theory Spec2Isabelle
  imports Tokenomics Protocol Sdk Economics Progress Services Sandbox Routes Dialer Startup
begin

text \<open>
  PEMRIX: a verification development for a proof-of-stake ledger written in Rust.

  \<^bold>\<open>The program.\<close> A node keeps accounts, validator records and delegations in a key-value store
  (crates/pemrix-storage). Transactions are signed by wallets (pemrix-crypto, pemrix-sdk), enter through the REST or gRPC
  server (pemrix-rpc), and are executed by the virtual machine (pemrix-vm) when a consensus engine
  (pemrix-consensus: solo.rs with one validator, bft.rs with a committee) makes a block. Validators exchange
  proposals, votes and blocks over TCP (pemrix-network); the node (node/pemrix-node) ties engine, transport and
  servers together, writes and reads the data directory, and runs the testnet and the standalone services
  (explorer, webhooks, faucet) from the stream of finalized blocks. pemrix-cli has the commands and pemrix-sandbox
  a developer environment around the solo engine. pemrix-primitives and pemrix-protocol hold the data
  types, the issuance schedule and the constants.

  \<^bold>\<open>Theories and sources.\<close>
  \<^item> Prelude, Containers, Parse: machine words, results and actions, printed and parsed numbers, \<open>[u8; 32]\<close>
    and \<open>BTreeMap\<close>; the collections \<open>word_arith\<close> and \<open>act_simps\<close>.
  \<^item> Primitives, Tokenomics, Protocol: pemrix-primitives and pemrix-protocol. \<open>externs\<close> holds the third-party functions;
    Demo\_Externs is an instance of it for the witnesses.
  \<^item> Crypto: the Ed25519 and the hybrid scheme of pemrix-crypto.
  \<^item> Storage, RocksDb: backend.rs and state.rs, with the locale \<open>state_backend\<close>, interpreted on the in-memory backend and proved
    for the RocksDB backend under \<open>rocksdb_ok\<close>.
  \<^item> Vm, Sdk: the executors of pemrix-vm; transaction builder and wallet of pemrix-sdk.
  \<^item> Ledger: the specification \<open>spec_execute\<close> on three maps, the refinement of the block executor, and conservation,
    authority and replay protection.
  \<^item> Economics, Validator\_Set, Consensus, Bft, Bft\_Examples: the modules of pemrix-consensus. Consensus has the locale
    \<open>fifo_mempool\<close>; Bft has the step relation \<open>bft_step\<close> with one rule per method the node calls.
  \<^item> Network, Dialer: messages, frames, connection slots and transports of pemrix-network with the locale \<open>transport\<close>
    (interpreted on the TCP, mock and QUIC transports), and the retry loop that dials bootstrap peers.
  \<^item> Rpc, Explorer, Webhooks, Faucet, Ports: the services and their handlers; Faucet has the locale \<open>submitter\<close>. Ports also
    has the testnet preset of pemrix-testnet.
  \<^item> Genesis, Node, Chain\_Network: genesis.rs, config.rs, keys.rs, bootstrap.rs and node.rs, and the validators of a network
    composed through the messages they exchange, for any topology. Agreement has the same network with one step per lock that node.rs takes
    and with forged messages; the passes of Chain\_Network are runs of it. Progress follows a round through a fully connected network.
    Startup has the state a validator begins with on a fresh and on a used RocksDB database.
  \<^item> Services: testnet.rs and services.rs.
  \<^item> Sandbox: pemrix-sandbox. Client: the REST routes, the SDK clients (locale \<open>client\<close>, interpreted on all three) and the
    commands of pemrix-cli with the payment demo. Routes: the routers of the explorer, the webhooks and the faucet.

  \<^bold>\<open>State and operations.\<close> A struct is a record with its fields, an enum a datatype. A method with \<open>&mut self\<close>
  and a \<open>Result\<close> is an action \<open>'s \<Rightarrow> ('e + 'a) \<times> 's\<close> that returns the state also with an error, so that what the
  code wrote before it failed stays written. A trait is a record of its methods and, for what it promises, a
  locale. Integers have their width and wrap where the code uses plain operators; checked and saturating
  operations are the standard library's; division by zero, \<open>expect\<close> and \<open>assert\<close> are values of type \<open>panic\<close>. Names are the
  source's, with a prefix where two modules share one or where HOL has it.

  \<^bold>\<open>What is shown.\<close>
  \<^item> Execution: the block executor computes \<open>spec_execute\<close> on every branch and on both backends, with equal state roots;
    no transaction creates value, only the signer's funds and delegations go down, and no transaction executes twice.
  \<^item> Consensus: quorums intersect in more than a third of the power; a height is finalized only with a quorum and never changes
    afterwards; conflicting quorums need double votes; the committee is the greatest stakes and its power is bounded by
    the supply; proposers rotate; the engine's tables are well-formed whatever it is sent. In a network of validators that propose only in turn, all
    finalize the same linked chain under every schedule, with forged votes and with blocks of others than the proposer; fully connected,
    two or more of them can finalize every height, and one alone does nothing. Two theorems show where the engine does not reach what it is meant to: an equivocating
    proposer splits finality, and a network of five or more validators that each dial their predecessor finalizes nothing.
    A quorum before the block stalls a height, and what the validators finalize is empty blocks.
  \<^item> Network: frames round-trip, a broadcast is delivered in order, of two sockets between the same peers both ends keep the same one, a stale
    connection cannot release the slot of a newer one, and a peer has at most one dial in flight.
  \<^item> Issuance: the cumulative loop returns exactly for a positive interval and computes the sum of the rewards, which stay within bounds.
  \<^item> Services: admission agrees with execution; what the RPC server answers for a hash is a block or transaction with that hash; the account mirror of the testnet agrees
    with the ledger for transfers; a poller ingests the chain in order; a webhook event is recorded once for every subscription that is active when the event occurs, whatever
    is subscribed or removed meanwhile (nothing is sent); the faucet's grants are valid
    and, one request at a time, respect the cooldown. Error theorems record where a service loses or repeats work.
  \<^item> Whole system: a request to the faucet by its client queues one valid transfer of what was asked for; a data directory written by \<open>init\<close> starts the node it describes;
    on a fresh database a validator starts in the state its genesis block commits to; a wallet's transaction verifies; the staking commands
    lead from the key file over HTTP and the pending list to the change of the ledger they ask for, under conditions that are stated.

  \<^bold>\<open>Hypotheses.\<close> \<open>hex_ok\<close>, \<open>hex_digits_ok\<close>, \<open>json_ok\<close>, \<open>dalek_ok\<close>, \<open>wire_ok\<close>, \<open>codec_reads\<close>, \<open>rocksdb_ok\<close> and the three
  \<open>_file_ok\<close> predicates state documented behaviour of third-party code: decoding undoes encoding, a signature by a
  secret key verifies, a database reads what was written. Nothing is assumed about collisions of hashes.
  Every property with hypotheses has a witness on a concrete instance.

  \<^bold>\<open>Loops and bounds.\<close> Loops over data are structural recursions; \<open>read_messages\<close> has a termination proof by the length of the stream;
  \<open>total_issued_by_height\<close> may not return and is a \<^theory_text>\<open>partial_function\<close>, with a theorem that says when it does. No definition has fuel.
  The endless loops of the node are modelled pass by pass: the readings of the clock, the answers to requests and what
  other tasks do between two passes are arguments, so that a theorem about a list of passes holds for every run of that length.

  \<^bold>\<open>Concurrency.\<close> A lock is held within one step. Where the code releases a lock in the middle of an operation (faucet requests,
  connections, dials, webhook events), the parts are separate definitions or steps and the theorems quantify over what
  runs between them. The two loops of a validator interleave at every lock in Agreement; elsewhere a pass of a loop is one step, and so is
  ingesting a block into the services.

  \<^bold>\<open>Not modelled.\<close> Binding listeners, spawning tasks, argument parsing, logging and the systemd and shell files; axum, tonic, reqwest,
  tokio, rocksdb, wasmtime, blake3, ed25519-dalek, serde and hex beyond the parameters above; what the generated protobuf code does
  beyond its message types; the SDKs in other languages; test code. The contract runner of wasm.rs is modelled over
  wasmtime as a parameter.
\<close>

end
